(* ===== verification/Prelude.thy ===== *)
theory Prelude
  imports Main "HOL-Library.Word"
begin

text \<open>
  What the components of the model share: bytes and C strings, the C character
  classes of \<^verbatim>\<open><ctype.h>\<close> the library calls, the machine's \<open>size_t\<close> bounds, and the
  generic list lemmas the component proofs rest on.

  A C \<open>char\<close> is an Isabelle \<^typ>\<open>char\<close> (a byte); \<open>(unsigned char)c\<close> is \<open>uc c\<close>. A C
  string is the list of the bytes in front of its terminating NUL, so \<open>strlen\<close> is
  \<^const>\<open>length\<close>; a \<open>char *\<close> that may be NULL is an option. \<open>size_t\<close>, \<open>long\<close> and
  pointers have 64 bits (the LP64 targets of the release matrix).
\<close>

named_theorems uc_simps \<open>comparisons of bytes as comparisons of their values\<close>
named_theorems frame_simps \<open>which parts of a state an operation leaves alone\<close>
named_theorems emit_simps \<open>an emission routine as the bytes it appends\<close>
named_theorems wf_intros \<open>operations keep the well-formedness of their state\<close>

section \<open>Bytes\<close>

type_synonym cstring = string

definition uc :: "char \<Rightarrow> nat" where
  "uc c = of_char c"

lemma uc_less_256 [simp]: "uc c < 256"
  by (simp add: uc_def)

lemma uc_le_255 [simp]: "uc c \<le> 255"
  using uc_less_256 [of c] by linarith

lemma uc_eq_iff: "uc c = uc d \<longleftrightarrow> c = d"
  by (simp add: uc_def)

lemma char_of_uc [simp]: "char_of (uc c) = c"
  by (simp add: uc_def)

lemma uc_char_of [simp]: "uc (char_of (n :: nat)) = n mod 256"
  by (simp add: uc_def)

lemma uc_Char [simp]: "uc (Char b0 b1 b2 b3 b4 b5 b6 b7) =
    of_char (Char b0 b1 b2 b3 b4 b5 b6 b7)"
  by (simp add: uc_def)

lemma char_eq_uc [uc_simps]: "c = d \<longleftrightarrow> uc c = uc d"
  by (simp add: uc_eq_iff)

text \<open>Reading a C string at an index up to its terminating NUL.\<close>

definition cat :: "cstring \<Rightarrow> nat \<Rightarrow> nat" where
  "cat s i = (if i < length s then uc (s ! i) else 0)"

lemma cat_Nil [simp]: "cat [] i = 0"
  by (simp add: cat_def)

lemma cat_Cons_0 [simp]: "cat (c # s) 0 = uc c"
  by (simp add: cat_def)

lemma cat_Cons_Suc [simp]: "cat (c # s) (Suc i) = cat s i"
  by (simp add: cat_def)

lemma cat_less_256 [simp]: "cat s i < 256"
  by (simp add: cat_def)

text \<open>
  The bytes of a C string hold no NUL; \<open>cstr\<close> cuts a byte list at its first NUL, which is
  what a NUL-terminated reader sees of it.
\<close>

definition cstr_ok :: "string \<Rightarrow> bool" where
  "cstr_ok s = (\<forall>c \<in> set s. uc c \<noteq> 0)"

lemma cstr_ok_Nil [simp]: "cstr_ok []"
  by (simp add: cstr_ok_def)

lemma cstr_ok_Cons [simp]: "cstr_ok (c # s) \<longleftrightarrow> uc c \<noteq> 0 \<and> cstr_ok s"
  by (auto simp: cstr_ok_def)

lemma cstr_ok_append [simp]: "cstr_ok (s @ t) \<longleftrightarrow> cstr_ok s \<and> cstr_ok t"
  by (auto simp: cstr_ok_def)

section \<open>Character classes of the C locale\<close>

definition isspace :: "char \<Rightarrow> bool" where
  "isspace c = ((9 \<le> uc c \<and> uc c \<le> 13) \<or> uc c = 32)"

definition tolower :: "char \<Rightarrow> char" where
  "tolower c = (if 65 \<le> uc c \<and> uc c \<le> 90 then char_of (uc c + 32) else c)"

lemma uc_tolower: "uc (tolower c) = (if 65 \<le> uc c \<and> uc c \<le> 90 then uc c + 32 else uc c)"
  by (simp add: tolower_def)

lemma tolower_idem [simp]: "tolower (tolower c) = tolower c"
  by (simp add: char_eq_uc uc_tolower)

lemma isspace_tolower [simp]: "isspace (tolower c) = isspace c"
  by (simp add: isspace_def uc_tolower)

definition hex_digits :: string where
  "hex_digits = ''0123456789abcdef''"

lemma length_hex_digits [simp]: "length hex_digits = 16"
  by (simp add: hex_digits_def)

text \<open>The two digits the encoders write for a byte: \<open>hex[(ch >> 4) & 0x0f]\<close>, \<open>hex[ch & 0x0f]\<close>.\<close>

definition hex_hi :: "char \<Rightarrow> char" where
  "hex_hi c = hex_digits ! (uc c div 16)"

definition hex_lo :: "char \<Rightarrow> char" where
  "hex_lo c = hex_digits ! (uc c mod 16)"

definition hex_value :: "char \<Rightarrow> nat option" where
  "hex_value c = (if 48 \<le> uc c \<and> uc c \<le> 57 then Some (uc c - 48)
     else if 97 \<le> uc c \<and> uc c \<le> 102 then Some (uc c - 87)
     else if 65 \<le> uc c \<and> uc c \<le> 70 then Some (uc c - 55) else None)"

lemma less_16_cases: "(n :: nat) < 16 \<Longrightarrow> n \<in> {0, 1, 2, 3, 4, 5, 6, 7, 8, 9, 10, 11, 12, 13, 14, 15}"
  by (simp only: insert_iff empty_iff) presburger

lemma hex_value_hex_digits [simp]: "n < 16 \<Longrightarrow> hex_value (hex_digits ! n) = Some n"
  by (drule less_16_cases) (auto simp: hex_digits_def hex_value_def)

lemma uc_hex_digits: "n < 16 \<Longrightarrow> 48 \<le> uc (hex_digits ! n) \<and> uc (hex_digits ! n) \<le> 102
    \<and> uc (hex_digits ! n) \<noteq> 92"
  by (drule less_16_cases) (auto simp: hex_digits_def)

lemma hex_value_hi [simp]: "hex_value (hex_hi c) = Some (uc c div 16)"
  by (simp add: hex_hi_def less_mult_imp_div_less)

lemma hex_value_lo [simp]: "hex_value (hex_lo c) = Some (uc c mod 16)"
  by (simp add: hex_lo_def)

lemma uc_hex_hi: "48 \<le> uc (hex_hi c) \<and> uc (hex_hi c) \<le> 102 \<and> uc (hex_hi c) \<noteq> 92"
  unfolding hex_hi_def by (rule uc_hex_digits) (simp add: less_mult_imp_div_less)

lemma uc_hex_lo: "48 \<le> uc (hex_lo c) \<and> uc (hex_lo c) \<le> 102 \<and> uc (hex_lo c) \<noteq> 92"
  unfolding hex_lo_def by (rule uc_hex_digits) simp

section \<open>Sizes\<close>

definition size_max :: nat where
  "size_max = 2 ^ 64 - 1"

section \<open>Lists\<close>

lemma drop_eq_Cons_nth: "i < length xs \<Longrightarrow> drop i xs = xs ! i # drop (Suc i) xs"
  by (simp add: Cons_nth_drop_Suc)

lemma take_Suc_snoc: "i < length xs \<Longrightarrow> take (Suc i) xs = take i xs @ [xs ! i]"
  by (rule take_Suc_conv_app_nth)

text \<open>The bytes of \<open>xs\<close> from index \<open>i\<close> up to (not including) index \<open>j\<close>.\<close>

definition slice :: "nat \<Rightarrow> nat \<Rightarrow> 'a list \<Rightarrow> 'a list" where
  "slice i j xs = take (j - i) (drop i xs)"

lemma slice_same [simp]: "slice i i xs = []"
  by (simp add: slice_def)

lemma length_slice [simp]: "j \<le> length xs \<Longrightarrow> length (slice i j xs) = j - i"
  by (simp add: slice_def)

lemma slice_snoc: "i \<le> j \<Longrightarrow> j < length xs \<Longrightarrow> slice i (Suc j) xs = slice i j xs @ [xs ! j]"
  by (simp add: slice_def Suc_diff_le take_Suc_conv_app_nth)

lemma slice_append: "i \<le> j \<Longrightarrow> j \<le> k \<Longrightarrow> slice i j xs @ slice j k xs = slice i k xs"
proof -
  assume "i \<le> j" "j \<le> k"
  then have "slice i k xs = take ((j - i) + (k - j)) (drop i xs)"
    by (simp add: slice_def)
  also have "\<dots> = take (j - i) (drop i xs) @ take (k - j) (drop (j - i) (drop i xs))"
    by (simp only: take_add)
  also have "drop (j - i) (drop i xs) = drop j xs"
    using \<open>i \<le> j\<close> by simp
  finally show ?thesis by (simp add: slice_def)
qed

lemma slice_full [simp]: "slice 0 (length xs) xs = xs"
  by (simp add: slice_def)

lemma slice_to_end: "slice i (length xs) xs = drop i xs"
  by (simp add: slice_def)

lemma slice_ge [simp]: "j \<le> i \<Longrightarrow> slice i j xs = []"
  by (simp add: slice_def)

end
