(* ===== verification/Types.thy ===== *)
theory Types
  imports Prelude
begin

text \<open>
  The data model: the public structures of \<open>include/pslog.h\<close>, the private ones of
  \<open>src/pslog_internal.h\<close>, and the world outside the library (sinks, allocator, clock,
  C library tables) that the code reaches through calls.
\<close>

section \<open>Enumerations\<close>

datatype pslog_mode = MODE_CONSOLE | MODE_JSON

text \<open>A C enum object can hold a value that is no enumerator: \<open>LEVEL_OTHER\<close>.\<close>

datatype pslog_level =
    LEVEL_TRACE | LEVEL_DEBUG | LEVEL_INFO | LEVEL_WARN | LEVEL_ERROR
  | LEVEL_FATAL | LEVEL_PANIC | LEVEL_NOLEVEL | LEVEL_DISABLED | LEVEL_OTHER int

fun level_val :: "pslog_level \<Rightarrow> int" where
  "level_val LEVEL_TRACE = -1"
| "level_val LEVEL_DEBUG = 0"
| "level_val LEVEL_INFO = 1"
| "level_val LEVEL_WARN = 2"
| "level_val LEVEL_ERROR = 3"
| "level_val LEVEL_FATAL = 4"
| "level_val LEVEL_PANIC = 5"
| "level_val LEVEL_NOLEVEL = 6"
| "level_val LEVEL_DISABLED = 127"
| "level_val (LEVEL_OTHER n) = n"

text \<open>C compares the numbers of two levels; different enumerator objects may share one.\<close>

instantiation pslog_level :: preorder
begin

definition less_eq_pslog_level :: "pslog_level \<Rightarrow> pslog_level \<Rightarrow> bool" where
  "less_eq_pslog_level a b = (level_val a \<le> level_val b)"

definition less_pslog_level :: "pslog_level \<Rightarrow> pslog_level \<Rightarrow> bool" where
  "less_pslog_level a b = (level_val a < level_val b)"

instance by standard (auto simp: less_eq_pslog_level_def less_pslog_level_def)

end

declare less_eq_pslog_level_def [simp] less_pslog_level_def [simp]

datatype pslog_color_mode = COLOR_AUTO | COLOR_NEVER | COLOR_ALWAYS

datatype pslog_non_finite_float_policy =
    NON_FINITE_FLOAT_AS_STRING | NON_FINITE_FLOAT_AS_NULL | NON_FINITE_FLOAT_OTHER int

datatype pslog_field_type =
    FIELD_NULL | FIELD_STRING | FIELD_SIGNED | FIELD_UNSIGNED | FIELD_DOUBLE | FIELD_BOOL
  | FIELD_POINTER | FIELD_BYTES | FIELD_TIME | FIELD_DURATION | FIELD_ERRNO

fun field_type_val :: "pslog_field_type \<Rightarrow> nat" where
  "field_type_val FIELD_NULL = 0"
| "field_type_val FIELD_STRING = 1"
| "field_type_val FIELD_SIGNED = 2"
| "field_type_val FIELD_UNSIGNED = 3"
| "field_type_val FIELD_DOUBLE = 4"
| "field_type_val FIELD_BOOL = 5"
| "field_type_val FIELD_POINTER = 6"
| "field_type_val FIELD_BYTES = 7"
| "field_type_val FIELD_TIME = 8"
| "field_type_val FIELD_DURATION = 9"
| "field_type_val FIELD_ERRNO = 10"

section \<open>Fields\<close>

record pslog_time_value =
  tv_epoch_seconds :: int
  tv_nanoseconds :: int
  tv_utc_offset_minutes :: int

record pslog_duration_value =
  dv_seconds :: int
  dv_nanoseconds :: int

text \<open>
  The union \<open>as\<close> together with its tag \<open>type\<close>. A \<open>double\<close> is its IEEE-754 bit pattern; the
  byte slice is the list of its \<open>len\<close> bytes; an errno field keeps its code in
  \<open>signed_value\<close>.
\<close>

datatype pslog_value =
    V_null
  | V_string "cstring option"
  | V_signed "64 word"
  | V_unsigned "64 word"
  | V_double "64 word"
  | V_bool bool
  | V_pointer "64 word"
  | V_bytes string
  | V_time pslog_time_value
  | V_duration pslog_duration_value
  | V_errno "64 word"

fun value_type :: "pslog_value \<Rightarrow> pslog_field_type" where
  "value_type V_null = FIELD_NULL"
| "value_type (V_string _) = FIELD_STRING"
| "value_type (V_signed _) = FIELD_SIGNED"
| "value_type (V_unsigned _) = FIELD_UNSIGNED"
| "value_type (V_double _) = FIELD_DOUBLE"
| "value_type (V_bool _) = FIELD_BOOL"
| "value_type (V_pointer _) = FIELD_POINTER"
| "value_type (V_bytes _) = FIELD_BYTES"
| "value_type (V_time _) = FIELD_TIME"
| "value_type (V_duration _) = FIELD_DURATION"
| "value_type (V_errno _) = FIELD_ERRNO"

text \<open>A pointer to a C string, as the caches see it: its address and the string there.\<close>

type_synonym cptr = "64 word \<times> cstring"

record pslog_field =
  f_key :: "cptr option"
  f_key_len :: nat
  f_value_len :: nat
  f_value :: pslog_value
  f_trusted_key :: bool
  f_trusted_value :: bool
  f_console_simple_value :: bool

section \<open>Palettes\<close>

text \<open>
  A NULL member of a palette is the empty string here: \<open>pslog_cstr_len_or_zero\<close> gives it
  length 0 and every use is guarded by that length. The cached lengths \<open>palette_*_len\<close> and
  \<open>level_color_lens\<close> of the shared state are the lengths of these strings.
\<close>

record pslog_palette =
  p_key :: cstring
  p_string :: cstring
  p_number :: cstring
  p_boolean :: cstring
  p_null_value :: cstring
  p_trace :: cstring
  p_debug :: cstring
  p_info :: cstring
  p_warn :: cstring
  p_error :: cstring
  p_fatal :: cstring
  p_panic :: cstring
  p_timestamp :: cstring
  p_message :: cstring
  p_message_key :: cstring
  p_reset :: cstring

section \<open>Outputs\<close>

text \<open>
  An output is a \<open>write\<close> callback with its \<open>userdata\<close>, optional \<open>close\<close> and \<open>isatty\<close>
  callbacks and the ownership flag. The callback and its userdata always travel together in
  the code, so they are one value, the sink: NULL, the library's own \<open>FILE\<close>, descriptor, tee
  and observed callbacks (with the address of the structure \<open>userdata\<close> points to, where the
  code compares it), or an application callback. \<open>None\<close> as the contents of a library sink is a
  NULL \<open>userdata\<close>.
\<close>

datatype sink =
    S_null
  | S_file "nat option"
  | S_fd "64 word" "int option"
  | S_tee "64 word" "(pslog_output \<times> pslog_output) option"
  | S_observed nat bool "pslog_output option"
  | S_user nat
and pslog_output =
    Output (o_sink: sink) (o_close: bool) (o_isatty: bool) (o_owned: bool)

definition output_zero :: pslog_output where
  "output_zero = Output S_null False False False"

text \<open>What the world sees of a write: the stream, the descriptor, the application callback.\<close>

datatype target = T_file nat | T_fd int | T_user nat

record pslog_write_failure =
  wf_error_code :: int
  wf_short_write :: bool
  wf_written :: nat
  wf_attempted :: nat

record pslog_observed_output_stats =
  st_failures :: nat
  st_short_writes :: nat

section \<open>The world outside the library\<close>

text \<open>
  Every call that leaves the library takes the next answer of an oracle: \<open>Accept\<close> (all
  bytes, success), \<open>Short n\<close> (success, \<open>n\<close> bytes reported, even more than offered), \<open>Fail n e\<close>
  (status or errno \<open>e\<close>, \<open>n\<close> bytes). Allocations have an oracle of their own. The log records
  the calls, the oldest first.
\<close>

datatype answer = Accept | Short nat | Fail nat int

datatype call =
    C_write target string nat int
  | C_close target int
  | C_failure nat pslog_write_failure

record world =
  w_answer :: "nat \<Rightarrow> answer"
  w_tick :: nat
  w_log :: "call list"
  w_alloc_ok :: "nat \<Rightarrow> bool"
  w_allocs :: nat
  w_frees :: nat
  w_isatty :: "target \<Rightarrow> bool"
  w_observed :: "nat \<Rightarrow> pslog_observed_output_stats"

record tm =
  tm_year :: int
  tm_mon :: int
  tm_mday :: int
  tm_hour :: int
  tm_min :: int
  tm_sec :: int

text \<open>
  The tables and conversions of the C library whose result the standard leaves to the
  implementation or to the process environment: the time zone, \<open>strftime\<close> on an application's
  layout, \<open>strerror\<close>, \<open>%p\<close>, the rounding of \<open>double\<close> in \<open>%.17g\<close> and \<open>%.3f\<close>, the address of the
  block an allocation returns (\<open>lc_block n\<close> for the \<open>n\<close>-th) and where a string literal lies.
\<close>

record libc =
  lc_localtime :: "int \<Rightarrow> tm option"
  lc_mktime :: "tm \<Rightarrow> int"
  lc_strftime :: "cstring \<Rightarrow> tm \<Rightarrow> cstring"
  lc_strerror :: "int \<Rightarrow> cstring option"
  lc_fmt_g17 :: "64 word \<Rightarrow> cstring"
  lc_fmt_f3 :: "int \<Rightarrow> int \<Rightarrow> int \<Rightarrow> cstring"
  lc_fmt_pointer :: "64 word \<Rightarrow> cstring"
  lc_block :: "nat \<Rightarrow> 64 word"
  lc_literal :: "cstring \<Rightarrow> 64 word"

section \<open>Private structures\<close>

text \<open>A mutex; \<open>m_fault\<close> records a lock by its holder (deadlock) or an unlock by another.\<close>

record mutex =
  m_held :: bool
  m_fault :: bool

text \<open>
  The line buffer. \<open>b_data\<close> is \<open>data[0 .. len)\<close>, so \<open>len\<close> is its length; \<open>b_null\<close> is
  \<open>data == NULL\<close>; \<open>b_alloc\<close> is the size of the block \<open>data\<close> points to (the inline array or the heap
  block), and \<open>b_oob\<close> records that some write fell outside that block.
\<close>

record pslog_buffer =
  b_shared :: bool
  b_null :: bool
  b_data :: string
  b_alloc :: nat
  b_capacity :: nat
  b_chunk_capacity :: nat
  b_output_locked :: bool
  b_heap_owned :: bool
  b_oob :: bool

datatype kvfmt_arg_type =
    ARG_STRING | ARG_SIGNED_INT | ARG_SIGNED_LONG | ARG_UNSIGNED_INT | ARG_UNSIGNED_LONG
  | ARG_DOUBLE | ARG_POINTER | ARG_BOOL | ARG_ERRNO

text \<open>
  A parsed \<open>key=%verb\<close> token. \<open>ks_key\<close> points into the format string, so the C string there
  runs on past the \<open>ks_key_len\<close> bytes of the key. An empty prefix is a prefix that was not
  prepared (its length is 0).
\<close>

record kvfmt_field_spec =
  ks_key :: cptr
  ks_key_len :: nat
  ks_arg_type :: kvfmt_arg_type
  ks_console_prefix :: string
  ks_json_color_prefix :: string

record kvfmt_cache_entry =
  ke_kvfmt :: "cptr option"
  ke_kvfmt_len :: nat
  ke_kvfmt_hash :: "64 word"
  ke_fields :: "kvfmt_field_spec list"

record console_prefix_entry =
  cp_key :: "64 word"
  cp_key_len :: nat
  cp_type :: pslog_field_type
  cp_prefix :: string
  cp_key_copy :: string

text \<open>
  The shared state of a logger tree, in two halves: what \<open>pslog_new\<close> writes once and every
  later call only reads (\<open>shared_cfg\<close>), and what calls change (\<open>pslog_shared\<close>). The arrays of
  cache entries are functions of the index; \<open>None\<close> is an entry that was never filled
  (\<open>kvfmt == NULL\<close>, \<open>key == NULL\<close>, \<open>valid == 0\<close>).
\<close>

record shared_cfg =
  c_mode :: pslog_mode
  c_non_finite_float_policy :: pslog_non_finite_float_policy
  c_line_buffer_capacity :: nat
  c_min_level :: pslog_level
  c_timestamps :: bool
  c_timestamp_cacheable :: bool
  c_utc :: bool
  c_verbose_fields :: bool
  c_color_enabled :: bool
  c_time_format :: "cstring option"
  c_palette :: pslog_palette
  c_console_level_fragments :: "nat \<Rightarrow> string"
  c_json_color_level_fields :: "nat \<Rightarrow> string"
  c_json_color_min_level_fields :: "nat \<Rightarrow> string"
  c_json_color_message_prefix :: string
  c_json_color_timestamp_prefix :: string
  c_json_color_timestamp_suffix :: string
  c_console_message_prefix :: string

record pslog_shared =
  s_state_mutex :: mutex
  s_output_mutex :: mutex
  s_output :: pslog_output
  s_closed :: bool
  s_close_err :: int
  s_refcount :: nat
  s_cached_timestamp_second :: int
  s_cached_timestamp :: string
  s_timestamp_cache_hits :: nat
  s_timestamp_cache_misses :: nat
  s_kvfmt_cache :: "nat \<Rightarrow> kvfmt_cache_entry option"
  s_kvfmt_ptr_cache :: "(nat \<Rightarrow> (64 word \<times> nat) option) option"
  s_console_prefix_cache :: "nat \<Rightarrow> console_prefix_entry option"
  s_double_cache :: "nat \<Rightarrow> (64 word \<times> string) option"

record pslog_logger_impl =
  i_fields :: "pslog_field list"
  i_field_prefix :: string
  i_min_level :: pslog_level
  i_include_level_field :: bool
  i_can_close_shared :: bool

record pslog_config =
  cf_mode :: pslog_mode
  cf_color :: pslog_color_mode
  cf_non_finite_float_policy :: pslog_non_finite_float_policy
  cf_line_buffer_capacity :: nat
  cf_min_level :: pslog_level
  cf_timestamps :: bool
  cf_utc :: bool
  cf_with_level_field :: bool
  cf_verbose_fields :: bool
  cf_time_format :: "cstring option"
  cf_palette :: "pslog_palette option"
  cf_output :: pslog_output

text \<open>What a call that fills a line works on: its buffer, the shared state, the world.\<close>

record est =
  e_buf :: pslog_buffer
  e_shared :: pslog_shared
  e_world :: world

section \<open>Mutexes\<close>

definition mutex_init :: mutex where
  "mutex_init = \<lparr>m_held = False, m_fault = False\<rparr>"

definition pslog_mutex_lock :: "mutex \<Rightarrow> mutex" where
  "pslog_mutex_lock m = \<lparr>m_held = True, m_fault = m_fault m \<or> m_held m\<rparr>"

definition pslog_mutex_unlock :: "mutex \<Rightarrow> mutex" where
  "pslog_mutex_unlock m = \<lparr>m_held = False, m_fault = m_fault m \<or> \<not> m_held m\<rparr>"

definition mutex_ok :: "mutex \<Rightarrow> bool" where
  "mutex_ok m = (\<not> m_held m \<and> \<not> m_fault m)"

lemma mutex_ok_init [simp]: "mutex_ok mutex_init"
  by (simp add: mutex_ok_def mutex_init_def)

lemma mutex_lock_sel [simp]:
  "m_held (pslog_mutex_lock m) = True"
  "m_fault (pslog_mutex_lock m) = (m_fault m \<or> m_held m)"
  by (simp_all add: pslog_mutex_lock_def)

lemma mutex_unlock_sel [simp]:
  "m_held (pslog_mutex_unlock m) = False"
  "m_fault (pslog_mutex_unlock m) = (m_fault m \<or> \<not> m_held m)"
  by (simp_all add: pslog_mutex_unlock_def)

lemma mutex_lock_unlock [simp]: "mutex_ok m \<Longrightarrow> pslog_mutex_unlock (pslog_mutex_lock m) = m"
  by (simp add: mutex_ok_def pslog_mutex_lock_def pslog_mutex_unlock_def)

end
