(* ===== verification/Outputs.thy ===== *)
theory Outputs
  imports Types
begin

text \<open>
  Checked size arithmetic, the allocator wrappers, and the output layer of \<open>src/pslog.c\<close>: the
  \<open>FILE\<close>, descriptor, tee and observed callbacks, the retry loop that feeds a sink
  (\<open>pslog_write_output_locked\<close>), and closing. The interface a sink promises its clients is the
  locale \<open>lossless_sink\<close>; the retry loop's delivery guarantee is proved inside it once.
\<close>

section \<open>Checked size arithmetic and allocation\<close>

definition pslog_size_add :: "nat \<Rightarrow> nat \<Rightarrow> nat option" where
  "pslog_size_add lhs rhs =
     (if lhs > size_max - rhs then None else Some ((lhs + rhs) mod 2 ^ 64))"

definition pslog_size_mul :: "nat \<Rightarrow> nat \<Rightarrow> nat option" where
  "pslog_size_mul lhs rhs =
     (if lhs \<noteq> 0 \<and> rhs > size_max div lhs then None else Some ((lhs * rhs) mod 2 ^ 64))"

definition default_line_buffer_capacity :: nat where
  "default_line_buffer_capacity = 1024"

definition pslog_normalize_line_buffer_capacity :: "nat \<Rightarrow> nat option" where
  "pslog_normalize_line_buffer_capacity capacity =
     (let normalized = (if capacity = 0 then default_line_buffer_capacity else capacity)
      in if normalized > size_max - 1 then None else Some normalized)"

definition pslog_malloc_internal :: "nat \<Rightarrow> world \<Rightarrow> bool \<times> world" where
  "pslog_malloc_internal sz w = (w_alloc_ok w (w_allocs w), w\<lparr>w_allocs := Suc (w_allocs w)\<rparr>)"

definition pslog_realloc_internal :: "nat \<Rightarrow> world \<Rightarrow> bool \<times> world" where
  "pslog_realloc_internal sz w = (w_alloc_ok w (w_allocs w), w\<lparr>w_allocs := Suc (w_allocs w)\<rparr>)"

definition pslog_calloc_internal :: "nat \<Rightarrow> nat \<Rightarrow> world \<Rightarrow> bool \<times> world" where
  "pslog_calloc_internal count sz w =
     (case pslog_size_mul count sz of
        None \<Rightarrow> (False, w)
      | Some _ \<Rightarrow> (w_alloc_ok w (w_allocs w), w\<lparr>w_allocs := Suc (w_allocs w)\<rparr>))"

definition pslog_free_internal :: "bool \<Rightarrow> world \<Rightarrow> world" where
  "pslog_free_internal non_null w = (if non_null then w\<lparr>w_frees := Suc (w_frees w)\<rparr> else w)"

section \<open>Calls into the C library and the application\<close>

definition EIO :: int where
  "EIO = 5"

definition ask :: "world \<Rightarrow> answer \<times> world" where
  "ask w = (w_answer w (w_tick w), w\<lparr>w_tick := Suc (w_tick w)\<rparr>)"

definition log_call :: "call \<Rightarrow> world \<Rightarrow> world" where
  "log_call c w = w\<lparr>w_log := w_log w @ [c]\<rparr>"

text \<open>\<open>fwrite\<close>: the item count and \<open>errno\<close>; \<open>fflush\<close>: success and \<open>errno\<close>.\<close>

fun fwrite_result :: "answer \<Rightarrow> nat \<Rightarrow> nat \<times> int" where
  "fwrite_result Accept len = (len, 0)"
| "fwrite_result (Short n) len = (min n len, 0)"
| "fwrite_result (Fail n e) len = (min n len, e)"

fun fflush_result :: "answer \<Rightarrow> int \<Rightarrow> bool \<times> int" where
  "fflush_result (Fail n e) errno = (False, if e = 0 then errno else e)"
| "fflush_result Accept errno = (True, errno)"
| "fflush_result (Short n) errno = (True, errno)"

type_synonym write_result = "nat \<times> int \<times> world"

definition pslog_file_write :: "nat option \<Rightarrow> string \<Rightarrow> world \<Rightarrow> write_result" where
  "pslog_file_write fp data w =
     (case fp of
        None \<Rightarrow> (0, -1, w)
      | Some f \<Rightarrow>
          (let (a, w1) = ask w;
               (result, errno1) = fwrite_result a (length data);
               (b, w2) = ask w1;
               (flushed, errno2) = fflush_result b errno1;
               err = (if result = length data \<and> flushed then 0
                      else if errno2 = 0 then EIO else errno2)
           in (result, err, log_call (C_write (T_file f) data result err) w2)))"

definition pslog_fd_write :: "int option \<Rightarrow> string \<Rightarrow> world \<Rightarrow> write_result" where
  "pslog_fd_write fdo data w =
     (case fdo of
        None \<Rightarrow> (0, -1, w)
      | Some fd \<Rightarrow>
          if fd < 0 then (0, -1, w)
          else (case ask w of
              (Accept, w1) \<Rightarrow>
                (length data, 0, log_call (C_write (T_fd fd) data (length data) 0) w1)
            | (Short n, w1) \<Rightarrow>
                (min n (length data), 0,
                 log_call (C_write (T_fd fd) data (min n (length data)) 0) w1)
            | (Fail n e, w1) \<Rightarrow>
                (let err = (if e \<noteq> 0 then e else -1)
                 in (0, err, log_call (C_write (T_fd fd) data 0 err) w1))))"

text \<open>An application callback may report anything, also more bytes than it was offered.\<close>

definition user_write :: "nat \<Rightarrow> string \<Rightarrow> world \<Rightarrow> write_result" where
  "user_write u data w =
     (case ask w of
        (Accept, w1) \<Rightarrow> (length data, 0, log_call (C_write (T_user u) data (length data) 0) w1)
      | (Short n, w1) \<Rightarrow> (n, 0, log_call (C_write (T_user u) data n 0) w1)
      | (Fail n e, w1) \<Rightarrow> (n, e, log_call (C_write (T_user u) data n e) w1))"

section \<open>Tee and observed outputs\<close>

type_synonym write_fn = "string \<Rightarrow> world \<Rightarrow> write_result"

text \<open>
  The loop of \<open>pslog_tee_write\<close>. The result holds \<open>first_written\<close>, \<open>second_written\<close>,
  \<open>first_err\<close>, \<open>second_err\<close> when the loop is left.
\<close>

function tee_loop ::
  "write_fn \<Rightarrow> write_fn \<Rightarrow> string \<Rightarrow> nat \<Rightarrow> nat \<Rightarrow> world \<Rightarrow> nat \<times> nat \<times> int \<times> int \<times> world" where
  "tee_loop wr1 wr2 data first_written second_written w =
     (let len = length data in
      if \<not> (first_written < len \<or> second_written < len)
      then (first_written, second_written, 0, 0, w)
      else
        (let do1 = first_written < len;
             (n1, e1, w1) = (if do1 then wr1 (drop first_written data) w else (0, 0, w));
             c1 = min n1 (len - first_written);
             first_written' = first_written + c1
         in if do1 \<and> e1 \<noteq> 0 then (first_written', second_written, e1, 0, w1)
            else if do1 \<and> c1 = 0 then (first_written', second_written, EIO, 0, w1)
            else
              (let do2 = second_written < len;
                   (n2, e2, w2) = (if do2 then wr2 (drop second_written data) w1 else (0, 0, w1));
                   c2 = min n2 (len - second_written);
                   second_written' = second_written + c2
               in if do2 \<and> e2 \<noteq> 0 then (first_written', second_written', 0, e2, w2)
                  else if do2 \<and> c2 = 0 then (first_written', second_written', 0, EIO, w2)
                  else if \<not> (do1 \<and> c1 > 0 \<or> do2 \<and> c2 > 0)
                       then (first_written', second_written', 0, 0, w2)
                  else tee_loop wr1 wr2 data first_written' second_written' w2)))"
  by pat_completeness auto
termination
  by (relation "measure (\<lambda>(wr1, wr2, data, f, s, w). (length data - f) + (length data - s))") auto

declare tee_loop.simps [simp del]

definition pslog_tee_write :: "bool \<Rightarrow> write_fn \<Rightarrow> bool \<Rightarrow> write_fn \<Rightarrow> write_fn" where
  "pslog_tee_write has1 wr1 has2 wr2 data w =
     (let len = length data;
          (fw, sw, e1, e2, w') =
            tee_loop wr1 wr2 data (if has1 then 0 else len) (if has2 then 0 else len) w;
          common = min fw sw
      in if fw = len \<and> sw = len then (common, 0, w')
         else if e1 \<noteq> 0 then (common, e1, w')
         else if e2 \<noteq> 0 then (common, e2, w')
         else (common, EIO, w'))"

definition pslog_observed_write :: "nat \<Rightarrow> bool \<Rightarrow> bool \<Rightarrow> write_fn \<Rightarrow> write_fn" where
  "pslog_observed_write obs has_cb has_target wr data w =
     (if \<not> has_target then (length data, 0, w)
      else
        (let (n, err, w1) = wr data w
         in if err = 0 \<and> n = length data then (n, 0, w1)
            else
              (let st = w_observed w1 obs;
                   short = (n \<noteq> length data);
                   st' = \<lparr>st_failures = st_failures st + 1,
                          st_short_writes = st_short_writes st + (if short then 1 else 0)\<rparr>;
                   w2 = w1\<lparr>w_observed := (w_observed w1)(obs := st')\<rparr>;
                   failure = \<lparr>wf_error_code = err, wf_short_write = short,
                              wf_written = n, wf_attempted = length data\<rparr>
               in (n, err, if has_cb then log_call (C_failure obs failure) w2 else w2))))"

text \<open>\<open>output.write(output.userdata, data, len, &written)\<close>; a NULL \<open>write\<close> is never called.\<close>

fun sink_write :: "sink \<Rightarrow> string \<Rightarrow> world \<Rightarrow> write_result" where
  "sink_write S_null data w = (0, -1, w)"
| "sink_write (S_file fp) data w = pslog_file_write fp data w"
| "sink_write (S_fd a fd) data w = pslog_fd_write fd data w"
| "sink_write (S_tee a None) data w = (0, -1, w)"
| "sink_write (S_tee a (Some (Output s1 c1 t1 n1, Output s2 c2 t2 n2))) data w =
     pslog_tee_write (s1 \<noteq> S_null) (\<lambda>d v. sink_write s1 d v)
                     (s2 \<noteq> S_null) (\<lambda>d v. sink_write s2 d v) data w"
| "sink_write (S_observed i cb None) data w = (length data, 0, w)"
| "sink_write (S_observed i cb (Some (Output s c t n))) data w =
     pslog_observed_write i cb (s \<noteq> S_null) (\<lambda>d v. sink_write s d v) data w"
| "sink_write (S_user u) data w = user_write u data w"

section \<open>Closing and terminal detection\<close>

definition pslog_file_close :: "nat option \<Rightarrow> world \<Rightarrow> int \<times> world" where
  "pslog_file_close fp w =
     (case fp of
        None \<Rightarrow> (0, w)
      | Some f \<Rightarrow>
          (case ask w of
             (Fail n e, w1) \<Rightarrow> (let r = (if e \<noteq> 0 then e else EIO)
                               in (r, log_call (C_close (T_file f) r) w1))
           | (_, w1) \<Rightarrow> (0, log_call (C_close (T_file f) 0) w1)))"

definition pslog_fd_close :: "int option \<Rightarrow> world \<Rightarrow> int \<times> world" where
  "pslog_fd_close fdo w =
     (case fdo of
        None \<Rightarrow> (0, w)
      | Some fd \<Rightarrow>
          (let (r, w1) =
             (if fd \<ge> 0
              then (case ask w of
                      (Fail n e, w1) \<Rightarrow> (let r = (if e \<noteq> 0 then e else -1)
                                        in (r, log_call (C_close (T_fd fd) r) w1))
                    | (_, w1) \<Rightarrow> (0, log_call (C_close (T_fd fd) 0) w1))
              else (0, w))
           in (r, pslog_free_internal True w1)))"

definition user_close :: "nat \<Rightarrow> world \<Rightarrow> int \<times> world" where
  "user_close u w =
     (case ask w of
        (Fail n e, w1) \<Rightarrow> (e, log_call (C_close (T_user u) e) w1)
      | (_, w1) \<Rightarrow> (0, log_call (C_close (T_user u) 0) w1))"

fun sink_close :: "sink \<Rightarrow> world \<Rightarrow> int \<times> world" where
  "sink_close S_null w = (0, w)"
| "sink_close (S_file fp) w = pslog_file_close fp w"
| "sink_close (S_fd a fd) w = pslog_fd_close fd w"
| "sink_close (S_tee a None) w = (0, w)"
| "sink_close (S_tee a (Some (Output s1 c1 t1 n1, Output s2 c2 t2 n2))) w =
     (let (err1, w1) = (if c1 \<and> n1 then sink_close s1 w else (0, w));
          (err2, w2) = (if c2 \<and> n2 then sink_close s2 w1 else (0, w1))
      in (if err1 = 0 then err2 else err1, pslog_free_internal True w2))"
| "sink_close (S_observed i cb None) w = (0, w)"
| "sink_close (S_observed i cb (Some (Output s c t n))) w =
     (if \<not> c \<or> \<not> n then (0, w) else sink_close s w)"
| "sink_close (S_user u) w = user_close u w"

fun sink_isatty :: "sink \<Rightarrow> world \<Rightarrow> bool" where
  "sink_isatty S_null w = False"
| "sink_isatty (S_file fp) w = (case fp of None \<Rightarrow> False | Some f \<Rightarrow> w_isatty w (T_file f))"
| "sink_isatty (S_fd a fdo) w =
     (case fdo of None \<Rightarrow> False | Some fd \<Rightarrow> if fd < 0 then False else w_isatty w (T_fd fd))"
| "sink_isatty (S_tee a None) w = False"
| "sink_isatty (S_tee a (Some (Output s1 c1 t1 n1, Output s2 c2 t2 n2))) w =
     ((t1 \<and> sink_isatty s1 w) \<or> (t2 \<and> sink_isatty s2 w))"
| "sink_isatty (S_observed i cb None) w = False"
| "sink_isatty (S_observed i cb (Some (Output s c t n))) w = (t \<and> sink_isatty s w)"
| "sink_isatty (S_user u) w = w_isatty w (T_user u)"

definition pslog_output_destroy :: "pslog_output \<Rightarrow> world \<Rightarrow> pslog_output \<times> world" where
  "pslog_output_destroy out w =
     (let w' = (if o_close out \<and> o_owned out then snd (sink_close (o_sink out) w) else w)
      in (output_zero, w'))"

section \<open>Constructing and comparing outputs\<close>

definition pslog_output_from_fp :: "nat option \<Rightarrow> bool \<Rightarrow> pslog_output" where
  "pslog_output_from_fp fp close_on_destroy =
     Output (S_file fp) close_on_destroy True close_on_destroy"

definition pslog_observed_output_init ::
  "nat \<Rightarrow> pslog_output option \<Rightarrow> bool \<Rightarrow> world \<Rightarrow> pslog_output \<times> world" where
  "pslog_observed_output_init obs target has_cb w =
     (let tgt = (case target of None \<Rightarrow> output_zero | Some t \<Rightarrow> t);
          w' = w\<lparr>w_observed := (w_observed w)(obs := \<lparr>st_failures = 0, st_short_writes = 0\<rparr>)\<rparr>
      in (Output (S_observed obs has_cb (Some tgt)) True (o_isatty tgt) (o_owned tgt), w'))"

definition pslog_observed_output_stats_get ::
  "nat option \<Rightarrow> world \<Rightarrow> pslog_observed_output_stats" where
  "pslog_observed_output_stats_get obs w =
     (case obs of None \<Rightarrow> \<lparr>st_failures = 0, st_short_writes = 0\<rparr> | Some i \<Rightarrow> w_observed w i)"

text \<open>\<open>write\<close> and \<open>userdata\<close> equal as pointers.\<close>

fun same_sink :: "sink \<Rightarrow> sink \<Rightarrow> bool" where
  "same_sink S_null S_null = True"
| "same_sink (S_file a) (S_file b) = (a = b)"
| "same_sink (S_fd a _) (S_fd b _) = (a = b)"
| "same_sink (S_tee a _) (S_tee b _) = (a = b)"
| "same_sink (S_observed a _ _) (S_observed b _ _) = (a = b)"
| "same_sink (S_user a) (S_user b) = (a = b)"
| "same_sink _ _ = False"

definition pslog_output_equals :: "pslog_output \<Rightarrow> pslog_output \<Rightarrow> bool" where
  "pslog_output_equals lhs rhs =
     (same_sink (o_sink lhs) (o_sink rhs) \<and> o_close lhs = o_close rhs \<and>
      o_isatty lhs = o_isatty rhs \<and> o_owned lhs = o_owned rhs)"

function pslog_output_contains :: "pslog_output \<Rightarrow> pslog_output \<Rightarrow> bool" where
  "pslog_output_contains out candidate =
     (if pslog_output_equals out candidate then True
      else (case o_sink out of
              S_tee a (Some (first, second)) \<Rightarrow>
                pslog_output_contains first candidate \<or> pslog_output_contains second candidate
            | _ \<Rightarrow> False))"
  by pat_completeness auto
termination
proof (relation "measure (\<lambda>(out, candidate). size out)", goal_cases)
  case 1
  show ?case by simp
next
  case (2 out candidate a p first second)
  then show ?case by (cases out) auto
next
  case (3 out candidate a p first second)
  then show ?case by (cases out) auto
qed

definition pslog_output_init_tee ::
  "64 word \<Rightarrow> pslog_output \<Rightarrow> pslog_output \<Rightarrow> world \<Rightarrow> pslog_output option \<times> world" where
  "pslog_output_init_tee addr first second w =
     (let (ok, w1) = pslog_calloc_internal 1 80 w
      in if \<not> ok then (None, w1)
         else (Some (Output (S_tee addr (Some (first, second))) True True
                       (o_owned first \<or> o_owned second)), w1))"

section \<open>The retry loop\<close>

function write_loop :: "write_fn \<Rightarrow> nat \<Rightarrow> string \<Rightarrow> nat \<Rightarrow> world \<Rightarrow> nat \<times> world" where
  "write_loop wr chunk_capacity data offset w =
     (if offset < length data
      then (let rest = length data - offset;
                chunk_len = (if chunk_capacity > 0 \<and> rest > chunk_capacity
                             then chunk_capacity else rest);
                (written0, err, w') = wr (take chunk_len (drop offset data)) w;
                written = min written0 chunk_len;
                offset' = offset + written
            in if err \<noteq> 0 \<or> written = 0 then (offset', w')
               else write_loop wr chunk_capacity data offset' w')
      else (offset, w))"
  by pat_completeness auto
termination
  by (relation "measure (\<lambda>(wr, cap, data, off, w). length data - off)") auto

declare write_loop.simps [simp del]

definition pslog_write_output_locked ::
  "pslog_shared \<Rightarrow> string \<Rightarrow> nat \<Rightarrow> world \<Rightarrow> nat \<times> world" where
  "pslog_write_output_locked sh data chunk_capacity w =
     (if data = [] \<or> s_closed sh \<or> o_sink (s_output sh) = S_null then (0, w)
      else write_loop (sink_write (o_sink (s_output sh))) chunk_capacity data 0 w)"

section \<open>Size arithmetic never wraps\<close>

lemma size_max_eq: "size_max = 18446744073709551615"
  by (simp add: size_max_def)

lemma pslog_size_add_iff:
  "lhs \<le> size_max \<Longrightarrow> rhs \<le> size_max \<Longrightarrow>
     pslog_size_add lhs rhs = (if lhs + rhs \<le> size_max then Some (lhs + rhs) else None)"
  by (auto simp: pslog_size_add_def size_max_eq)

lemma pslog_size_mul_iff:
  assumes "lhs \<le> size_max" "rhs \<le> size_max"
  shows "pslog_size_mul lhs rhs = (if lhs * rhs \<le> size_max then Some (lhs * rhs) else None)"
proof (cases "lhs = 0")
  case True
  then show ?thesis by (simp add: pslog_size_mul_def)
next
  case False
  then have "rhs \<le> size_max div lhs \<longleftrightarrow> lhs * rhs \<le> size_max"
    by (simp add: less_eq_div_iff_mult_less_eq mult.commute)
  with False show ?thesis
    by (auto simp: pslog_size_mul_def size_max_eq)
qed

section \<open>What a sink has accepted\<close>

fun call_accepted :: "target \<Rightarrow> call \<Rightarrow> string" where
  "call_accepted t (C_write t' d n e) = (if t' = t then take n d else [])"
| "call_accepted t (C_close t' e) = []"
| "call_accepted t (C_failure i f) = []"

definition accepted :: "target \<Rightarrow> world \<Rightarrow> string" where
  "accepted t w = concat (map (call_accepted t) (w_log w))"

lemma accepted_log_call [simp]: "accepted t (log_call c w) = accepted t w @ call_accepted t c"
  by (simp add: accepted_def log_call_def)

lemma accepted_tick [simp]: "accepted t (w_tick_update f w) = accepted t w"
  by (simp add: accepted_def)

lemma accepted_observed [simp]: "accepted t (w_observed_update f w) = accepted t w"
  by (simp add: accepted_def)

lemma accepted_frees [simp]: "accepted t (w_frees_update f w) = accepted t w"
  by (simp add: accepted_def)

lemma accepted_allocs [simp]: "accepted t (w_allocs_update f w) = accepted t w"
  by (simp add: accepted_def)

lemma log_call_sel [simp]:
  "w_answer (log_call c w) = w_answer w" "w_tick (log_call c w) = w_tick w"
  "w_alloc_ok (log_call c w) = w_alloc_ok w" "w_allocs (log_call c w) = w_allocs w"
  "w_observed (log_call c w) = w_observed w" "w_log (log_call c w) = w_log w @ [c]"
  by (simp_all add: log_call_def)

text \<open>
  The future answers of the world: only complete writes (\<open>all_accept\<close>), or at least progress
  on every write (\<open>all_progress\<close>).
\<close>

definition all_accept :: "world \<Rightarrow> bool" where
  "all_accept w = (\<forall>k \<ge> w_tick w. w_answer w k = Accept)"

fun makes_progress :: "answer \<Rightarrow> bool" where
  "makes_progress Accept = True"
| "makes_progress (Short n) = (n > 0)"
| "makes_progress (Fail n e) = False"

definition all_progress :: "world \<Rightarrow> bool" where
  "all_progress w = (\<forall>k \<ge> w_tick w. makes_progress (w_answer w k))"

lemma all_accept_log_call [simp]: "all_accept (log_call c w) = all_accept w"
  by (simp add: all_accept_def)

lemma all_progress_log_call [simp]: "all_progress (log_call c w) = all_progress w"
  by (simp add: all_progress_def)

lemma ask_all_accept: "all_accept w \<Longrightarrow> ask w = (Accept, w\<lparr>w_tick := Suc (w_tick w)\<rparr>)"
  by (simp add: ask_def all_accept_def)

lemma all_accept_tick [simp]: "all_accept w \<Longrightarrow> all_accept (w\<lparr>w_tick := Suc (w_tick w)\<rparr>)"
  by (simp add: all_accept_def)

lemma all_progress_tick [simp]: "all_progress w \<Longrightarrow> all_progress (w\<lparr>w_tick := Suc (w_tick w)\<rparr>)"
  by (simp add: all_progress_def)

lemma all_progress_answer: "all_progress w \<Longrightarrow> makes_progress (w_answer w (w_tick w))"
  by (simp add: all_progress_def)

section \<open>The contract of a sink\<close>

definition chunk_len :: "nat \<Rightarrow> nat \<Rightarrow> nat" where
  "chunk_len cap rest = (if cap > 0 \<and> rest > cap then cap else rest)"

lemma chunk_len_bounds: "0 < rest \<Longrightarrow> 0 < chunk_len cap rest \<and> chunk_len cap rest \<le> rest"
  by (simp add: chunk_len_def)

lemma write_loop_step:
  assumes "off < length data"
    and "wr (take (chunk_len cap (length data - off)) (drop off data)) w = (n, e, w1)"
  shows "write_loop wr cap data off w =
    (let m = min n (chunk_len cap (length data - off))
     in if e \<noteq> 0 \<or> m = 0 then (off + m, w1) else write_loop wr cap data (off + m) w1)"
  using assms by (subst write_loop.simps) (simp add: chunk_len_def Let_def)

lemma write_loop_done: "\<not> off < length data \<Longrightarrow> write_loop wr cap data off w = (off, w)"
  by (subst write_loop.simps) simp

lemma take_chunk_slice:
  "m \<le> c \<Longrightarrow> c \<le> length data - off \<Longrightarrow> take m (take c (drop off data)) = slice off (off + m) data"
  by (simp add: slice_def min_def)

text \<open>
  A counted sink accepts exactly the bytes it reports, in every world its \<open>ok\<close> admits, and
  stays in such a world.
\<close>

locale counted_sink =
  fixes wr :: write_fn and acc :: "world \<Rightarrow> string" and ok :: "world \<Rightarrow> bool"
  assumes counted: "ok w \<Longrightarrow> wr d w = (n, e, w') \<Longrightarrow> acc w' = acc w @ take n d \<and> ok w'"
begin

lemma write_loop_prefix:
  "ok w \<Longrightarrow> off \<le> length data \<Longrightarrow> write_loop wr cap data off w = (off', w') \<Longrightarrow>
     off \<le> off' \<and> off' \<le> length data \<and> acc w' = acc w @ slice off off' data \<and> ok w'"
proof (induction "length data - off" arbitrary: off w rule: less_induct)
  case less
  show ?case
  proof (cases "off < length data")
    case False
    with less.prems show ?thesis by (simp add: write_loop_done)
  next
    case True
    define c where "c = chunk_len cap (length data - off)"
    obtain n e w1 where wr: "wr (take c (drop off data)) w = (n, e, w1)"
      by (metis prod_cases3)
    define m where "m = min n c"
    have c: "0 < c" "c \<le> length data - off"
      using True chunk_len_bounds [of "length data - off" cap] by (auto simp: c_def)
    have "take n (take c (drop off data)) = take m (take c (drop off data))"
      by (simp add: m_def min_def)
    then have acc1: "acc w1 = acc w @ slice off (off + m) data" "ok w1"
      using counted [OF less.prems(1) wr] c take_chunk_slice [of m c data off]
      by (simp_all add: m_def)
    have eq: "write_loop wr cap data off w =
        (if e \<noteq> 0 \<or> m = 0 then (off + m, w1) else write_loop wr cap data (off + m) w1)"
      using write_loop_step [where wr = wr, OF True wr [unfolded c_def]] by (simp only: c_def m_def Let_def)
    show ?thesis
    proof (cases "e \<noteq> 0 \<or> m = 0")
      case True
      with less.prems eq acc1 c show ?thesis by (auto simp: m_def)
    next
      case False
      have le: "off + m \<le> length data" using c by (simp add: m_def)
      have "off + m \<le> off' \<and> off' \<le> length data \<and> acc w' = acc w1 @ slice (off + m) off' data \<and> ok w'"
        using less.hyps [of "off + m" w1] less.prems acc1 eq False le True by auto
      with acc1 show ?thesis by (auto simp: slice_append)
    qed
  qed
qed

end

text \<open>A lossless sink also makes progress without error there.\<close>

locale lossless_sink = counted_sink +
  assumes progress: "ok w \<Longrightarrow> d \<noteq> [] \<Longrightarrow> wr d w = (n, e, w') \<Longrightarrow> e = 0 \<and> n > 0"
begin

lemma write_loop_delivers:
  "ok w \<Longrightarrow> off \<le> length data \<Longrightarrow> write_loop wr cap data off w = (off', w') \<Longrightarrow>
     off' = length data"
proof (induction "length data - off" arbitrary: off w rule: less_induct)
  case less
  show ?case
  proof (cases "off < length data")
    case False
    with less.prems show ?thesis by (simp add: write_loop_done)
  next
    case True
    define c where "c = chunk_len cap (length data - off)"
    obtain n e w1 where wr: "wr (take c (drop off data)) w = (n, e, w1)"
      by (metis prod_cases3)
    have c: "0 < c" "c \<le> length data - off"
      using True chunk_len_bounds [of "length data - off" cap] by (auto simp: c_def)
    have "take c (drop off data) \<noteq> []" using c True by simp
    from progress [OF less.prems(1) this wr] counted [OF less.prems(1) wr]
    have p: "e = 0" "n > 0" "ok w1" by auto
    define m where "m = min n c"
    have m: "0 < m" "m \<le> c" using p c by (simp_all add: m_def)
    have "write_loop wr cap data off w = write_loop wr cap data (off + m) w1"
      using write_loop_step [where wr = wr, OF True wr [unfolded c_def]] p m
      by (simp add: c_def [symmetric] m_def [symmetric] Let_def)
    with less.hyps [of "off + m" w1] less.prems p c m True show ?thesis by simp
  qed
qed

lemma write_loop_all:
  assumes "ok w" "write_loop wr cap data 0 w = (off', w')"
  shows "off' = length data \<and> acc w' = acc w @ data \<and> ok w'"
  using write_loop_delivers [OF assms(1) _ assms(2)] write_loop_prefix [OF assms(1) _ assms(2)] by auto

end

text \<open>
  Two lossless sinks that do not touch each other's stream: what a tee promises of them.
\<close>

locale tee_sinks = A: lossless_sink wr1 acc1 ok + B: lossless_sink wr2 acc2 ok
  for wr1 acc1 wr2 acc2 ok +
  assumes frame1: "wr1 d w = (n, e, w') \<Longrightarrow> acc2 w' = acc2 w"
    and frame2: "wr2 d w = (n, e, w') \<Longrightarrow> acc1 w' = acc1 w"
begin

lemma tee_loop_delivers:
  "ok w \<Longrightarrow> f \<le> length data \<Longrightarrow> s \<le> length data \<Longrightarrow>
     tee_loop wr1 wr2 data f s w = (f', s', e1, e2, w') \<Longrightarrow>
     f' = length data \<and> s' = length data \<and> acc1 w' = acc1 w @ drop f data \<and>
     acc2 w' = acc2 w @ drop s data \<and> ok w'"
proof (induction "(length data - f) + (length data - s)" arbitrary: f s w rule: less_induct)
  case less
  show ?case
  proof (cases "f < length data \<or> s < length data")
    case False
    with less.prems show ?thesis by (subst (asm) tee_loop.simps) (simp add: Let_def)
  next
    case True
    obtain n1 d1 w1 where r1: "(if f < length data then wr1 (drop f data) w else (0, 0, w)) = (n1, d1, w1)"
      by (metis prod_cases3)
    obtain n2 d2 w2 where r2: "(if s < length data then wr2 (drop s data) w1 else (0, 0, w1)) = (n2, d2, w2)"
      by (metis prod_cases3)
    define c1 where "c1 = min n1 (length data - f)"
    define c2 where "c2 = min n2 (length data - s)"
    have 1: "ok w1 \<and> acc1 w1 = acc1 w @ slice f (f + c1) data \<and> acc2 w1 = acc2 w \<and>
        (f < length data \<longrightarrow> d1 = 0 \<and> c1 > 0)"
    proof (cases "f < length data")
      case t: True
      then have w: "wr1 (drop f data) w = (n1, d1, w1)" and ne: "drop f data \<noteq> []"
        using r1 by auto
      from A.progress [OF less.prems(1) ne w] A.counted [OF less.prems(1) w] frame1 [OF w] t
      show ?thesis by (auto simp: c1_def slice_def min_def)
    next
      case False
      with r1 less.prems show ?thesis by (auto simp: c1_def)
    qed
    have 2: "ok w2 \<and> acc2 w2 = acc2 w1 @ slice s (s + c2) data \<and> acc1 w2 = acc1 w1 \<and>
        (s < length data \<longrightarrow> d2 = 0 \<and> c2 > 0)"
    proof (cases "s < length data")
      case t: True
      then have w: "wr2 (drop s data) w1 = (n2, d2, w2)" and ne: "drop s data \<noteq> []"
        using r2 by auto
      from B.progress [OF conjunct1 [OF 1] ne w] B.counted [OF conjunct1 [OF 1] w] frame2 [OF w] t
      show ?thesis by (auto simp: c2_def slice_def min_def)
    next
      case False
      with r2 1 show ?thesis by (auto simp: c2_def)
    qed
    have eq: "tee_loop wr1 wr2 data f s w = tee_loop wr1 wr2 data (f + c1) (s + c2) w2"
      using True 1 2 r1 r2
      by (subst tee_loop.simps) (auto simp: c1_def [symmetric] c2_def [symmetric] Let_def)
    have le: "f + c1 \<le> length data" "s + c2 \<le> length data"
      using less.prems by (auto simp: c1_def c2_def)
    have lt: "(length data - (f + c1)) + (length data - (s + c2)) < (length data - f) + (length data - s)"
      using True 1 2 le by auto
    have "f' = length data \<and> s' = length data \<and> acc1 w' = acc1 w2 @ drop (f + c1) data \<and>
        acc2 w' = acc2 w2 @ drop (s + c2) data \<and> ok w'"
      by (rule less.hyps [OF lt]) (use less.prems eq 2 le in auto)
    then show ?thesis
      using 1 2 less.prems by (auto simp: slice_to_end [symmetric] slice_append le)
  qed
qed

lemma tee_write_delivers:
  assumes "ok w" and "pslog_tee_write True wr1 True wr2 data w = (n, e, w')"
  shows "n = length data \<and> e = 0 \<and> acc1 w' = acc1 w @ data \<and> acc2 w' = acc2 w @ data \<and> ok w'"
proof -
  obtain f s e1 e2 v where t: "tee_loop wr1 wr2 data 0 0 w = (f, s, e1, e2, v)"
    by (metis prod_cases5)
  from tee_loop_delivers [OF assms(1) _ _ t] t assms(2) show ?thesis
    by (auto simp: pslog_tee_write_def)
qed

end

sublocale tee_sinks \<subseteq> first: lossless_sink "pslog_tee_write True wr1 True wr2" acc1 ok
proof unfold_locales
  fix w d n e w'
  assume "ok w" "pslog_tee_write True wr1 True wr2 d w = (n, e, w')"
  from tee_write_delivers [OF this] show "acc1 w' = acc1 w @ take n d \<and> ok w'" by simp
next
  fix w d n e w'
  assume "ok w" "d \<noteq> []" "pslog_tee_write True wr1 True wr2 d w = (n, e, w')"
  with tee_write_delivers show "e = 0 \<and> 0 < n" by fastforce
qed

sublocale tee_sinks \<subseteq> second: lossless_sink "pslog_tee_write True wr1 True wr2" acc2 ok
proof unfold_locales
  fix w d n e w'
  assume "ok w" "pslog_tee_write True wr1 True wr2 d w = (n, e, w')"
  from tee_write_delivers [OF this] show "acc2 w' = acc2 w @ take n d \<and> ok w'" by simp
next
  fix w d n e w'
  assume "ok w" "d \<noteq> []" "pslog_tee_write True wr1 True wr2 d w = (n, e, w')"
  with tee_write_delivers show "e = 0 \<and> 0 < n" by fastforce
qed

text \<open>
  An observed sink passes its target's result on; its counters and reports touch neither the
  stream nor the target's promise.
\<close>

locale observed_sink = lossless_sink +
  assumes acc_observed: "acc (w_observed_update g w) = acc w"
    and acc_failure: "acc (log_call (C_failure i x) w) = acc w"
    and ok_observed: "ok (w_observed_update g w) = ok w"
    and ok_failure: "ok (log_call (C_failure i x) w) = ok w"
begin

lemma observed_result:
  "pslog_observed_write i cb True wr d w = (n, e, w') \<Longrightarrow>
     \<exists>v. wr d w = (n, e, v) \<and> acc w' = acc v \<and> ok w' = ok v"
  by (auto simp: pslog_observed_write_def Let_def acc_observed acc_failure ok_observed ok_failure
      split: prod.splits if_splits)

end

sublocale observed_sink \<subseteq> observed: lossless_sink "pslog_observed_write i cb True wr" acc ok for i cb
proof unfold_locales
  fix w d n e w'
  assume "ok w" "pslog_observed_write i cb True wr d w = (n, e, w')"
  with observed_result counted show "acc w' = acc w @ take n d \<and> ok w'" by metis
next
  fix w d n e w'
  assume "ok w" "d \<noteq> []" "pslog_observed_write i cb True wr d w = (n, e, w')"
  with observed_result progress show "e = 0 \<and> 0 < n" by metis
qed

text \<open>
  A sink that is one target of the world: each call is logged under that target with the
  bytes it was offered, or refused before it reaches the world.
\<close>

locale logging_sink =
  fixes wr :: write_fn and t :: target
  assumes logs: "wr d w = (n, e, w') \<Longrightarrow>
    w_log w' = w_log w @ [C_write t d n e] \<or> w_log w' = w_log w \<and> n = 0"
begin

lemma write_loop_chunks:
  "cap > 0 \<Longrightarrow> write_loop wr cap data off w = (off', w') \<Longrightarrow>
     \<exists>cs. w_log w' = w_log w @ cs \<and> (\<forall>c \<in> set cs. \<exists>d n e. c = C_write t d n e \<and> length d \<le> cap)"
proof (induction "length data - off" arbitrary: off w rule: less_induct)
  case less
  show ?case
  proof (cases "off < length data")
    case False
    with less.prems show ?thesis by (simp add: write_loop_done)
  next
    case True
    define c where "c = chunk_len cap (length data - off)"
    obtain n e w1 where wr: "wr (take c (drop off data)) w = (n, e, w1)"
      by (metis prod_cases3)
    define m where "m = min n c"
    have "c \<le> cap" using less.prems(1) by (simp add: c_def chunk_len_def)
    with logs [OF wr] obtain cs where cs: "w_log w1 = w_log w @ cs"
      "\<forall>c \<in> set cs. \<exists>d n e. c = C_write t d n e \<and> length d \<le> cap"
      by force
    have eq: "write_loop wr cap data off w =
        (if e \<noteq> 0 \<or> m = 0 then (off + m, w1) else write_loop wr cap data (off + m) w1)"
      using write_loop_step [where wr = wr, OF True wr [unfolded c_def]]
      by (simp only: c_def m_def Let_def)
    show ?thesis
    proof (cases "e \<noteq> 0 \<or> m = 0")
      case True
      with less.prems eq cs show ?thesis by auto
    next
      case False
      with True have "length data - (off + m) < length data - off" by auto
      moreover have "write_loop wr cap data (off + m) w1 = (off', w')"
        using less.prems(2) eq False by simp
      ultimately obtain cs' where "w_log w' = w_log w1 @ cs'"
          "\<forall>c \<in> set cs'. \<exists>d n e. c = C_write t d n e \<and> length d \<le> cap"
        using less.hyps less.prems(1) by blast
      with cs show ?thesis by (intro exI [where x = "cs @ cs'"]) auto
    qed
  qed
qed

end

sublocale logging_sink \<subseteq> counted_sink wr "accepted t" "\<lambda>_. True"
  by unfold_locales (use logs in \<open>fastforce simp: accepted_def\<close>)

section \<open>The library's sinks keep the contract\<close>


lemma user_write_logs: "user_write u d w = (n, e, w') \<Longrightarrow> w_log w' = w_log w @ [C_write (T_user u) d n e]"
  by (auto simp: user_write_def ask_def split: answer.splits)

lemma pslog_fd_write_logs:
  "pslog_fd_write (Some fd) d w = (n, e, w') \<Longrightarrow>
     w_log w' = w_log w @ [C_write (T_fd fd) d n e] \<or> w_log w' = w_log w \<and> n = 0"
  by (auto simp: pslog_fd_write_def ask_def Let_def split: answer.splits if_splits)

lemma pslog_file_write_logs:
  "pslog_file_write (Some f) d w = (n, e, w') \<Longrightarrow> w_log w' = w_log w @ [C_write (T_file f) d n e]"
  by (auto simp: pslog_file_write_def ask_def Let_def split: prod.splits)

lemma user_write_progress:
  "all_progress w \<Longrightarrow> d \<noteq> [] \<Longrightarrow> user_write u d w = (n, e, w') \<Longrightarrow> e = 0 \<and> n > 0"
  using all_progress_answer [of w] by (auto simp: user_write_def ask_def split: answer.splits)

lemma user_write_keeps_progress:
  "all_progress w \<Longrightarrow> user_write u d w = (n, e, w') \<Longrightarrow> all_progress w'"
  by (auto simp: user_write_def ask_def split: answer.splits)

lemma pslog_fd_write_progress:
  "0 \<le> fd \<Longrightarrow> all_progress w \<Longrightarrow> d \<noteq> [] \<Longrightarrow> pslog_fd_write (Some fd) d w = (n, e, w') \<Longrightarrow>
     e = 0 \<and> n > 0"
  using all_progress_answer [of w]
  by (auto simp: pslog_fd_write_def ask_def Let_def split: answer.splits if_splits)

lemma pslog_fd_write_keeps_progress:
  "all_progress w \<Longrightarrow> pslog_fd_write (Some fd) d w = (n, e, w') \<Longrightarrow> all_progress w'"
  by (auto simp: pslog_fd_write_def ask_def Let_def split: answer.splits if_splits)

lemma pslog_fd_write_accept:
  "0 \<le> fd \<Longrightarrow> all_accept w \<Longrightarrow> pslog_fd_write (Some fd) d w = (n, e, w') \<Longrightarrow>
     e = 0 \<and> n = length d \<and> all_accept w'"
  by (auto simp: pslog_fd_write_def ask_all_accept)

lemma pslog_file_write_accept:
  "all_accept w \<Longrightarrow> pslog_file_write (Some f) d w = (n, e, w') \<Longrightarrow>
     e = 0 \<and> n = length d \<and> all_accept w'"
  by (auto simp: pslog_file_write_def ask_all_accept Let_def all_accept_def ask_def)

interpretation user: logging_sink "user_write u" "T_user u" for u
  by unfold_locales (simp add: user_write_logs)

interpretation fd: logging_sink "pslog_fd_write (Some fd)" "T_fd fd" for fd
  by unfold_locales (rule pslog_fd_write_logs)

interpretation stdio: logging_sink "pslog_file_write (Some f)" "T_file f" for f
  by unfold_locales (simp add: pslog_file_write_logs)

interpretation user_ok: lossless_sink "user_write u" "accepted (T_user u)" all_progress for u
proof unfold_locales
  fix w d n e w'
  assume "all_progress w" "user_write u d w = (n, e, w')"
  then show "accepted (T_user u) w' = accepted (T_user u) w @ take n d \<and> all_progress w'"
    using user.counted user_write_keeps_progress by blast
qed (use user_write_progress in blast)

interpretation fd_ok: lossless_sink "pslog_fd_write (Some fd)" "accepted (T_fd fd)"
    "\<lambda>w. 0 \<le> fd \<and> all_progress w" for fd
proof unfold_locales
  fix w d n e w'
  assume "0 \<le> fd \<and> all_progress w" "pslog_fd_write (Some fd) d w = (n, e, w')"
  then show "accepted (T_fd fd) w' = accepted (T_fd fd) w @ take n d \<and> 0 \<le> fd \<and> all_progress w'"
    using fd.counted pslog_fd_write_keeps_progress by blast
qed (use pslog_fd_write_progress in blast)

interpretation stdio_ok: lossless_sink "pslog_file_write (Some f)" "accepted (T_file f)" all_accept for f
proof unfold_locales
  fix w d n e w'
  assume "all_accept w" "pslog_file_write (Some f) d w = (n, e, w')"
  then show "accepted (T_file f) w' = accepted (T_file f) w @ take n d \<and> all_accept w'"
    using stdio.counted pslog_file_write_accept by blast
qed (use pslog_file_write_accept in fastforce)

lemma all_progress_observed [simp]: "all_progress (w_observed_update g w) = all_progress w"
  by (simp add: all_progress_def)

interpretation observed_fd: observed_sink "pslog_fd_write (Some fd)" "accepted (T_fd fd)"
    "\<lambda>w. 0 \<le> fd \<and> all_progress w" for fd
  by unfold_locales simp_all

text \<open>A terminal stream and an owned descriptor behind one tee: what \<open>OUTPUT=stdout+path\<close> builds.\<close>

interpretation stream_and_path: tee_sinks "pslog_file_write (Some f)" "accepted (T_file f)"
    "pslog_fd_write (Some fd)" "accepted (T_fd fd)" "\<lambda>w. 0 \<le> fd \<and> all_accept w" for f fd
proof unfold_locales
  fix d w n e w'
  assume a: "0 \<le> fd \<and> all_accept w" and r: "pslog_file_write (Some f) d w = (n, e, w')"
  then show "accepted (T_file f) w' = accepted (T_file f) w @ take n d \<and> 0 \<le> fd \<and> all_accept w'"
    using stdio_ok.counted by blast
  assume "d \<noteq> []"
  with a r show "e = 0 \<and> 0 < n" using stdio_ok.progress by blast
next
  fix d w n e w'
  assume a: "0 \<le> fd \<and> all_accept w" and r: "pslog_fd_write (Some fd) d w = (n, e, w')"
  then show "accepted (T_fd fd) w' = accepted (T_fd fd) w @ take n d \<and> 0 \<le> fd \<and> all_accept w'"
    using fd.counted pslog_fd_write_accept by blast
  assume "d \<noteq> []"
  with a r show "e = 0 \<and> 0 < n" using pslog_fd_write_accept by fastforce
next
  fix d w n e w'
  assume "pslog_file_write (Some f) d w = (n, e, w')"
  from pslog_file_write_logs [OF this] show "accepted (T_fd fd) w' = accepted (T_fd fd) w"
    by (simp add: accepted_def)
next
  fix d w n e w'
  assume "pslog_fd_write (Some fd) d w = (n, e, w')"
  from pslog_fd_write_logs [OF this] show "accepted (T_file f) w' = accepted (T_file f) w"
    by (auto simp: accepted_def)
qed

section \<open>Concrete states for the examples\<close>

definition demo_world :: "(nat \<Rightarrow> answer) \<Rightarrow> world" where
  "demo_world ans = \<lparr>w_answer = ans, w_tick = 0, w_log = [], w_alloc_ok = (\<lambda>_. True), w_allocs = 0,
     w_frees = 0, w_isatty = (\<lambda>_. False), w_observed = (\<lambda>_. \<lparr>st_failures = 0, st_short_writes = 0\<rparr>)\<rparr>"

definition demo_shared :: "sink \<Rightarrow> pslog_shared" where
  "demo_shared snk = \<lparr>s_state_mutex = mutex_init, s_output_mutex = mutex_init,
     s_output = Output snk True True True, s_closed = False, s_close_err = 0, s_refcount = 1,
     s_cached_timestamp_second = 0, s_cached_timestamp = [], s_timestamp_cache_hits = 0,
     s_timestamp_cache_misses = 0, s_kvfmt_cache = (\<lambda>_. None), s_kvfmt_ptr_cache = None,
     s_console_prefix_cache = (\<lambda>_. None), s_double_cache = (\<lambda>_. None)\<rparr>"

lemma user_write_tick: "w_tick (snd (snd (user_write u d w))) = Suc (w_tick w)"
  by (simp add: user_write_def ask_def log_call_def split: answer.split)

lemma write_loop_ticks:
  "w_tick (snd (write_loop (user_write u) cap data off w)) \<le> w_tick w + (length data - off)"
proof (induction "length data - off" arbitrary: off w rule: less_induct)
  case less
  show ?case
  proof (cases "off < length data")
    case True
    define chunk where "chunk = (if cap > 0 \<and> length data - off > cap then cap else length data - off)"
    obtain n e w' where k: "user_write u (take chunk (drop off data)) w = (n, e, w')" by (metis prod_cases3)
    have t: "w_tick w' = Suc (w_tick w)" using user_write_tick [of u "take chunk (drop off data)" w] by (simp add: k)
    define m where "m = min n chunk"
    have eq: "write_loop (user_write u) cap data off w = (if e \<noteq> 0 \<or> m = 0 then (off + m, w') else write_loop (user_write u) cap data (off + m) w')"
      unfolding write_loop.simps [of "user_write u" cap data off w] using True by (auto simp: Let_def chunk_def [symmetric] k m_def [symmetric])
    show ?thesis
    proof (cases "e \<noteq> 0 \<or> m = 0")
      case stop: True
      then show ?thesis using eq t True by auto
    next
      case False
      have "w_tick (snd (write_loop (user_write u) cap data (off + m) w')) \<le> w_tick w' + (length data - (off + m))"
        by (rule less) (use False True in auto)
      with False eq t True show ?thesis by auto
    qed
  next
    case False
    then show ?thesis by (subst write_loop.simps) simp
  qed
qed

section \<open>Properties\<close>

text \<open>
  Claim C22. On an open logger whose output is a descriptor, \<open>pslog_write_output_locked\<close> hands over
  every byte, once and in order, however the system splits the writes, as long as every \<open>write\<close>
  makes some progress.
\<close>

theorem fd_write_output_delivers:
  assumes "0 \<le> fd" "all_progress w" "\<not> s_closed sh" "o_sink (s_output sh) = S_fd a (Some fd)"
    and "pslog_write_output_locked sh data cap w = (n, w')"
  shows "n = length data \<and> accepted (T_fd fd) w' = accepted (T_fd fd) w @ data"
proof (cases "data = []")
  case True
  with assms show ?thesis by (simp add: pslog_write_output_locked_def)
next
  case False
  have eq: "sink_write (S_fd a (Some fd)) = pslog_fd_write (Some fd)" by (simp add: fun_eq_iff)
  with False assms have "write_loop (pslog_fd_write (Some fd)) cap data 0 w = (n, w')"
    by (simp add: pslog_write_output_locked_def)
  from fd_ok.write_loop_all [OF _ this] assms show ?thesis by simp
qed

text \<open>Three calls: two short ones of two bytes, the last complete.\<close>

lemma fd_write_output_delivers_witness:
  "fst (pslog_write_output_locked (demo_shared (S_fd 64 (Some 3))) ''hello'' 4
     (demo_world (\<lambda>k. if k < 2 then Short 2 else Accept))) = 5 \<and>
   accepted (T_fd 3) (snd (pslog_write_output_locked (demo_shared (S_fd 64 (Some 3))) ''hello'' 4
     (demo_world (\<lambda>k. if k < 2 then Short 2 else Accept)))) = ''hello''"
  using fd_write_output_delivers [of 3 "demo_world (\<lambda>k. if k < 2 then Short 2 else Accept)"
      "demo_shared (S_fd 64 (Some 3))" 64 "''hello''" 4, OF _ _ _ _ prod.collapse [symmetric]]
  by (simp add: all_progress_def demo_world_def demo_shared_def accepted_def)

text \<open>
  Claim C23. Whatever an application's write callback answers (short counts, errors, counts larger
  than what it was given), the offset the retry loop reports is the number of bytes it has taken
  from the line: the callback has accepted exactly that prefix.
\<close>

theorem user_write_output_prefix:
  assumes "\<not> s_closed sh" "o_sink (s_output sh) = S_user u"
    and "pslog_write_output_locked sh data cap w = (n, w')"
  shows "n \<le> length data \<and> accepted (T_user u) w' = accepted (T_user u) w @ take n data"
proof (cases "data = []")
  case True
  with assms show ?thesis by (simp add: pslog_write_output_locked_def)
next
  case False
  have eq: "sink_write (S_user u) = user_write u" by (simp add: fun_eq_iff)
  with False assms have "write_loop (user_write u) cap data 0 w = (n, w')"
    by (simp add: pslog_write_output_locked_def)
  from user.write_loop_prefix [OF _ _ this] show ?thesis by (simp add: slice_def)
qed

lemma user_write_output_prefix_witness:
  "accepted (T_user 7) (snd (pslog_write_output_locked (demo_shared (S_user 7)) ''abcdef'' 3
     (demo_world (\<lambda>k. if k = 0 then Short 9 else Fail 1 5)))) = ''abcd''"
  using user_write_output_prefix [of "demo_shared (S_user 7)" 7 "''abcdef''" 3
      "demo_world (\<lambda>k. if k = 0 then Short 9 else Fail 1 5)", OF _ _ prod.collapse [symmetric]]
  by (simp add: demo_world_def demo_shared_def accepted_def pslog_write_output_locked_def
      write_loop.simps user_write_def ask_def Let_def)

text \<open>
  Claim C24. No write callback is ever given more than \<open>line_buffer_capacity\<close> bytes in one call:
  every call the retry loop makes on an application sink is for at most \<open>chunk_capacity\<close> bytes.
\<close>

theorem user_write_output_chunks:
  assumes "0 < cap" "o_sink (s_output sh) = S_user u"
    and "pslog_write_output_locked sh data cap w = (n, w')"
  shows "\<exists>cs. w_log w' = w_log w @ cs \<and>
    (\<forall>c \<in> set cs. \<exists>d k e. c = C_write (T_user u) d k e \<and> length d \<le> cap)"
proof (cases "data = [] \<or> s_closed sh")
  case True
  with assms show ?thesis by (auto simp: pslog_write_output_locked_def)
next
  case False
  have eq: "sink_write (S_user u) = user_write u" by (simp add: fun_eq_iff)
  with False assms have "write_loop (user_write u) cap data 0 w = (n, w')"
    by (simp add: pslog_write_output_locked_def)
  from user.write_loop_chunks [OF assms(1) this] show ?thesis .
qed

lemma user_write_output_chunks_witness:
  "\<exists>cs. w_log (snd (pslog_write_output_locked (demo_shared (S_user 7)) ''abcdef'' 4 (demo_world (\<lambda>_. Accept)))) = cs \<and>
    (\<forall>c \<in> set cs. \<exists>d k e. c = C_write (T_user 7) d k e \<and> length d \<le> 4)"
  using user_write_output_chunks [of 4 "demo_shared (S_user 7)" 7 "''abcdef''"
      "demo_world (\<lambda>_. Accept)", OF _ _ prod.collapse [symmetric]]
  by (simp add: demo_world_def demo_shared_def)





text \<open>
  Claim C27. The checked size arithmetic is exact: for \<open>size_t\<close> operands \<open>pslog_size_mul\<close> returns the
  product if it fits in a \<open>size_t\<close> and fails otherwise, so no allocation size ever wraps.
\<close>

theorem size_mul_exact:
  assumes "lhs < 2 ^ 64" "rhs < 2 ^ 64"
  shows "pslog_size_mul lhs rhs = (if lhs * rhs < 2 ^ 64 then Some (lhs * rhs) else None)"
  using pslog_size_mul_iff [of lhs rhs] assms by (simp add: size_max_eq less_Suc_eq_le [symmetric])

lemma size_mul_exact_witness:
  "pslog_size_mul (2 ^ 33) (2 ^ 33) = None \<and> pslog_size_mul (2 ^ 31) (2 ^ 32) = Some (2 ^ 63)"
  using size_mul_exact [of "2 ^ 33" "2 ^ 33"] size_mul_exact [of "2 ^ 31" "2 ^ 32"] by simp

text \<open>
  Claim C39. Writing a line always ends: whatever an application's callback answers, zero bytes, too many,
  errors or one byte at a time, \<open>pslog_write_output_locked\<close> calls it at most once per byte and returns.
\<close>

theorem write_output_terminates:
  assumes "o_sink (s_output sh) = S_user u"
  shows "\<exists>n w'. pslog_write_output_locked sh data cap w = (n, w') \<and> w_tick w' \<le> w_tick w + length data"
proof -
  have s: "sink_write (S_user u) = user_write u" by (intro ext) simp
  have "w_tick (snd (pslog_write_output_locked sh data cap w)) \<le> w_tick w + length data"
    using write_loop_ticks [of u cap data 0 w] assms by (simp add: pslog_write_output_locked_def s)
  then show ?thesis by (metis prod.collapse)
qed

lemma write_output_terminates_witness:
  "\<exists>n w'. pslog_write_output_locked (demo_shared (S_user 7)) ''abcdef'' 3 (demo_world (\<lambda>_. Short 1)) = (n, w') \<and> w_tick w' \<le> 6"
proof -
  have "o_sink (s_output (demo_shared (S_user 7))) = S_user 7" by (simp add: demo_shared_def)
  from write_output_terminates [OF this, of "''abcdef''" 3 "demo_world (\<lambda>_. Short 1)"]
  obtain n w' where "pslog_write_output_locked (demo_shared (S_user 7)) ''abcdef'' 3 (demo_world (\<lambda>_. Short 1)) = (n, w')"
    "w_tick w' \<le> w_tick (demo_world (\<lambda>_. Short 1)) + length ''abcdef''" by blast
  then show ?thesis by (simp add: demo_world_def)
qed

end
