(* ===== verification/Buffer.thy ===== *)
theory Buffer
  imports Outputs
begin

text \<open>
  The line buffer of \<open>src/pslog.c\<close> and the append macros of \<open>src/pslog_internal.h\<close>.

  A buffer with a shared state flushes to the sink when it is full and takes the output
  lock for the rest of its line; a buffer without one grows. The refinement target is
  \<open>appends\<close>, a fold of single bytes: every append routine of the library is that fold, so an
  emission routine is known by the bytes it appends.
\<close>

section \<open>Output and state locks\<close>

definition pslog_output_lock :: "pslog_shared \<Rightarrow> pslog_shared" where
  "pslog_output_lock sh = sh\<lparr>s_output_mutex := pslog_mutex_lock (s_output_mutex sh)\<rparr>"

definition pslog_output_unlock :: "pslog_shared \<Rightarrow> pslog_shared" where
  "pslog_output_unlock sh = sh\<lparr>s_output_mutex := pslog_mutex_unlock (s_output_mutex sh)\<rparr>"

definition pslog_state_lock :: "pslog_shared \<Rightarrow> pslog_shared" where
  "pslog_state_lock sh = sh\<lparr>s_state_mutex := pslog_mutex_lock (s_state_mutex sh)\<rparr>"

definition pslog_state_unlock :: "pslog_shared \<Rightarrow> pslog_shared" where
  "pslog_state_unlock sh = sh\<lparr>s_state_mutex := pslog_mutex_unlock (s_state_mutex sh)\<rparr>"

section \<open>Operations\<close>

definition inline_size :: nat where
  "inline_size = default_line_buffer_capacity + 1"

text \<open>\<open>memcpy(data + len, text, n); len += n; data[len] = 0\<close>, and \<open>len = 0; data[0] = 0\<close>.\<close>

definition put_bytes :: "string \<Rightarrow> pslog_buffer \<Rightarrow> pslog_buffer" where
  "put_bytes text b = b\<lparr>b_data := b_data b @ text,
     b_oob := b_oob b \<or> \<not> length (b_data b @ text) < b_alloc b\<rparr>"

definition clear_buffer :: "pslog_buffer \<Rightarrow> pslog_buffer" where
  "clear_buffer b = b\<lparr>b_data := [], b_oob := b_oob b \<or> \<not> 0 < b_alloc b\<rparr>"

definition size_sub :: "nat \<Rightarrow> nat \<Rightarrow> nat" where
  "size_sub a b = (if b \<le> a then a - b else 2 ^ 64 + a - b)"

definition pslog_buffer_init :: "bool \<Rightarrow> nat \<Rightarrow> world \<Rightarrow> pslog_buffer \<times> world" where
  "pslog_buffer_init has_shared capacity w =
     (let normalized = (case pslog_normalize_line_buffer_capacity capacity of
                          None \<Rightarrow> default_line_buffer_capacity | Some n \<Rightarrow> n);
          inline = \<lparr>b_shared = has_shared, b_null = False, b_data = [], b_alloc = inline_size,
                    b_capacity = normalized, b_chunk_capacity = normalized,
                    b_output_locked = False, b_heap_owned = False, b_oob = False\<rparr>;
          fallback = inline\<lparr>b_capacity := inline_size - 1,
                            b_chunk_capacity := default_line_buffer_capacity\<rparr>
      in if normalized \<ge> inline_size
         then (case pslog_size_add normalized 1 of
                 None \<Rightarrow> (clear_buffer fallback, w)
               | Some alloc_size \<Rightarrow>
                   (let (ok, w1) = pslog_malloc_internal alloc_size w
                    in if ok
                       then (clear_buffer (inline\<lparr>b_alloc := alloc_size, b_heap_owned := True\<rparr>), w1)
                       else (clear_buffer fallback, w1)))
         else (clear_buffer inline, w))"

text \<open>The doubling loop of \<open>pslog_buffer_reserve\<close>.\<close>

function grow_capacity :: "nat \<Rightarrow> nat \<Rightarrow> nat" where
  "grow_capacity new_capacity min_capacity =
     (if new_capacity < min_capacity \<and> new_capacity \<noteq> 0
      then (if new_capacity > size_max div 2 then min_capacity
            else grow_capacity (new_capacity * 2) min_capacity)
      else new_capacity)"
  by pat_completeness auto
termination
  by (relation "measure (\<lambda>(n, m). m - n)") auto

declare grow_capacity.simps [simp del]

definition pslog_buffer_reserve :: "nat \<Rightarrow> pslog_buffer \<Rightarrow> world \<Rightarrow> bool \<times> pslog_buffer \<times> world" where
  "pslog_buffer_reserve min_capacity b w =
     (if min_capacity > size_max - 1 \<or> b_capacity b > size_max - 1 then (False, b, w)
      else if min_capacity \<le> b_capacity b then (True, b, w)
      else
        (let new_capacity =
               grow_capacity (if b_capacity b \<noteq> 0 then b_capacity b else 1) min_capacity
         in if b_heap_owned b
            then (case pslog_size_add new_capacity 1 of
                    None \<Rightarrow> (False, b, w)
                  | Some alloc_size \<Rightarrow>
                      (let (ok, w1) = pslog_realloc_internal alloc_size w
                       in if \<not> ok then (False, b, w1)
                          else (True, b\<lparr>b_null := False, b_alloc := alloc_size,
                                        b_capacity := new_capacity\<rparr>, w1)))
            else (case pslog_size_add new_capacity 1 of
                    None \<Rightarrow> (False, b, w)
                  | Some alloc_size \<Rightarrow>
                      (let (ok, w1) = pslog_malloc_internal alloc_size w
                       in if \<not> ok then (False, b, w1)
                          else (True, b\<lparr>b_null := False, b_alloc := alloc_size,
                                        b_oob := b_oob b \<or> \<not> length (b_data b) < alloc_size,
                                        b_heap_owned := True, b_capacity := new_capacity\<rparr>, w1)))))"

definition pslog_buffer_destroy :: "pslog_buffer \<Rightarrow> world \<Rightarrow> pslog_buffer \<times> world" where
  "pslog_buffer_destroy b w =
     (let w1 = (if b_heap_owned b \<and> \<not> b_null b then pslog_free_internal True w else w)
      in (\<lparr>b_shared = False, b_null = False, b_data = [], b_alloc = inline_size,
           b_capacity = inline_size, b_chunk_capacity = default_line_buffer_capacity,
           b_output_locked = False, b_heap_owned = False, b_oob = b_oob b\<rparr>, w1))"

definition pslog_buffer_destroy_fast :: "pslog_buffer \<Rightarrow> world \<Rightarrow> pslog_buffer \<times> world" where
  "pslog_buffer_destroy_fast b w =
     (let w1 = (if b_heap_owned b \<and> \<not> b_null b then pslog_free_internal True w else w)
      in (b\<lparr>b_shared := False, b_null := True, b_data := [], b_alloc := 0, b_capacity := 0,
            b_heap_owned := False\<rparr>, w1))"

definition pslog_write_buffer :: "bool \<Rightarrow> est \<Rightarrow> est" where
  "pslog_write_buffer has_shared s =
     (if b_data (e_buf s) = [] then s
      else if \<not> has_shared
        then s\<lparr>e_buf := (if \<not> b_null (e_buf s) then clear_buffer (e_buf s)
                         else (e_buf s)\<lparr>b_data := []\<rparr>)\<rparr>
      else
        (let b = e_buf s;
             sh1 = (if \<not> b_output_locked b then pslog_output_lock (e_shared s) else e_shared s);
             (n, w1) = pslog_write_output_locked sh1 (b_data b) (b_chunk_capacity b) (e_world s)
         in \<lparr>e_buf = clear_buffer (b\<lparr>b_output_locked := False\<rparr>),
             e_shared = pslog_output_unlock sh1, e_world = w1\<rparr>))"

definition pslog_buffer_flush :: "est \<Rightarrow> est" where
  "pslog_buffer_flush s =
     (let b = e_buf s in
      if b_data b = [] then s
      else if \<not> b_shared b
        then (let (r, b1, w1) = pslog_buffer_reserve
                    (if b_capacity b \<noteq> 0 then b_capacity b * 2 mod 2 ^ 64 else 1) b (e_world s)
              in s\<lparr>e_buf := b1, e_world := w1\<rparr>)
      else if o_sink (s_output (e_shared s)) = S_null
        then s\<lparr>e_buf := (if \<not> b_null b then clear_buffer b else b\<lparr>b_data := []\<rparr>)\<rparr>
      else
        (let sh1 = (if \<not> b_output_locked b then pslog_output_lock (e_shared s) else e_shared s);
             b1 = (if \<not> b_output_locked b then b\<lparr>b_output_locked := True\<rparr> else b)
         in if s_closed sh1 \<or> o_sink (s_output sh1) = S_null
            then s\<lparr>e_buf := clear_buffer (b1\<lparr>b_output_locked := False\<rparr>),
                   e_shared := pslog_output_unlock sh1\<rparr>
            else (let (n, w1) = pslog_write_output_locked sh1 (b_data b1)
                                  (b_chunk_capacity b1) (e_world s)
                  in \<lparr>e_buf = clear_buffer b1, e_shared = sh1, e_world = w1\<rparr>)))"

definition pslog_buffer_lock_output :: "est \<Rightarrow> est" where
  "pslog_buffer_lock_output s =
     (if \<not> b_shared (e_buf s) \<or> b_output_locked (e_buf s) then s
      else s\<lparr>e_shared := pslog_output_lock (e_shared s),
             e_buf := (e_buf s)\<lparr>b_output_locked := True\<rparr>\<rparr>)"

definition pslog_buffer_unlock_output :: "est \<Rightarrow> est" where
  "pslog_buffer_unlock_output s =
     (if \<not> b_shared (e_buf s) \<or> \<not> b_output_locked (e_buf s) then s
      else s\<lparr>e_shared := pslog_output_unlock (e_shared s),
             e_buf := (e_buf s)\<lparr>b_output_locked := False\<rparr>\<rparr>)"

abbreviation (input) blen :: "est \<Rightarrow> nat" where
  "blen s \<equiv> length (b_data (e_buf s))"

abbreviation (input) bcap :: "est \<Rightarrow> nat" where
  "bcap s \<equiv> b_capacity (e_buf s)"

definition pslog_buffer_append_char :: "char \<Rightarrow> est \<Rightarrow> est" where
  "pslog_buffer_append_char ch s =
     (if b_null (e_buf s) \<or> bcap s = 0 then s
      else if blen s = bcap s
        then (let s1 = pslog_buffer_flush s
              in if b_null (e_buf s1) \<or> bcap s1 = 0 \<or> blen s1 = bcap s1 then s1
                 else s1\<lparr>e_buf := put_bytes [ch] (e_buf s1)\<rparr>)
      else s\<lparr>e_buf := put_bytes [ch] (e_buf s)\<rparr>)"

text \<open>
  The loop of \<open>pslog_buffer_append_n\<close>. Its \<open>available == 0\<close> branch would start over with
  the same state; it is dead code, since \<open>len\<close> and \<open>capacity\<close> were just seen to differ.
\<close>

function append_n_loop :: "string \<Rightarrow> est \<Rightarrow> est" where
  "append_n_loop text s =
     (if text = [] then s
      else
        (let full = (blen s = bcap s);
             s1 = (if full then pslog_buffer_flush s else s)
         in if full \<and> (b_null (e_buf s1) \<or> bcap s1 = 0 \<or> blen s1 = bcap s1) then s1
            else
              (let available = size_sub (bcap s1) (blen s1);
                   chunk = min (length text) available
               in if available = 0 then s1
                  else append_n_loop (drop chunk text)
                         (s1\<lparr>e_buf := put_bytes (take chunk text) (e_buf s1)\<rparr>))))"
  by pat_completeness auto
termination
  by (relation "measure (\<lambda>(text, s). length text)") auto

declare append_n_loop.simps [simp del]

text \<open>\<open>text\<close> is the \<open>len\<close> bytes at the pointer; a NULL pointer is the empty list.\<close>

definition pslog_buffer_append_n :: "string \<Rightarrow> est \<Rightarrow> est" where
  "pslog_buffer_append_n text s =
     (if b_null (e_buf s) \<or> bcap s = 0 \<or> text = [] then s else append_n_loop text s)"

definition pslog_buffer_append_cstr :: "cstring option \<Rightarrow> est \<Rightarrow> est" where
  "pslog_buffer_append_cstr text s =
     (case text of None \<Rightarrow> s | Some t \<Rightarrow> pslog_buffer_append_n t s)"

definition append_char_fast :: "char \<Rightarrow> est \<Rightarrow> est" where
  "append_char_fast ch s =
     (if \<not> b_null (e_buf s) \<and> bcap s \<noteq> 0
      then (let s1 = (if blen s = bcap s then pslog_buffer_flush s else s)
            in if \<not> b_null (e_buf s1) \<and> blen s1 < bcap s1
               then s1\<lparr>e_buf := put_bytes [ch] (e_buf s1)\<rparr> else s1)
      else s)"

definition append_n_fast :: "string \<Rightarrow> est \<Rightarrow> est" where
  "append_n_fast text s =
     (if \<not> b_null (e_buf s) \<and> bcap s \<noteq> 0 \<and> text \<noteq> []
      then (if size_sub (bcap s) (blen s) \<ge> length text
            then s\<lparr>e_buf := put_bytes text (e_buf s)\<rparr>
            else pslog_buffer_append_n text s)
      else s)"

definition apply_color_fast :: "cstring \<Rightarrow> bool \<Rightarrow> est \<Rightarrow> est" where
  "apply_color_fast color_code enabled s =
     (if enabled \<and> color_code \<noteq> [] then append_n_fast color_code s else s)"

definition append_literal :: "cstring \<Rightarrow> est \<Rightarrow> est" where
  "append_literal literal s = append_n_fast literal s"

definition append_json_trusted_string_n_fast :: "string \<Rightarrow> est \<Rightarrow> est" where
  "append_json_trusted_string_n_fast text s =
     append_char_fast (CHR 0x22) (append_n_fast text (append_char_fast (CHR 0x22) s))"

section \<open>Every append is a fold of single bytes\<close>

definition appends :: "string \<Rightarrow> est \<Rightarrow> est" where
  "appends txs s = fold pslog_buffer_append_char txs s"

definition all_alloc :: "world \<Rightarrow> bool" where
  "all_alloc w = (\<forall>k \<ge> w_allocs w. w_alloc_ok w k)"

text \<open>
  A buffer in use: it has a block and room, and it either flushes to a shared state or may
  count on the allocator.
\<close>

definition ready :: "est \<Rightarrow> bool" where
  "ready s = (\<not> b_null (e_buf s) \<and> 0 < b_capacity (e_buf s) \<and>
     length (b_data (e_buf s)) \<le> b_capacity (e_buf s) \<and>
     (b_shared (e_buf s) \<or> all_alloc (e_world s)))"

lemma appends_Nil [simp]: "appends [] s = s"
  by (simp add: appends_def)

lemma appends_Cons: "appends (c # txs) s = appends txs (pslog_buffer_append_char c s)"
  by (simp add: appends_def)

lemma appends_append [simp]: "appends b (appends a s) = appends (a @ b) s"
  by (simp add: appends_def)

lemma put_bytes_sel [simp]:
  "b_data (put_bytes t b) = b_data b @ t" "b_capacity (put_bytes t b) = b_capacity b"
  "b_null (put_bytes t b) = b_null b" "b_shared (put_bytes t b) = b_shared b"
  "b_alloc (put_bytes t b) = b_alloc b" "b_chunk_capacity (put_bytes t b) = b_chunk_capacity b"
  "b_output_locked (put_bytes t b) = b_output_locked b"
  "b_heap_owned (put_bytes t b) = b_heap_owned b"
  "b_oob (put_bytes t b) = (b_oob b \<or> \<not> length (b_data b @ t) < b_alloc b)"
  by (simp_all add: put_bytes_def)

lemma clear_buffer_sel [simp]:
  "b_data (clear_buffer b) = []" "b_capacity (clear_buffer b) = b_capacity b"
  "b_null (clear_buffer b) = b_null b" "b_shared (clear_buffer b) = b_shared b"
  "b_alloc (clear_buffer b) = b_alloc b" "b_chunk_capacity (clear_buffer b) = b_chunk_capacity b"
  "b_output_locked (clear_buffer b) = b_output_locked b"
  "b_heap_owned (clear_buffer b) = b_heap_owned b"
  "b_oob (clear_buffer b) = (b_oob b \<or> \<not> 0 < b_alloc b)"
  by (simp_all add: clear_buffer_def)

lemma put_bytes_put_bytes: "put_bytes b (put_bytes a x) = put_bytes (a @ b) x"
  by (rule pslog_buffer.equality) auto

lemma grow_capacity_ge: "0 < n \<Longrightarrow> m \<le> grow_capacity n m \<and> n \<le> grow_capacity n m"
proof (induction n m rule: grow_capacity.induct)
  case (1 n m)
  then show ?case by (subst (1 2) grow_capacity.simps) fastforce
qed

lemma grow_capacity_le: "0 < n \<Longrightarrow> n \<le> size_max - 1 \<Longrightarrow> m \<le> size_max - 1 \<Longrightarrow> grow_capacity n m \<le> size_max - 1"
proof (induction n m rule: grow_capacity.induct)
  case (1 n m)
  show ?case
  proof (cases "n < m \<and> \<not> n > size_max div 2")
    case True
    then have "n * 2 \<le> size_max - 1" by (simp add: size_max_eq)
    with 1 True show ?thesis by (subst grow_capacity.simps) simp
  next
    case False
    with 1 show ?thesis by (subst grow_capacity.simps) auto
  qed
qed

text \<open>
  Growing either succeeds, with the contents kept and the new capacity inside the new block,
  or changes nothing but the allocator's count.
\<close>

lemma pslog_buffer_reserve_cases:
  assumes "pslog_buffer_reserve m b w = (r, b', w')" "0 < b_capacity b"
  obtains (kept) "b' = b" "all_alloc w \<Longrightarrow> w' = w" "b_capacity b < m \<and> m \<le> size_max - 1 \<and> b_capacity b \<le> size_max - 1 \<Longrightarrow> \<not> r \<and> \<not> all_alloc w"
  | (grown) "r" "b_capacity b < m" "m \<le> b_capacity b'" "b_alloc b' = b_capacity b' + 1" "\<not> b_null b'"
      "b_data b' = b_data b" "b_shared b' = b_shared b" "b_chunk_capacity b' = b_chunk_capacity b"
      "b_output_locked b' = b_output_locked b" "b_heap_owned b'"
      "b_oob b' = (b_oob b \<or> (\<not> b_heap_owned b \<and> \<not> length (b_data b) < b_alloc b'))"
      "w' = w\<lparr>w_allocs := Suc (w_allocs w)\<rparr>"
proof (cases "m > size_max - 1 \<or> b_capacity b > size_max - 1 \<or> m \<le> b_capacity b")
  case True
  with assms show ?thesis
    by (intro kept) (auto simp: pslog_buffer_reserve_def split: if_splits)
next
  case False
  define n where "n = grow_capacity (b_capacity b) m"
  have n: "m \<le> n" "n \<le> size_max - 1"
    using grow_capacity_ge [OF assms(2), of m] grow_capacity_le [OF assms(2), of m] False
    by (auto simp: n_def)
  then have "pslog_size_add n 1 = Some (n + 1)"
    by (simp add: pslog_size_add_iff size_max_eq)
  then have eq: "pslog_buffer_reserve m b w =
      (if \<not> w_alloc_ok w (w_allocs w) then (False, b, w\<lparr>w_allocs := Suc (w_allocs w)\<rparr>)
       else if b_heap_owned b
       then (True, b\<lparr>b_null := False, b_alloc := n + 1, b_capacity := n\<rparr>, w\<lparr>w_allocs := Suc (w_allocs w)\<rparr>)
       else (True, b\<lparr>b_null := False, b_alloc := n + 1, b_oob := b_oob b \<or> \<not> length (b_data b) < n + 1,
                     b_heap_owned := True, b_capacity := n\<rparr>, w\<lparr>w_allocs := Suc (w_allocs w)\<rparr>))"
    using False assms(2)
    by (simp add: pslog_buffer_reserve_def pslog_realloc_internal_def pslog_malloc_internal_def
        n_def Let_def)
  show ?thesis
  proof (cases "w_alloc_ok w (w_allocs w)")
    case True
    with assms(1) eq n False show ?thesis by (intro grown) (auto split: if_splits)
  next
    case False
    with assms(1) eq show ?thesis by (intro kept) (auto simp: all_alloc_def)
  qed
qed

lemma output_lock_sel [simp]:
  "s_output (pslog_output_lock sh) = s_output sh" "s_closed (pslog_output_lock sh) = s_closed sh"
  "s_output (pslog_output_unlock sh) = s_output sh" "s_closed (pslog_output_unlock sh) = s_closed sh"
  by (simp_all add: pslog_output_lock_def pslog_output_unlock_def)

lemma flush_shared:
  assumes "b_shared (e_buf s)" "b_data (e_buf s) \<noteq> []"
  shows "b_data (e_buf (pslog_buffer_flush s)) = []"
    and "b_capacity (e_buf (pslog_buffer_flush s)) = b_capacity (e_buf s)"
    and "b_null (e_buf (pslog_buffer_flush s)) = b_null (e_buf s)"
    and "b_shared (e_buf (pslog_buffer_flush s)) = b_shared (e_buf s)"
    and "b_alloc (e_buf (pslog_buffer_flush s)) = b_alloc (e_buf s)"
    and "b_chunk_capacity (e_buf (pslog_buffer_flush s)) = b_chunk_capacity (e_buf s)"
    and "0 < b_alloc (e_buf s) \<Longrightarrow> b_oob (e_buf (pslog_buffer_flush s)) = b_oob (e_buf s)"
  using assms by (auto simp: pslog_buffer_flush_def Let_def split: prod.splits)

lemma flush_unshared:
  assumes "\<not> b_shared (e_buf s)" "b_data (e_buf s) \<noteq> []" "0 < b_capacity (e_buf s)"
  obtains (kept) "e_buf (pslog_buffer_flush s) = e_buf s" "all_alloc (e_world s) \<Longrightarrow> pslog_buffer_flush s = s"
  | (grown) b' where "pslog_buffer_flush s = s\<lparr>e_buf := b', e_world := (e_world s)\<lparr>w_allocs := Suc (w_allocs (e_world s))\<rparr>\<rparr>"
      "b_capacity (e_buf s) < b_capacity b'" "b_alloc b' = b_capacity b' + 1" "\<not> b_null b'"
      "b_data b' = b_data (e_buf s)" "\<not> b_shared b'"
      "b_oob b' = (b_oob (e_buf s) \<or> (\<not> b_heap_owned (e_buf s) \<and> \<not> length (b_data b') < b_alloc b'))"
proof -
  define m where "m = (if b_capacity (e_buf s) \<noteq> 0 then b_capacity (e_buf s) * 2 mod 2 ^ 64 else 1)"
  obtain r b' w' where r: "pslog_buffer_reserve m (e_buf s) (e_world s) = (r, b', w')"
    by (metis prod_cases3)
  have eq: "pslog_buffer_flush s = s\<lparr>e_buf := b', e_world := w'\<rparr>"
    using assms r by (simp add: pslog_buffer_flush_def m_def)
  from r assms(3) show ?thesis
  proof (cases rule: pslog_buffer_reserve_cases)
    case kept
    with eq show ?thesis by (intro that(1)) auto
  next
    case grown
    with eq assms(1) show ?thesis by (intro that(2) [of b']) auto
  qed
qed

text \<open>A flush of a full buffer makes room, or is stuck and then changes nothing.\<close>

lemma ready_flush:
  assumes "ready s" "b_data (e_buf s) \<noteq> []"
  shows "ready (pslog_buffer_flush s)"
proof (cases "b_shared (e_buf s)")
  case True
  with assms flush_shared [OF True assms(2)] show ?thesis by (simp add: ready_def)
next
  case False
  with assms have "0 < b_capacity (e_buf s)" by (simp add: ready_def)
  from False assms(2) this show ?thesis
  proof (cases rule: flush_unshared)
    case kept
    with assms False show ?thesis by (simp add: ready_def)
  next
    case (grown b')
    with assms False show ?thesis by (auto simp: ready_def all_alloc_def)
  qed
qed

lemma flush_stuck:
  assumes "ready s" "b_data (e_buf s) \<noteq> []"
    and "length (b_data (e_buf (pslog_buffer_flush s))) = b_capacity (e_buf (pslog_buffer_flush s))"
  shows "pslog_buffer_flush s = s"
proof (cases "b_shared (e_buf s)")
  case True
  with assms flush_shared [OF True assms(2)] show ?thesis by (simp add: ready_def)
next
  case False
  with assms have pos: "0 < b_capacity (e_buf s)" by (simp add: ready_def)
  from False assms(2) pos show ?thesis
  proof (cases rule: flush_unshared)
    case kept
    with assms False show ?thesis by (simp add: ready_def)
  next
    case (grown b')
    with assms False show ?thesis by (auto simp: ready_def)
  qed
qed

lemma full_nonempty: "ready s \<Longrightarrow> blen s = bcap s \<Longrightarrow> b_data (e_buf s) \<noteq> []"
  by (auto simp: ready_def)

lemma ready_put: "ready s \<Longrightarrow> blen s + length t \<le> bcap s \<Longrightarrow> ready (s\<lparr>e_buf := put_bytes t (e_buf s)\<rparr>)"
  by (simp add: ready_def)

lemma ready_append_char [wf_intros]:
  assumes "ready s"
  shows "ready (pslog_buffer_append_char c s)"
proof (cases "blen s = bcap s")
  case True
  define s1 where "s1 = pslog_buffer_flush s"
  have "ready s1" using ready_flush [OF assms full_nonempty [OF assms True]] by (simp add: s1_def)
  moreover from this have "blen s1 \<noteq> bcap s1 \<Longrightarrow> blen s1 + length [c] \<le> bcap s1"
    by (simp add: ready_def)
  ultimately show ?thesis
    using assms True ready_put [of s1 "[c]"]
    by (auto simp: pslog_buffer_append_char_def Let_def s1_def [symmetric])
next
  case False
  with assms have "blen s + length [c] \<le> bcap s" by (simp add: ready_def)
  with assms False ready_put [of s "[c]"] show ?thesis
    by (simp add: pslog_buffer_append_char_def)
qed

lemma ready_appends [simp, wf_intros]: "ready s \<Longrightarrow> ready (appends txs s)"
  by (induction txs arbitrary: s) (simp_all add: appends_Cons ready_append_char)

lemma append_char_fits:
  "ready s \<Longrightarrow> blen s < bcap s \<Longrightarrow>
     pslog_buffer_append_char c s = s\<lparr>e_buf := put_bytes [c] (e_buf s)\<rparr>"
  by (simp add: pslog_buffer_append_char_def ready_def)

lemma appends_fits:
  "ready s \<Longrightarrow> txs \<noteq> [] \<Longrightarrow> blen s + length txs \<le> bcap s \<Longrightarrow>
     appends txs s = s\<lparr>e_buf := put_bytes txs (e_buf s)\<rparr>"
proof (induction txs arbitrary: s)
  case (Cons c txs)
  let ?s1 = "s\<lparr>e_buf := put_bytes [c] (e_buf s)\<rparr>"
  have s1: "pslog_buffer_append_char c s = ?s1" "ready ?s1"
    using Cons.prems ready_put [of s "[c]"] by (simp_all add: append_char_fits)
  show ?case
  proof (cases "txs = []")
    case True
    with s1 show ?thesis by (simp add: appends_Cons)
  next
    case False
    with Cons.IH [OF s1(2) False] Cons.prems show ?thesis
      by (simp add: appends_Cons s1(1) put_bytes_put_bytes)
  qed
qed simp

lemma append_char_stuck:
  "ready s \<Longrightarrow> blen s = bcap s \<Longrightarrow> pslog_buffer_flush s = s \<Longrightarrow> pslog_buffer_append_char c s = s"
  by (simp add: pslog_buffer_append_char_def Let_def)

lemma appends_stuck:
  "ready s \<Longrightarrow> blen s = bcap s \<Longrightarrow> pslog_buffer_flush s = s \<Longrightarrow> appends txs s = s"
  by (induction txs) (simp_all add: appends_Cons append_char_stuck)

lemma append_char_flushed:
  assumes "ready s" "blen s = bcap s" "pslog_buffer_flush s \<noteq> s"
  shows "ready (pslog_buffer_flush s)"
    and "blen (pslog_buffer_flush s) < bcap (pslog_buffer_flush s)"
    and "pslog_buffer_append_char c s = pslog_buffer_append_char c (pslog_buffer_flush s)"
proof -
  have ne: "b_data (e_buf s) \<noteq> []" using assms full_nonempty by blast
  show r: "ready (pslog_buffer_flush s)" using ready_flush assms(1) ne by blast
  show lt: "blen (pslog_buffer_flush s) < bcap (pslog_buffer_flush s)"
    using flush_stuck [OF assms(1) ne] assms(3) r by (fastforce simp: ready_def)
  show "pslog_buffer_append_char c s = pslog_buffer_append_char c (pslog_buffer_flush s)"
    using assms r lt by (auto simp: pslog_buffer_append_char_def Let_def ready_def)
qed

lemma appends_flushed:
  "ready s \<Longrightarrow> blen s = bcap s \<Longrightarrow> pslog_buffer_flush s \<noteq> s \<Longrightarrow> txs \<noteq> [] \<Longrightarrow>
     appends txs s = appends txs (pslog_buffer_flush s)"
  by (cases txs) (simp_all add: appends_Cons append_char_flushed(3) [symmetric])

lemma append_char_appends [emit_simps]: "pslog_buffer_append_char c s = appends [c] s"
  by (simp add: appends_def)

lemma size_sub_ready: "ready s \<Longrightarrow> size_sub (bcap s) (blen s) = bcap s - blen s"
  by (simp add: size_sub_def ready_def)

lemma append_n_loop_appends: "ready s \<Longrightarrow> append_n_loop t s = appends t s"
proof (induction "length t" arbitrary: t s rule: less_induct)
  case less
  have step: "append_n_loop t u = appends t u"
    if t: "t \<noteq> []" and u: "ready u" "blen u < bcap u" for u
  proof -
    define k where "k = min (length t) (bcap u - blen u)"
    let ?u = "u\<lparr>e_buf := put_bytes (take k t) (e_buf u)\<rparr>"
    have k: "0 < k" "k \<le> length t" "blen u + length (take k t) \<le> bcap u"
      using t u by (auto simp: k_def)
    have ne: "take k t \<noteq> []" using k t by auto
    have "append_n_loop t u = append_n_loop (drop k t) ?u"
      using t u size_sub_ready [OF u(1)]
      by (subst append_n_loop.simps) (simp add: Let_def k_def)
    also have "\<dots> = appends (drop k t) ?u"
      using less.hyps [of "drop k t" ?u] ready_put [OF u(1) k(3)] k by simp
    also have "?u = appends (take k t) u"
      using appends_fits [OF u(1) ne k(3)] by simp
    finally show ?thesis by simp
  qed
  show ?case
  proof (cases "t = [] \<or> blen s < bcap s")
    case True
    with step less.prems show ?thesis by (cases "t = []") (simp_all add: append_n_loop.simps)
  next
    case False
    with less.prems have full: "blen s = bcap s" by (simp add: ready_def)
    show ?thesis
    proof (cases "pslog_buffer_flush s = s")
      case True
      with False full less.prems show ?thesis
        by (subst append_n_loop.simps) (simp add: Let_def appends_stuck)
    next
      case ne: False
      note fl = append_char_flushed(1,2) [OF less.prems full ne]
      have "append_n_loop t s = append_n_loop t (pslog_buffer_flush s)"
        using False full fl by (subst (1 2) append_n_loop.simps) (simp add: Let_def ready_def)
      with step [of "pslog_buffer_flush s"] fl False full ne less.prems
      show ?thesis by (simp add: appends_flushed)
    qed
  qed
qed

lemma append_n_appends [emit_simps]: "ready s \<Longrightarrow> pslog_buffer_append_n t s = appends t s"
  by (auto simp: pslog_buffer_append_n_def append_n_loop_appends ready_def)

lemma append_cstr_appends [emit_simps]:
  "ready s \<Longrightarrow> pslog_buffer_append_cstr t s = appends (case t of None \<Rightarrow> [] | Some x \<Rightarrow> x) s"
  by (simp add: pslog_buffer_append_cstr_def append_n_appends split: option.splits)

lemma append_char_fast_appends [emit_simps]:
  assumes "ready s"
  shows "append_char_fast c s = appends [c] s"
proof (cases "blen s = bcap s")
  case True
  note r = ready_flush [OF assms full_nonempty [OF assms True]]
  with assms True show ?thesis
    by (auto simp: append_char_fast_def Let_def appends_def pslog_buffer_append_char_def ready_def)
next
  case False
  with assms show ?thesis
    by (simp add: append_char_fast_def appends_def pslog_buffer_append_char_def ready_def)
qed

lemma append_n_fast_appends [emit_simps]:
  assumes "ready s"
  shows "append_n_fast t s = appends t s"
proof (cases "t \<noteq> [] \<and> size_sub (bcap s) (blen s) \<ge> length t")
  case True
  with assms have "blen s + length t \<le> bcap s" by (auto simp: size_sub_ready ready_def)
  with True assms show ?thesis by (simp add: append_n_fast_def appends_fits ready_def)
next
  case False
  with assms show ?thesis by (auto simp: append_n_fast_def append_n_appends ready_def)
qed

lemma apply_color_fast_appends [emit_simps]:
  "ready s \<Longrightarrow> apply_color_fast c enabled s = appends (if enabled then c else []) s"
  by (simp add: apply_color_fast_def append_n_fast_appends)

lemma append_literal_appends [emit_simps]: "ready s \<Longrightarrow> append_literal t s = appends t s"
  by (simp add: append_literal_def append_n_fast_appends)

lemma append_json_trusted_appends [emit_simps]:
  "ready s \<Longrightarrow> append_json_trusted_string_n_fast t s = appends (CHR 0x22 # t @ [CHR 0x22]) s"
  by (simp add: append_json_trusted_string_n_fast_def append_n_fast_appends append_char_fast_appends)

section \<open>Memory safety\<close>

text \<open>
  The block holds \<open>capacity\<close> bytes and the terminating NUL, and nothing was ever written
  outside it. No hypothesis on sinks or on the allocator is needed.
\<close>

definition buffer_wf :: "pslog_buffer \<Rightarrow> bool" where
  "buffer_wf b = (\<not> b_null b \<and> 0 < b_capacity b \<and> length (b_data b) \<le> b_capacity b \<and>
     b_capacity b < b_alloc b \<and> \<not> b_oob b)"

lemma buffer_init_wf: "buffer_wf (fst (pslog_buffer_init h c w))"
proof -
  have "pslog_size_add n 1 = Some m \<Longrightarrow> n < m \<and> 0 < m" for n m
    by (auto simp: pslog_size_add_def size_max_eq split: if_splits)
  then show ?thesis
    by (auto simp: pslog_buffer_init_def Let_def buffer_wf_def inline_size_def
        default_line_buffer_capacity_def pslog_normalize_line_buffer_capacity_def
        split: option.splits prod.splits if_splits)
qed

lemma flush_wf:
  assumes "buffer_wf (e_buf s)"
  shows "buffer_wf (e_buf (pslog_buffer_flush s))"
proof (cases "b_data (e_buf s) = []")
  case True
  with assms show ?thesis by (simp add: pslog_buffer_flush_def Let_def)
next
  case ne: False
  show ?thesis
  proof (cases "b_shared (e_buf s)")
    case True
    with assms ne show ?thesis by (auto simp: buffer_wf_def flush_shared)
  next
    case False
    with assms have "0 < b_capacity (e_buf s)" by (simp add: buffer_wf_def)
    from False ne this show ?thesis
      by (cases rule: flush_unshared) (use assms in \<open>auto simp: buffer_wf_def\<close>)
  qed
qed

lemma append_char_wf: "buffer_wf (e_buf s) \<Longrightarrow> buffer_wf (e_buf (pslog_buffer_append_char c s))"
  using flush_wf [of s]
  by (auto simp: pslog_buffer_append_char_def Let_def buffer_wf_def)

lemma appends_wf [wf_intros]: "buffer_wf (e_buf s) \<Longrightarrow> buffer_wf (e_buf (appends t s))"
  by (induction t arbitrary: s) (simp_all add: appends_Cons append_char_wf)

lemma write_buffer_wf: "buffer_wf (e_buf s) \<Longrightarrow> buffer_wf (e_buf (pslog_write_buffer h s))"
  by (auto simp: pslog_write_buffer_def buffer_wf_def Let_def split: prod.splits)

lemma append_n_loop_wf: "buffer_wf (e_buf s) \<Longrightarrow> buffer_wf (e_buf (append_n_loop t s))"
proof (induction t s rule: append_n_loop.induct)
  case (1 t s)
  define s1 where "s1 = (if blen s = bcap s then pslog_buffer_flush s else s)"
  define k where "k = min (length t) (size_sub (bcap s1) (blen s1))"
  have s1: "buffer_wf (e_buf s1)" using 1(2) flush_wf by (simp add: s1_def)
  then have av: "size_sub (bcap s1) (blen s1) = bcap s1 - blen s1"
    by (simp add: buffer_wf_def size_sub_def)
  have put: "buffer_wf (put_bytes (take k t) (e_buf s1))"
    using s1 av by (auto simp: buffer_wf_def k_def)
  show ?case
  proof (cases "t = [] \<or> blen s = bcap s \<and> (b_null (e_buf s1) \<or> bcap s1 = 0 \<or> blen s1 = bcap s1)
      \<or> size_sub (bcap s1) (blen s1) = 0")
    case True
    with 1(2) s1 show ?thesis
      by (subst append_n_loop.simps) (auto simp: Let_def s1_def)
  next
    case False
    then have "append_n_loop t s = append_n_loop (drop k t) (s1\<lparr>e_buf := put_bytes (take k t) (e_buf s1)\<rparr>)"
      by (subst append_n_loop.simps) (auto simp: Let_def s1_def k_def)
    with False 1(1) [OF _ refl s1_def _ refl k_def] put show ?thesis by auto
  qed
qed

lemma append_n_wf [wf_intros]: "buffer_wf (e_buf s) \<Longrightarrow> buffer_wf (e_buf (pslog_buffer_append_n t s))"
  by (simp add: pslog_buffer_append_n_def append_n_loop_wf)

lemma append_char_fast_wf [wf_intros]: "buffer_wf (e_buf s) \<Longrightarrow> buffer_wf (e_buf (append_char_fast c s))"
  using flush_wf [of s] by (auto simp: append_char_fast_def Let_def buffer_wf_def)

lemma append_n_fast_wf [wf_intros]: "buffer_wf (e_buf s) \<Longrightarrow> buffer_wf (e_buf (append_n_fast t s))"
  using append_n_wf [of s t]
  by (auto simp: append_n_fast_def buffer_wf_def size_sub_def)

section \<open>What an append leaves alone\<close>

text \<open>
  A change of the state that the append routines neither see nor make: they can be swapped.
\<close>

locale append_frame =
  fixes F :: "est \<Rightarrow> est"
  assumes frame_buf: "e_buf (F s) = e_buf s"
    and frame_put: "F (s\<lparr>e_buf := b\<rparr>) = (F s)\<lparr>e_buf := b\<rparr>"
    and frame_flush: "pslog_buffer_flush (F s) = F (pslog_buffer_flush s)"
begin

lemma append_char_commutes: "pslog_buffer_append_char c (F s) = F (pslog_buffer_append_char c s)"
  by (simp add: pslog_buffer_append_char_def frame_buf frame_put frame_flush Let_def)

lemma appends_commutes: "appends t (F s) = F (appends t s)"
  by (induction t arbitrary: s) (simp_all add: appends_Cons append_char_commutes)

end

lemma write_output_lock [simp]: "pslog_write_output_locked (pslog_output_lock sh) = pslog_write_output_locked sh"
  by (intro ext) (simp add: pslog_write_output_locked_def)

text \<open>A change of the shared state that spares the output, its lock and the closed flag.\<close>

locale cache_change =
  fixes g :: "pslog_shared \<Rightarrow> pslog_shared"
  assumes keeps_output: "s_output (g sh) = s_output sh"
    and keeps_closed: "s_closed (g sh) = s_closed sh"
    and keeps_mutex: "s_output_mutex (g sh) = s_output_mutex sh"
    and mutex_commutes: "g (s_output_mutex_update h sh) = s_output_mutex_update h (g sh)"
begin

lemma write_output_unchanged: "pslog_write_output_locked (g sh) = pslog_write_output_locked sh"
  by (intro ext) (simp add: pslog_write_output_locked_def keeps_output keeps_closed)

lemma locks_commute:
  "pslog_output_lock (g sh) = g (pslog_output_lock sh)"
  "pslog_output_unlock (g sh) = g (pslog_output_unlock sh)"
  by (simp_all add: pslog_output_lock_def pslog_output_unlock_def keeps_mutex mutex_commutes)

end

sublocale cache_change \<subseteq> append_frame "e_shared_update g"
proof unfold_locales
  fix s
  show "pslog_buffer_flush (e_shared_update g s) = e_shared_update g (pslog_buffer_flush s)"
  proof -
    let ?b = "e_buf s" and ?sh = "e_shared s"
    show ?thesis
      unfolding pslog_buffer_flush_def Let_def
      by (cases "b_data ?b = []"; cases "b_shared ?b"; cases "o_sink (s_output ?sh) = S_null";
          cases "b_output_locked ?b"; cases "s_closed ?sh")
        (simp_all add: case_prod_beta keeps_output keeps_closed locks_commute write_output_unchanged
          write_output_lock)
  qed
qed simp_all

interpretation double_cache: cache_change "s_double_cache_update f" for f
  by unfold_locales simp_all

interpretation prefix_cache: cache_change "s_console_prefix_cache_update f" for f
  by unfold_locales simp_all

section \<open>Locking\<close>

text \<open>The output lock is held exactly when the buffer says so, and was never misused.\<close>

definition lock_wf :: "est \<Rightarrow> bool" where
  "lock_wf s = (b_shared (e_buf s) \<and> m_held (s_output_mutex (e_shared s)) = b_output_locked (e_buf s) \<and>
     \<not> m_fault (s_output_mutex (e_shared s)))"

lemma mutex_sel [simp]:
  "s_output_mutex (pslog_output_lock sh) = pslog_mutex_lock (s_output_mutex sh)"
  "s_output_mutex (pslog_output_unlock sh) = pslog_mutex_unlock (s_output_mutex sh)"
  by (simp_all add: pslog_output_lock_def pslog_output_unlock_def)

lemma flush_lock_wf: "lock_wf s \<Longrightarrow> lock_wf (pslog_buffer_flush s)"
  by (auto simp: lock_wf_def pslog_buffer_flush_def Let_def split: prod.splits)

lemma append_char_lock_wf: "lock_wf s \<Longrightarrow> lock_wf (pslog_buffer_append_char c s)"
  using flush_lock_wf [of s] by (auto simp: pslog_buffer_append_char_def Let_def lock_wf_def)

lemma appends_lock_wf [wf_intros]: "lock_wf s \<Longrightarrow> lock_wf (appends t s)"
  by (induction t arbitrary: s) (simp_all add: appends_Cons append_char_lock_wf)

lemma lock_output_wf [wf_intros]: "lock_wf s \<Longrightarrow> lock_wf (pslog_buffer_lock_output s)"
  by (auto simp: lock_wf_def pslog_buffer_lock_output_def)

lemma write_buffer_unlocks:
  "lock_wf s \<Longrightarrow> b_data (e_buf s) \<noteq> [] \<Longrightarrow> mutex_ok (s_output_mutex (e_shared (pslog_write_buffer True s)))"
  by (auto simp: lock_wf_def pslog_write_buffer_def Let_def mutex_ok_def split: prod.splits)

text \<open>With a shared state every byte finds room.\<close>

lemma append_char_shared:
  assumes "ready s" "b_shared (e_buf s)"
  obtains u where "u = (if blen s = bcap s then pslog_buffer_flush s else s)"
    "pslog_buffer_append_char c s = u\<lparr>e_buf := put_bytes [c] (e_buf u)\<rparr>" "b_shared (e_buf u)"
    "b_chunk_capacity (e_buf u) = b_chunk_capacity (e_buf s)"
proof (cases "blen s = bcap s")
  case True
  note f = flush_shared [OF assms(2) full_nonempty [OF assms(1) True]]
  with True assms show ?thesis
    by (intro that [of "pslog_buffer_flush s"]) (auto simp: pslog_buffer_append_char_def Let_def ready_def)
next
  case False
  with assms show ?thesis
    by (intro that [of s]) (auto simp: pslog_buffer_append_char_def ready_def)
qed

lemma append_char_nonempty:
  assumes "ready s" "b_shared (e_buf s)"
  shows "b_data (e_buf (pslog_buffer_append_char c s)) \<noteq> []"
  by (rule append_char_shared [OF assms, of c]) simp

lemma append_char_b_shared:
  assumes "ready s" "b_shared (e_buf s)"
  shows "b_shared (e_buf (pslog_buffer_append_char c s))"
  by (rule append_char_shared [OF assms, of c]) simp

lemma appends_b_shared [simp]: "ready s \<Longrightarrow> b_shared (e_buf s) \<Longrightarrow> b_shared (e_buf (appends t s))"
  by (induction t arbitrary: s) (simp_all add: appends_Cons append_char_b_shared ready_append_char)

lemma appends_nonempty:
  "ready s \<Longrightarrow> b_shared (e_buf s) \<Longrightarrow> b_data (e_buf (appends (t @ [c]) s)) \<noteq> []"
  by (simp add: append_char_nonempty appends_append [symmetric] append_char_appends [symmetric]
      del: appends_append)

section \<open>Nothing is lost\<close>

text \<open>
  A buffer whose shared state is open and whose sink is \<open>snk\<close>, in a world that \<open>snk\<close>'s
  promise covers.
\<close>

definition online :: "sink \<Rightarrow> (world \<Rightarrow> bool) \<Rightarrow> est \<Rightarrow> bool" where
  "online snk ok s = (ready s \<and> b_shared (e_buf s) \<and> \<not> s_closed (e_shared s) \<and> snk \<noteq> S_null \<and>
     o_sink (s_output (e_shared s)) = snk \<and> ok (e_world s))"

locale line_sink = lossless_sink "sink_write snk" acc ok for snk acc ok
begin

lemma write_output_delivers:
  assumes "ok w" "\<not> s_closed sh" "o_sink (s_output sh) = snk" "snk \<noteq> S_null"
    and "pslog_write_output_locked sh data cap w = (n, w')"
  shows "acc w' = acc w @ data \<and> ok w'"
proof (cases "data = []")
  case True
  with assms show ?thesis by (simp add: pslog_write_output_locked_def)
next
  case False
  with assms have "write_loop (sink_write snk) cap data 0 w = (n, w')"
    by (simp add: pslog_write_output_locked_def)
  from write_loop_all [OF assms(1) this] show ?thesis by simp
qed

lemma flush_delivers:
  assumes "online snk ok s"
  shows "acc (e_world (pslog_buffer_flush s)) @ b_data (e_buf (pslog_buffer_flush s)) =
      acc (e_world s) @ b_data (e_buf s)"
    and "ok (e_world (pslog_buffer_flush s))"
    and "\<not> s_closed (e_shared (pslog_buffer_flush s))"
    and "s_output (e_shared (pslog_buffer_flush s)) = s_output (e_shared s)"
proof -
  note o = assms [unfolded online_def]
  obtain n v where w: "pslog_write_output_locked (e_shared s) (b_data (e_buf s))
      (b_chunk_capacity (e_buf s)) (e_world s) = (n, v)" by fastforce
  note d = write_output_delivers [OF _ _ _ _ w]
  show "acc (e_world (pslog_buffer_flush s)) @ b_data (e_buf (pslog_buffer_flush s)) =
      acc (e_world s) @ b_data (e_buf s)"
    and "ok (e_world (pslog_buffer_flush s))"
    and "\<not> s_closed (e_shared (pslog_buffer_flush s))"
    and "s_output (e_shared (pslog_buffer_flush s)) = s_output (e_shared s)"
    using o w d by (simp_all add: pslog_buffer_flush_def Let_def)
qed

lemma append_char_delivers:
  assumes "online snk ok s"
  shows "online snk ok (pslog_buffer_append_char c s) \<and>
    acc (e_world (pslog_buffer_append_char c s)) @ b_data (e_buf (pslog_buffer_append_char c s)) =
      acc (e_world s) @ b_data (e_buf s) @ [c]"
proof -
  have s: "ready s" "b_shared (e_buf s)" using assms by (simp_all add: online_def)
  obtain u where u: "u = (if blen s = bcap s then pslog_buffer_flush s else s)"
    "pslog_buffer_append_char c s = u\<lparr>e_buf := put_bytes [c] (e_buf u)\<rparr>" "b_shared (e_buf u)"
    by (rule append_char_shared [OF s, of c])
  have "acc (e_world u) @ b_data (e_buf u) = acc (e_world s) @ b_data (e_buf s)" "ok (e_world u)"
    "\<not> s_closed (e_shared u)" "s_output (e_shared u) = s_output (e_shared s)"
    using flush_delivers [OF assms] assms u(1) by (auto simp: online_def)
  with u(2,3) ready_append_char [OF s(1), of c] assms show ?thesis by (simp add: online_def)
qed

lemma appends_delivers:
  "online snk ok s \<Longrightarrow> online snk ok (appends t s) \<and>
    acc (e_world (appends t s)) @ b_data (e_buf (appends t s)) = acc (e_world s) @ b_data (e_buf s) @ t"
proof (induction t arbitrary: s)
  case (Cons c t)
  with append_char_delivers [OF Cons.prems, of c] Cons.IH [of "pslog_buffer_append_char c s"]
  show ?case by (simp add: appends_Cons)
qed simp

lemma write_buffer_delivers:
  assumes "online snk ok s"
  shows "acc (e_world (pslog_write_buffer True s)) = acc (e_world s) @ b_data (e_buf s)"
    and "ok (e_world (pslog_write_buffer True s))"
proof -
  note o = assms [unfolded online_def]
  obtain n v where w: "pslog_write_output_locked (e_shared s) (b_data (e_buf s))
      (b_chunk_capacity (e_buf s)) (e_world s) = (n, v)" by fastforce
  note d = write_output_delivers [OF _ _ _ _ w]
  show "acc (e_world (pslog_write_buffer True s)) = acc (e_world s) @ b_data (e_buf s)"
    and "ok (e_world (pslog_write_buffer True s))"
    using o w d by (simp_all add: pslog_write_buffer_def Let_def)
qed

lemma line_delivers:
  assumes "online snk ok s" "b_data (e_buf s) = []"
  shows "acc (e_world (pslog_write_buffer True (appends t s))) = acc (e_world s) @ t"
    and "ok (e_world (pslog_write_buffer True (appends t s)))"
  using appends_delivers [OF assms(1), of t] write_buffer_delivers [of "appends t s"] assms(2)
  by simp_all

end

lemma sink_write_eqs:
  "sink_write (S_user u) = user_write u" "sink_write (S_fd a fdo) = pslog_fd_write fdo"
  "sink_write (S_file fp) = pslog_file_write fp"
  "sink_write (S_observed i cb (Some (Output s c t n))) = pslog_observed_write i cb (s \<noteq> S_null) (sink_write s)"
  "sink_write (S_tee a (Some (Output s1 c1 t1 n1, Output s2 c2 t2 n2))) =
     pslog_tee_write (s1 \<noteq> S_null) (sink_write s1) (s2 \<noteq> S_null) (sink_write s2)"
  by (simp_all add: fun_eq_iff)

interpretation line_user: line_sink "S_user u" "accepted (T_user u)" all_progress for u
  unfolding line_sink_def sink_write_eqs by unfold_locales

interpretation line_fd: line_sink "S_fd a (Some fd)" "accepted (T_fd fd)"
    "\<lambda>w. 0 \<le> fd \<and> all_progress w" for a fd
  unfolding line_sink_def sink_write_eqs by unfold_locales

interpretation line_stdio: line_sink "S_file (Some f)" "accepted (T_file f)" all_accept for f
  unfolding line_sink_def sink_write_eqs by unfold_locales

interpretation line_observed: line_sink "S_observed i cb (Some (Output (S_fd a (Some fd)) c t n))"
    "accepted (T_fd fd)" "\<lambda>w. 0 \<le> fd \<and> all_progress w" for i cb a fd c t n
  unfolding line_sink_def sink_write_eqs
  using observed_fd.observed.lossless_sink_axioms by simp

interpretation line_tee: line_sink
    "S_tee a (Some (Output (S_file (Some f)) c1 t1 n1, Output (S_fd b (Some fd)) c2 t2 n2))"
    "accepted (T_fd fd)" "\<lambda>w. 0 \<le> fd \<and> all_accept w" for a f c1 t1 n1 b fd c2 t2 n2
  unfolding line_sink_def sink_write_eqs
  using stream_and_path.second.lossless_sink_axioms by simp

section \<open>Concrete states for the examples\<close>

text \<open>A buffer of \<open>cap\<close> bytes for one line on the sink \<open>snk\<close>, before its first byte.\<close>

definition demo_est :: "sink \<Rightarrow> nat \<Rightarrow> (nat \<Rightarrow> answer) \<Rightarrow> est" where
  "demo_est snk cap ans =
     (let (b, w) = pslog_buffer_init True cap (demo_world ans)
      in \<lparr>e_buf = b, e_shared = demo_shared snk, e_world = w\<rparr>)"

lemmas demo_eqs = demo_est_def demo_world_def demo_shared_def pslog_buffer_init_def
  pslog_normalize_line_buffer_capacity_def default_line_buffer_capacity_def inline_size_def
  clear_buffer_def size_max_eq mutex_init_def

section \<open>Properties\<close>



text \<open>
  Claim C21. The chunked append and the two append macros are the byte-at-a-time append: on any
  buffer in use they lead to the same state as appending the bytes of the text one by one, also
  when the text is longer than the buffer and is flushed on the way, so a line does not depend on
  how the encoders cut it into pieces.
\<close>

theorem append_n_is_fold:
  assumes "ready s"
  shows "pslog_buffer_append_n t s = fold pslog_buffer_append_char t s \<and>
    append_n_fast t s = fold pslog_buffer_append_char t s \<and>
    append_char_fast c s = pslog_buffer_append_char c s"
  using assms by (simp add: append_n_appends append_n_fast_appends append_char_fast_appends appends_def)

lemma append_n_is_fold_witness:
  "append_n_fast ''abcdef'' (demo_est (S_user 1) 4 (\<lambda>_. Accept)) =
     fold pslog_buffer_append_char ''abcdef'' (demo_est (S_user 1) 4 (\<lambda>_. Accept))"
  using append_n_is_fold [of "demo_est (S_user 1) 4 (\<lambda>_. Accept)" "''abcdef''"]
  by (simp add: demo_eqs ready_def)

text \<open>
  Claim C7. A line reaches its sink whole: from a fresh buffer on an open logger, appending any
  bytes and writing the buffer leaves the descriptor with exactly those bytes added, whatever the
  line buffer capacity and however the writes are split, and it leaves the output lock free and
  never misused.
\<close>

theorem line_reaches_descriptor:
  assumes "0 \<le> fd" "online (S_fd a (Some fd)) all_progress s" "b_data (e_buf s) = []" "lock_wf s" "t \<noteq> []"
  shows "accepted (T_fd fd) (e_world (pslog_write_buffer True (appends t s))) =
      accepted (T_fd fd) (e_world s) @ t \<and>
    mutex_ok (s_output_mutex (e_shared (pslog_write_buffer True (appends t s))))"
proof -
  have o: "online (S_fd a (Some fd)) (\<lambda>w. 0 \<le> fd \<and> all_progress w) s"
    using assms(1,2) by (simp add: online_def)
  obtain u c where t: "t = u @ [c]" using assms(5) by (metis rev_exhaust)
  have "b_data (e_buf (appends t s)) \<noteq> []"
    unfolding t using assms(2) by (intro appends_nonempty) (simp_all add: online_def)
  with line_fd.line_delivers(1) [OF o assms(3), of t] write_buffer_unlocks appends_lock_wf [OF assms(4)]
  show ?thesis by blast
qed

lemma line_reaches_descriptor_witness:
  "accepted (T_fd 3) (e_world (pslog_write_buffer True (appends ''a longer line''
     (demo_est (S_fd 9 (Some 3)) 4 (\<lambda>k. Short (k + 1)))))) = ''a longer line''"
  using line_reaches_descriptor [of 3 9 "demo_est (S_fd 9 (Some 3)) 4 (\<lambda>k. Short (k + 1))" "''a longer line''"]
  by (simp add: demo_eqs online_def ready_def lock_wf_def all_progress_def accepted_def)

text \<open>
  \<open>pslog_buffer_destroy\<close> leaves \<open>capacity\<close> equal to the size of the inline array, one more than
  \<open>pslog_buffer_init\<close> grants: a buffer filled again after it would store its NUL past the array.
\<close>

lemma destroyed_buffer_overflows:
  assumes "b = fst (pslog_buffer_destroy b0 w)" "s = \<lparr>e_buf = b, e_shared = sh, e_world = w1\<rparr>" "all_alloc w1"
    and "length t = b_capacity b"
  shows "b_oob (e_buf (appends t s))"
proof -
  have "ready s" "t \<noteq> []" "blen s + length t \<le> bcap s"
    using assms by (auto simp: pslog_buffer_destroy_def inline_size_def ready_def)
  from appends_fits [OF this] assms show ?thesis
    by (simp add: pslog_buffer_destroy_def)
qed

end
