(* ===== verification/Trust.thy ===== *)
theory Trust
  imports Buffer "HOL-Library.Sublist"
begin

text \<open>
  The string classifiers of \<open>src/pslog.c\<close>: the UTF-8 sequence recogniser and the scans that
  decide, when a field is built, whether its text may be copied to a line unescaped. They are
  compared with the definition of UTF-8 as the encoding of Unicode scalar values.
\<close>

section \<open>The scans\<close>

definition pslog_is_utf8_continuation :: "nat \<Rightarrow> bool" where
  "pslog_is_utf8_continuation ch = (ch \<ge> 0x80 \<and> ch \<le> 0xbf)"

text \<open>\<open>cursor\<close> holds the \<open>remaining\<close> bytes.\<close>

definition pslog_utf8_sequence_len_n :: "string \<Rightarrow> nat" where
  "pslog_utf8_sequence_len_n cursor =
     (let remaining = length cursor; ch = cat cursor 0 in
      if remaining = 0 then 0
      else if ch < 0x80 then 1
      else if ch \<ge> 0xc2 \<and> ch \<le> 0xdf then
        (if remaining < 2 \<or> \<not> pslog_is_utf8_continuation (cat cursor 1) then 0 else 2)
      else if ch = 0xe0 then
        (if remaining < 3 \<or> cat cursor 1 < 0xa0 \<or> cat cursor 1 > 0xbf \<or>
            \<not> pslog_is_utf8_continuation (cat cursor 2) then 0 else 3)
      else if (ch \<ge> 0xe1 \<and> ch \<le> 0xec) \<or> (ch \<ge> 0xee \<and> ch \<le> 0xef) then
        (if remaining < 3 \<or> \<not> pslog_is_utf8_continuation (cat cursor 1) \<or>
            \<not> pslog_is_utf8_continuation (cat cursor 2) then 0 else 3)
      else if ch = 0xed then
        (if remaining < 3 \<or> cat cursor 1 < 0x80 \<or> cat cursor 1 > 0x9f \<or>
            \<not> pslog_is_utf8_continuation (cat cursor 2) then 0 else 3)
      else if ch = 0xf0 then
        (if remaining < 4 \<or> cat cursor 1 < 0x90 \<or> cat cursor 1 > 0xbf \<or>
            \<not> pslog_is_utf8_continuation (cat cursor 2) \<or>
            \<not> pslog_is_utf8_continuation (cat cursor 3) then 0 else 4)
      else if ch \<ge> 0xf1 \<and> ch \<le> 0xf3 then
        (if remaining < 4 \<or> \<not> pslog_is_utf8_continuation (cat cursor 1) \<or>
            \<not> pslog_is_utf8_continuation (cat cursor 2) \<or>
            \<not> pslog_is_utf8_continuation (cat cursor 3) then 0 else 4)
      else if ch = 0xf4 then
        (if remaining < 4 \<or> cat cursor 1 < 0x80 \<or> cat cursor 1 > 0x8f \<or>
            \<not> pslog_is_utf8_continuation (cat cursor 2) \<or>
            \<not> pslog_is_utf8_continuation (cat cursor 3) then 0 else 4)
      else 0)"

definition pslog_cstr_len_or_zero :: "cstring option \<Rightarrow> nat" where
  "pslog_cstr_len_or_zero t = (case t of None \<Rightarrow> 0 | Some s \<Rightarrow> length s)"

fun console_simple_loop :: "cstring \<Rightarrow> nat \<Rightarrow> bool \<times> nat" where
  "console_simple_loop [] len = (True, len)"
| "console_simple_loop (c # cursor) len =
     (let ch = uc c in
      if ((ch \<ge> 0x09 \<and> ch \<le> 0x0d) \<or> ch = 0x20) \<or> ch = 61 \<or> ch = 34 \<or> ch = 92 \<or>
         ch < 0x20 \<or> ch = 0x7f \<or> ch = 0x1b
      then (False, 0) else console_simple_loop cursor (len + 1))"

definition pslog_string_is_console_simple_measure :: "cstring option \<Rightarrow> bool \<times> nat" where
  "pslog_string_is_console_simple_measure t =
     (case t of None \<Rightarrow> (False, 0)
      | Some s \<Rightarrow> if s = [] then (False, 0) else console_simple_loop s 0)"

fun ascii_trusted_loop :: "cstring \<Rightarrow> nat \<Rightarrow> bool \<Rightarrow> bool \<times> nat" where
  "ascii_trusted_loop [] len trusted = (trusted, len)"
| "ascii_trusted_loop (c # cursor) len trusted =
     (let ch = uc c;
          trusted' = (if ch \<ge> 0x80 \<or> ch < 0x20 \<or> ch = 0x7f \<or> ch = 34 \<or> ch = 92
                      then False else trusted)
      in ascii_trusted_loop cursor (len + 1) trusted')"

definition pslog_string_is_ascii_trusted_measure :: "cstring option \<Rightarrow> bool \<times> nat" where
  "pslog_string_is_ascii_trusted_measure t =
     (case t of None \<Rightarrow> (True, 0) | Some s \<Rightarrow> ascii_trusted_loop s 0 True)"

function trusted_loop :: "cstring \<Rightarrow> nat \<Rightarrow> bool \<Rightarrow> bool \<times> nat" where
  "trusted_loop cursor len trusted =
     (if cursor = [] then (trusted, len)
      else
        (let ch = cat cursor 0; reject = (False, len + length cursor) in
         if ch < 0x80 then
           trusted_loop (drop 1 cursor) (len + 1)
             (if ch < 0x20 \<or> ch = 0x7f \<or> ch = 34 \<or> ch = 92 then False else trusted)
         else if ch \<ge> 0xc2 \<and> ch \<le> 0xdf then
           (if cat cursor 1 = 0 \<or> \<not> pslog_is_utf8_continuation (cat cursor 1) then reject
            else trusted_loop (drop 2 cursor) (len + 2) trusted)
         else if ch = 0xe0 then
           (if cat cursor 1 = 0 \<or> cat cursor 2 = 0 \<or> cat cursor 1 < 0xa0 \<or>
               cat cursor 1 > 0xbf \<or> \<not> pslog_is_utf8_continuation (cat cursor 2) then reject
            else trusted_loop (drop 3 cursor) (len + 3) trusted)
         else if (ch \<ge> 0xe1 \<and> ch \<le> 0xec) \<or> (ch \<ge> 0xee \<and> ch \<le> 0xef) then
           (if cat cursor 1 = 0 \<or> cat cursor 2 = 0 \<or>
               \<not> pslog_is_utf8_continuation (cat cursor 1) \<or>
               \<not> pslog_is_utf8_continuation (cat cursor 2) then reject
            else trusted_loop (drop 3 cursor) (len + 3) trusted)
         else if ch = 0xed then
           (if cat cursor 1 = 0 \<or> cat cursor 2 = 0 \<or> cat cursor 1 < 0x80 \<or>
               cat cursor 1 > 0x9f \<or> \<not> pslog_is_utf8_continuation (cat cursor 2) then reject
            else trusted_loop (drop 3 cursor) (len + 3) trusted)
         else if ch = 0xf0 then
           (if cat cursor 1 = 0 \<or> cat cursor 2 = 0 \<or> cat cursor 3 = 0 \<or>
               cat cursor 1 < 0x90 \<or> cat cursor 1 > 0xbf \<or>
               \<not> pslog_is_utf8_continuation (cat cursor 2) \<or>
               \<not> pslog_is_utf8_continuation (cat cursor 3) then reject
            else trusted_loop (drop 4 cursor) (len + 4) trusted)
         else if ch \<ge> 0xf1 \<and> ch \<le> 0xf3 then
           (if cat cursor 1 = 0 \<or> cat cursor 2 = 0 \<or> cat cursor 3 = 0 \<or>
               \<not> pslog_is_utf8_continuation (cat cursor 1) \<or>
               \<not> pslog_is_utf8_continuation (cat cursor 2) \<or>
               \<not> pslog_is_utf8_continuation (cat cursor 3) then reject
            else trusted_loop (drop 4 cursor) (len + 4) trusted)
         else if ch = 0xf4 then
           (if cat cursor 1 = 0 \<or> cat cursor 2 = 0 \<or> cat cursor 3 = 0 \<or>
               cat cursor 1 < 0x80 \<or> cat cursor 1 > 0x8f \<or>
               \<not> pslog_is_utf8_continuation (cat cursor 2) \<or>
               \<not> pslog_is_utf8_continuation (cat cursor 3) then reject
            else trusted_loop (drop 4 cursor) (len + 4) trusted)
         else reject))"
  by pat_completeness auto
termination
  by (relation "measure (\<lambda>(cursor, len, trusted). length cursor)") auto

declare trusted_loop.simps [simp del]

definition pslog_string_is_trusted_measure :: "cstring option \<Rightarrow> bool \<times> nat" where
  "pslog_string_is_trusted_measure t =
     (case t of None \<Rightarrow> (True, 0) | Some s \<Rightarrow> trusted_loop s 0 True)"

definition pslog_string_is_trusted :: "cstring option \<Rightarrow> bool" where
  "pslog_string_is_trusted t = fst (pslog_string_is_trusted_measure t)"

definition pslog_string_is_console_simple_internal :: "cstring option \<Rightarrow> bool" where
  "pslog_string_is_console_simple_internal t = fst (pslog_string_is_console_simple_measure t)"

section \<open>UTF-8, by its definition\<close>

definition scalar_value :: "nat \<Rightarrow> bool" where
  "scalar_value cp = (cp < 0xD800 \<or> 0xE000 \<le> cp \<and> cp \<le> 0x10FFFF)"

definition utf8_units :: "nat \<Rightarrow> nat list" where
  "utf8_units cp =
     (if cp < 0x80 then [cp]
      else if cp < 0x800 then [0xC0 + cp div 64, 0x80 + cp mod 64]
      else if cp < 0x10000 then [0xE0 + cp div 4096, 0x80 + cp div 64 mod 64, 0x80 + cp mod 64]
      else [0xF0 + cp div 262144, 0x80 + cp div 4096 mod 64, 0x80 + cp div 64 mod 64, 0x80 + cp mod 64])"

definition utf8_encode :: "nat \<Rightarrow> string" where
  "utf8_encode cp = map char_of (utf8_units cp)"

definition valid_utf8 :: "string \<Rightarrow> bool" where
  "valid_utf8 s = (\<exists>cps. (\<forall>cp \<in> set cps. scalar_value cp) \<and> s = concat (map utf8_encode cps))"

lemma utf8_units_bounds: "scalar_value cp \<Longrightarrow> u \<in> set (utf8_units cp) \<Longrightarrow> u < 256"
  by (auto simp: utf8_units_def scalar_value_def split: if_splits)

lemma map_uc_utf8_encode: "scalar_value cp \<Longrightarrow> map uc (utf8_encode cp) = utf8_units cp"
  by (auto simp: utf8_encode_def intro!: map_idI dest: utf8_units_bounds)

lemma length_utf8_encode [simp]: "length (utf8_encode cp) = length (utf8_units cp)"
  by (simp add: utf8_encode_def)

lemma base64_digits: "z < 64 \<Longrightarrow> (n * 64 + z) div 64 = n" "z < 64 \<Longrightarrow> (n * 64 + z) mod 64 = (z :: nat)"
  by simp_all

lemma div_base64: "(n :: nat) div 4096 = n div 64 div 64" "n div 262144 = n div 64 div 64 div 64"
  by (simp_all add: div_mult2_eq [symmetric])

text \<open>A lead byte and its continuations determine the code point.\<close>

lemma two_byte_units:
  assumes "0xc2 \<le> a" "a \<le> 0xdf" "0x80 \<le> b" "b \<le> 0xbf"
  shows "\<exists>cp. scalar_value cp \<and> utf8_units cp = [a, b]"
proof -
  define x where "x = a - 0xC0"
  define y where "y = b - 0x80"
  have e: "a = x + 0xC0" "b = y + 0x80" and r: "2 \<le> x" "x < 32" "y < 64"
    using assms by (auto simp: x_def y_def)
  then show ?thesis
    by (intro exI [where x = "x * 64 + y"]) (simp add: utf8_units_def scalar_value_def base64_digits)
qed

lemma three_byte_units:
  assumes "0xe0 \<le> a" "a \<le> 0xef" "0x80 \<le> b" "b \<le> 0xbf" "0x80 \<le> c" "c \<le> 0xbf"
    and "a = 0xe0 \<Longrightarrow> 0xa0 \<le> b" "a = 0xed \<Longrightarrow> b \<le> 0x9f"
  shows "\<exists>cp. scalar_value cp \<and> utf8_units cp = [a, b, c]"
proof -
  define x where "x = a - 0xE0"
  define y where "y = b - 0x80"
  define z where "z = c - 0x80"
  have e: "a = x + 0xE0" "b = y + 0x80" "c = z + 0x80" and r: "x < 16" "y < 64" "z < 64"
    using assms by (auto simp: x_def y_def z_def)
  have lo: "0x800 \<le> x * 4096 + y * 64 + z" using assms(7) e r by (cases "x = 0") auto
  have hi: "x * 4096 + y * 64 + z < 0x10000" using r by simp
  have sv: "scalar_value (x * 4096 + y * 64 + z)"
  proof (cases "x \<le> 13")
    case True
    with assms(8) e r show ?thesis by (cases "x = 13") (auto simp: scalar_value_def)
  next
    case False
    with hi show ?thesis by (auto simp: scalar_value_def)
  qed
  have "x * 4096 + y * 64 + z = (x * 64 + y) * 64 + z" by simp
  with r have "(x * 4096 + y * 64 + z) div 4096 = x" "(x * 4096 + y * 64 + z) div 64 mod 64 = y"
    "(x * 4096 + y * 64 + z) mod 64 = z"
    by (simp_all only: div_base64 base64_digits)
  with lo hi sv e show ?thesis
    by (intro exI [where x = "x * 4096 + y * 64 + z"]) (auto simp: utf8_units_def)
qed

lemma four_byte_units:
  assumes "0xf0 \<le> a" "a \<le> 0xf4" "0x80 \<le> b" "b \<le> 0xbf" "0x80 \<le> c" "c \<le> 0xbf" "0x80 \<le> d" "d \<le> 0xbf"
    and "a = 0xf0 \<Longrightarrow> 0x90 \<le> b" "a = 0xf4 \<Longrightarrow> b \<le> 0x8f"
  shows "\<exists>cp. scalar_value cp \<and> utf8_units cp = [a, b, c, d]"
proof -
  define v where "v = a - 0xF0"
  define x where "x = b - 0x80"
  define y where "y = c - 0x80"
  define z where "z = d - 0x80"
  have e: "a = v + 0xF0" "b = x + 0x80" "c = y + 0x80" "d = z + 0x80"
    and r: "v \<le> 4" "x < 64" "y < 64" "z < 64"
    using assms by (auto simp: v_def x_def y_def z_def)
  have lo: "0x10000 \<le> v * 262144 + x * 4096 + y * 64 + z"
    using assms(9) e r by (cases "v = 0") auto
  have hi: "v * 262144 + x * 4096 + y * 64 + z \<le> 0x10FFFF"
    using assms(10) e r by (cases "v = 4") auto
  have "v * 262144 + x * 4096 + y * 64 + z = ((v * 64 + x) * 64 + y) * 64 + z" by simp
  with r have "(v * 262144 + x * 4096 + y * 64 + z) div 262144 = v"
    "(v * 262144 + x * 4096 + y * 64 + z) div 4096 mod 64 = x"
    "(v * 262144 + x * 4096 + y * 64 + z) div 64 mod 64 = y"
    "(v * 262144 + x * 4096 + y * 64 + z) mod 64 = z"
    by (simp_all only: div_base64 base64_digits)
  with lo hi e show ?thesis
    by (intro exI [where x = "v * 262144 + x * 4096 + y * 64 + z"])
      (auto simp: utf8_units_def scalar_value_def)
qed

section \<open>The recogniser accepts exactly the encodings of scalar values\<close>

lemma seq_len_encode:
  assumes "scalar_value cp"
  shows "pslog_utf8_sequence_len_n (utf8_encode cp @ t) = length (utf8_units cp)"
proof -
  have cp: "cp \<le> 0x10FFFF" "cp < 0xD800 \<or> 0xE000 \<le> cp"
    using assms by (auto simp: scalar_value_def)
  consider "cp < 0x80" | "0x80 \<le> cp" "cp < 0x800" | "0x800 \<le> cp" "cp < 0x10000" | "0x10000 \<le> cp"
    by linarith
  then show ?thesis
  proof cases
    case 1
    then show ?thesis
      by (simp add: utf8_encode_def utf8_units_def pslog_utf8_sequence_len_n_def)
  next
    case 2
    then have "2 \<le> cp div 64" "cp div 64 < 32" by auto
    with 2 show ?thesis
      by (simp add: utf8_encode_def utf8_units_def pslog_utf8_sequence_len_n_def
          pslog_is_utf8_continuation_def Let_def cat_def)
  next
    case 3
    define q where "q = cp div 64"
    define a where "a = q div 64"
    define b where "b = q mod 64"
    have q: "32 \<le> q" "q < 1024" "q < 864 \<or> 896 \<le> q" "q = a * 64 + b" "b < 64"
      using 3 cp by (auto simp: q_def a_def b_def)
    then have ab: "a < 16" "a = 0 \<longrightarrow> 32 \<le> b" "a = 13 \<longrightarrow> b < 32" by auto
    have "utf8_units cp = [0xE0 + a, 0x80 + b, 0x80 + cp mod 64]"
      using 3 by (simp add: utf8_units_def div_base64 a_def b_def q_def)
    moreover have "cp mod 64 \<le> 63" by simp
    ultimately show ?thesis
      using ab q(5)
      by (cases "a = 0"; cases "a \<le> 12"; cases "a = 13")
        (simp_all add: utf8_encode_def pslog_utf8_sequence_len_n_def
          pslog_is_utf8_continuation_def Let_def cat_def)
  next
    case 4
    define q where "q = cp div 64 div 64"
    define a where "a = q div 64"
    define b where "b = q mod 64"
    have q: "16 \<le> q" "q < 272" "q = a * 64 + b" "b < 64"
      using 4 cp by (auto simp: q_def a_def b_def)
    then have ab: "a < 5" "a = 0 \<longrightarrow> 16 \<le> b" "a = 4 \<longrightarrow> b < 16" by auto
    have "utf8_units cp = [0xF0 + a, 0x80 + b, 0x80 + cp div 64 mod 64, 0x80 + cp mod 64]"
      using 4 by (simp add: utf8_units_def div_base64 a_def b_def q_def)
    moreover have "cp mod 64 \<le> 63" "cp div 64 mod 64 \<le> 63" by simp_all
    ultimately show ?thesis
      using ab q(4)
      by (cases "a = 0"; cases "a \<le> 3")
        (simp_all add: utf8_encode_def pslog_utf8_sequence_len_n_def
          pslog_is_utf8_continuation_def Let_def cat_def)
  qed
qed

lemma if_bool_le: "(b \<Longrightarrow> x \<le> n) \<Longrightarrow> (\<not> b \<Longrightarrow> y \<le> n) \<Longrightarrow> (if b then x else y) \<le> (n :: nat)"
  by simp

lemma utf8_encode_eqI: "utf8_units cp = map uc cs \<Longrightarrow> utf8_encode cp = cs"
  by (simp add: utf8_encode_def map_idI)

lemma seq_len_le: "pslog_utf8_sequence_len_n s \<le> length s"
  unfolding pslog_utf8_sequence_len_n_def Let_def
  by (intro if_bool_le) (auto simp: Suc_le_eq)

lemma seq_len_1D: "pslog_utf8_sequence_len_n s = Suc 0 \<Longrightarrow> cat s 0 < 0x80"
  by (simp add: pslog_utf8_sequence_len_n_def Let_def split: if_split_asm)

lemma seq_len_2D: "pslog_utf8_sequence_len_n s = 2 \<Longrightarrow>
    0xc2 \<le> cat s 0 \<and> cat s 0 \<le> 0xdf \<and> 0x80 \<le> cat s 1 \<and> cat s 1 \<le> 0xbf"
  by (simp add: pslog_utf8_sequence_len_n_def Let_def pslog_is_utf8_continuation_def split: if_split_asm)

lemma seq_len_3D: "pslog_utf8_sequence_len_n s = 3 \<Longrightarrow>
    0xe0 \<le> cat s 0 \<and> cat s 0 \<le> 0xef \<and> 0x80 \<le> cat s 1 \<and> cat s 1 \<le> 0xbf \<and>
    0x80 \<le> cat s 2 \<and> cat s 2 \<le> 0xbf \<and> (cat s 0 = 0xe0 \<longrightarrow> 0xa0 \<le> cat s 1) \<and>
    (cat s 0 = 0xed \<longrightarrow> cat s 1 \<le> 0x9f)"
  by (simp add: pslog_utf8_sequence_len_n_def Let_def pslog_is_utf8_continuation_def split: if_split_asm)
    auto

lemma seq_len_4D: "pslog_utf8_sequence_len_n s = 4 \<Longrightarrow>
    0xf0 \<le> cat s 0 \<and> cat s 0 \<le> 0xf4 \<and> 0x80 \<le> cat s 1 \<and> cat s 1 \<le> 0xbf \<and>
    0x80 \<le> cat s 2 \<and> cat s 2 \<le> 0xbf \<and> 0x80 \<le> cat s 3 \<and> cat s 3 \<le> 0xbf \<and>
    (cat s 0 = 0xf0 \<longrightarrow> 0x90 \<le> cat s 1) \<and> (cat s 0 = 0xf4 \<longrightarrow> cat s 1 \<le> 0x8f)"
  by (simp add: pslog_utf8_sequence_len_n_def Let_def pslog_is_utf8_continuation_def split: if_split_asm)

lemma seq_len_cases: "pslog_utf8_sequence_len_n s \<in> {0, 1, 2, 3, 4}"
  by (simp add: pslog_utf8_sequence_len_n_def Let_def)

lemma seq_len_scalar:
  assumes "pslog_utf8_sequence_len_n s = n" "n \<noteq> 0"
  shows "\<exists>cp. scalar_value cp \<and> utf8_encode cp = take n s"
proof -
  define u where "u i = cat s i" for i
  have len: "n \<le> length s" using assms seq_len_le by blast
  have uc: "map uc (take n s) = map u [0..<n]"
    using len by (intro nth_equalityI) (auto simp: u_def cat_def)
  have "\<exists>cp. scalar_value cp \<and> utf8_units cp = map u [0..<n]"
  proof -
    consider "n = 1" | "n = 2" | "n = 3" | "n = 4"
      using assms seq_len_cases [of s] by auto
    then show ?thesis
    proof cases
      case 1
      with assms seq_len_1D [of s] show ?thesis
        by (intro exI [where x = "u 0"]) (simp add: utf8_units_def scalar_value_def u_def)
    next
      case 2
      with assms seq_len_2D [of s] two_byte_units [of "u 0" "u 1"] show ?thesis
        by (simp add: upt_rec u_def)
    next
      case 3
      with assms seq_len_3D [of s] three_byte_units [of "u 0" "u 1" "u 2"] show ?thesis
        by (simp add: upt_rec u_def numeral_2_eq_2)
    next
      case 4
      with assms seq_len_4D [of s] four_byte_units [of "u 0" "u 1" "u 2" "u 3"] show ?thesis
        by (simp add: upt_rec u_def numeral_2_eq_2 numeral_3_eq_3)
    qed
  qed
  with uc show ?thesis by (metis utf8_encode_eqI)
qed

lemma seq_len_nonzero_iff:
  "pslog_utf8_sequence_len_n s \<noteq> 0 \<longleftrightarrow> (\<exists>cp. scalar_value cp \<and> prefix (utf8_encode cp) s)"
proof
  assume "pslog_utf8_sequence_len_n s \<noteq> 0"
  with seq_len_scalar [OF refl this] show "\<exists>cp. scalar_value cp \<and> prefix (utf8_encode cp) s"
    by (metis take_is_prefix)
next
  assume "\<exists>cp. scalar_value cp \<and> prefix (utf8_encode cp) s"
  then obtain cp t where "scalar_value cp" "s = utf8_encode cp @ t" by (auto simp: prefix_def)
  then show "pslog_utf8_sequence_len_n s \<noteq> 0"
    by (simp add: seq_len_encode) (simp add: utf8_units_def)
qed

lemma valid_utf8_Nil [simp]: "valid_utf8 []"
  by (simp add: valid_utf8_def exI [where x = "[]"])

lemma valid_utf8_step:
  assumes "s \<noteq> []"
  shows "valid_utf8 s \<longleftrightarrow>
    pslog_utf8_sequence_len_n s \<noteq> 0 \<and> valid_utf8 (drop (pslog_utf8_sequence_len_n s) s)"
proof
  assume "valid_utf8 s"
  then obtain cps where c: "\<forall>cp \<in> set cps. scalar_value cp" "s = concat (map utf8_encode cps)"
    by (auto simp: valid_utf8_def)
  with assms obtain cp cps' where "cps = cp # cps'" by (cases cps) auto
  with c have "scalar_value cp" "s = utf8_encode cp @ concat (map utf8_encode cps')" by auto
  moreover from this have n: "pslog_utf8_sequence_len_n s = length (utf8_encode cp)"
    by (simp add: seq_len_encode)
  ultimately show "pslog_utf8_sequence_len_n s \<noteq> 0 \<and> valid_utf8 (drop (pslog_utf8_sequence_len_n s) s)"
    using c \<open>cps = cp # cps'\<close> seq_len_nonzero_iff [of s] by (auto simp: valid_utf8_def)
next
  assume *: "pslog_utf8_sequence_len_n s \<noteq> 0 \<and> valid_utf8 (drop (pslog_utf8_sequence_len_n s) s)"
  from seq_len_scalar [OF refl] * obtain cp where
    "scalar_value cp" "utf8_encode cp = take (pslog_utf8_sequence_len_n s) s" by blast
  moreover from * obtain cps where "\<forall>cp \<in> set cps. scalar_value cp"
    "drop (pslog_utf8_sequence_len_n s) s = concat (map utf8_encode cps)"
    by (auto simp: valid_utf8_def)
  ultimately show "valid_utf8 s"
    unfolding valid_utf8_def
    by (intro exI [where x = "cp # cps"]) (metis append_take_drop_id concat.simps(2) list.simps(9) set_ConsD)
qed

section \<open>What the trusted scan decides\<close>

text \<open>The bytes a JSON string must escape, and DEL, which the scans reject too.\<close>

definition unsafe_byte :: "nat \<Rightarrow> bool" where
  "unsafe_byte ch = (ch < 0x20 \<or> ch = 0x7f \<or> ch = 34 \<or> ch = 92)"

lemma cat_nonzero: "cat s i \<noteq> 0 \<Longrightarrow> i < length s"
  by (simp add: cat_def split: if_splits)

text \<open>One round of the scan is one call of the recogniser.\<close>

lemma trusted_loop_step:
  assumes "s \<noteq> []"
  shows "trusted_loop s len tr =
    (let n = pslog_utf8_sequence_len_n s in
     if n = 0 then (False, len + length s)
     else trusted_loop (drop n s) (len + n) (tr \<and> (n = 1 \<longrightarrow> \<not> unsafe_byte (cat s 0))))"
proof -
  have c: "pslog_is_utf8_continuation (cat s i) \<Longrightarrow> cat s i \<noteq> 0 \<and> i < length s" for i
    using cat_nonzero [of s i] by (auto simp: pslog_is_utf8_continuation_def)
  have k: "pslog_is_utf8_continuation x \<longleftrightarrow> x \<ge> 0x80 \<and> x \<le> 0xbf" for x
    by (simp add: pslog_is_utf8_continuation_def)
  let ?u = "cat s 0"
  consider "?u < 0x80" | "0xc2 \<le> ?u" "?u \<le> 0xdf" | "?u = 0xe0" | "0xe1 \<le> ?u" "?u \<le> 0xec"
    | "?u = 0xed" | "0xee \<le> ?u" "?u \<le> 0xef" | "?u = 0xf0" | "0xf1 \<le> ?u" "?u \<le> 0xf3" | "?u = 0xf4"
    | "0x80 \<le> ?u" "?u < 0xc2" | "0xf4 < ?u"
    by linarith
  then show ?thesis
    by cases (use assms c [of 1] c [of 2] c [of 3] in
      \<open>(subst trusted_loop.simps; simp add: pslog_utf8_sequence_len_n_def Let_def unsafe_byte_def;
        fastforce simp: k)\<close>)+
qed

lemma utf8_encode_unsafe:
  assumes "scalar_value cp" "c \<in> set (utf8_encode cp)" "unsafe_byte (uc c)"
  shows "utf8_encode cp = [c]"
proof -
  from assms have "uc c \<in> set (utf8_units cp)"
    by (metis image_eqI list.set_map map_uc_utf8_encode)
  with assms(3) have "utf8_units cp = [uc c]"
    by (auto simp: utf8_units_def unsafe_byte_def split: if_splits)
  then show ?thesis by (simp add: utf8_encode_def)
qed

lemma trusted_loop_eq:
  "trusted_loop s len tr = (tr \<and> valid_utf8 s \<and> (\<forall>c \<in> set s. \<not> unsafe_byte (uc c)), len + length s)"
proof (induction "length s" arbitrary: s len tr rule: less_induct)
  case less
  show ?case
  proof (cases "s = []")
    case True
    then show ?thesis by (simp add: trusted_loop.simps)
  next
    case False
    define n where "n = pslog_utf8_sequence_len_n s"
    show ?thesis
    proof (cases "n = 0")
      case True
      then have "\<not> valid_utf8 s" "trusted_loop s len tr = (False, len + length s)"
        using valid_utf8_step [OF False] trusted_loop_step [OF False, of len tr] by (auto simp: n_def)
      then show ?thesis by simp
    next
      case n: False
      define tr' where "tr' = (tr \<and> (n = 1 \<longrightarrow> \<not> unsafe_byte (cat s 0)))"
      obtain cp where cp: "scalar_value cp" "utf8_encode cp = take n s"
        using seq_len_scalar [of s n] n by (auto simp: n_def)
      have le: "n \<le> length s" using seq_len_le by (simp add: n_def)
      have head: "(\<forall>c \<in> set (take n s). \<not> unsafe_byte (uc c)) \<longleftrightarrow> (n = 1 \<longrightarrow> \<not> unsafe_byte (cat s 0))"
      proof (cases "n = 1")
        case True
        with False show ?thesis by (cases s) auto
      next
        case ne: False
        have "length (take n s) = n" using le by simp
        with ne utf8_encode_unsafe [OF cp(1)] cp(2) show ?thesis
          by (metis One_nat_def length_Cons list.size(3))
      qed
      have split: "(\<forall>c \<in> set s. \<not> unsafe_byte (uc c)) \<longleftrightarrow>
          (n = 1 \<longrightarrow> \<not> unsafe_byte (cat s 0)) \<and> (\<forall>c \<in> set (drop n s). \<not> unsafe_byte (uc c))"
        unfolding head [symmetric] by (metis Un_iff append_take_drop_id set_append)
      have step: "trusted_loop s len tr = trusted_loop (drop n s) (len + n) tr'"
        using n by (simp add: trusted_loop_step [OF False] n_def [symmetric] Let_def tr'_def)
      have valid: "valid_utf8 s \<longleftrightarrow> valid_utf8 (drop n s)"
        using n by (simp add: valid_utf8_step [OF False] n_def [symmetric])
      have "length (drop n s) < length s" using False n by simp
      from less.hyps [OF this, of "len + n" tr'] le show ?thesis
        unfolding step valid split tr'_def by auto
    qed
  qed
qed

lemma trusted_measure_spec:
  "pslog_string_is_trusted_measure (Some s) =
     (valid_utf8 s \<and> (\<forall>c \<in> set s. \<not> unsafe_byte (uc c)), length s)"
  by (simp add: pslog_string_is_trusted_measure_def trusted_loop_eq)

lemma ascii_trusted_loop_eq:
  "ascii_trusted_loop s len tr =
     (tr \<and> (\<forall>c \<in> set s. uc c < 0x80 \<and> \<not> unsafe_byte (uc c)), len + length s)"
  by (induction s arbitrary: len tr) (auto simp: Let_def unsafe_byte_def not_less)

lemma console_simple_loop_eq:
  "console_simple_loop s len =
     (if \<forall>c \<in> set s. \<not> unsafe_byte (uc c) \<and> uc c \<noteq> 0x20 \<and> uc c \<noteq> 61
      then (True, len + length s) else (False, 0))"
  by (induction s arbitrary: len) (auto simp: Let_def unsafe_byte_def)

lemma ascii_valid_utf8: "\<forall>c \<in> set s. uc c < 0x80 \<Longrightarrow> valid_utf8 s"
  unfolding valid_utf8_def
  by (intro exI [where x = "map uc s"])
    (auto simp: utf8_encode_def utf8_units_def scalar_value_def comp_def concat_map_singleton
      cong: map_cong intro!: map_idI [symmetric])

section \<open>Properties\<close>

text \<open>
  Claim C28. The UTF-8 recogniser accepts exactly the well-formed sequences: it returns a non-zero
  length just when some Unicode scalar value's encoding stands at the cursor, and then the length
  of that encoding, so overlong forms, surrogates, values past U+10FFFF and cut-off sequences are
  all refused.
\<close>

theorem utf8_recogniser_exact:
  "(pslog_utf8_sequence_len_n s = n \<and> n \<noteq> 0) =
     (\<exists>cp. scalar_value cp \<and> n = length (utf8_encode cp) \<and> prefix (utf8_encode cp) s)"
proof
  assume a: "pslog_utf8_sequence_len_n s = n \<and> n \<noteq> 0"
  then obtain cp where "scalar_value cp" "utf8_encode cp = take n s"
    using seq_len_scalar by blast
  moreover have "length (take n s) = n" using a seq_len_le [of s] by auto
  ultimately show "\<exists>cp. scalar_value cp \<and> n = length (utf8_encode cp) \<and> prefix (utf8_encode cp) s"
    by (metis take_is_prefix)
next
  assume "\<exists>cp. scalar_value cp \<and> n = length (utf8_encode cp) \<and> prefix (utf8_encode cp) s"
  then obtain cp t where "scalar_value cp" "n = length (utf8_encode cp)" "s = utf8_encode cp @ t"
    by (auto simp: prefix_def)
  then show "pslog_utf8_sequence_len_n s = n \<and> n \<noteq> 0"
    by (simp add: seq_len_encode) (simp add: utf8_units_def)
qed

text \<open>
  Claim C29. The scan that lets a string bypass escaping is right: a string is classified as
  trusted exactly if it is valid UTF-8 and holds no control byte, no DEL, no quote and no backslash,
  and the length the scan measures on the way is the string's length, also when it is refused.
\<close>

theorem trusted_scan_exact:
  "pslog_string_is_trusted_measure (Some s) =
     (valid_utf8 s \<and> list_all (\<lambda>c. \<not> unsafe_byte (uc c)) s, length s)"
  by (simp add: trusted_measure_spec list_all_iff)

end
