(* ===== verification/Encode.thy ===== *)
theory Encode
  imports Trust
begin

text \<open>
  The encoders of \<open>src/pslog.c\<close>: JSON and console strings, hexadecimal bytes and decimal
  integers. Each is translated with its cursor and its pending chunk; each is then shown to
  append a byte string given by a plain recursive function, and those functions are inverted:
  a JSON string decodes to the text's code points, a decimal to its integer, hexadecimal to its
  bytes.
\<close>

section \<open>JSON strings\<close>

definition escape_kind :: "nat list" where
  "escape_kind =
    [6, 6, 6, 6, 6, 6, 6, 6, 6, 5, 4, 6, 6, 3, 6, 6, 6, 6, 6, 6, 6, 6, 6, 6,
     6, 6, 6, 6, 6, 6, 6, 6, 0, 0, 1, 0, 0, 0, 0, 0, 0, 0, 0, 0, 0, 0, 0, 0,
     0, 0, 0, 0, 0, 0, 0, 0, 0, 0, 0, 0, 0, 0, 0, 0, 0, 0, 0, 0, 0, 0, 0, 0,
     0, 0, 0, 0, 0, 0, 0, 0, 0, 0, 0, 0, 0, 0, 0, 0, 0, 0, 0, 6, 2, 0, 0, 0,
     0, 0, 0, 0, 0, 0, 0, 0, 0, 0, 0, 0, 0, 0, 0, 0, 0, 0, 0, 0, 0, 0, 0, 0,
     0, 0, 0, 0, 0, 0, 0, 0, 0, 0, 0, 0, 0, 0, 0, 0, 0, 0, 0, 0, 0, 0, 0, 0,
     0, 0, 0, 0, 0, 0, 0, 0, 0, 0, 0, 0, 0, 0, 0, 0, 0, 0, 0, 0, 0, 0, 0, 0,
     0, 0, 0, 0, 0, 0, 0, 0, 0, 0, 0, 0, 0, 0, 0, 0, 0, 0, 0, 0, 0, 0, 0, 0,
     0, 0, 0, 0, 0, 0, 0, 0, 0, 0, 0, 0, 0, 0, 0, 0, 0, 0, 0, 0, 0, 0, 0, 0,
     0, 0, 0, 0, 0, 0, 0, 0, 0, 0, 0, 0, 0, 0, 0, 0, 0, 0, 0, 0, 0, 0, 0, 0,
     0, 0, 0, 0, 0, 0, 0, 0, 0, 0, 0, 0, 0, 0, 0, 0]"

abbreviation (input) dquote :: char where
  "dquote \<equiv> CHR 0x22"

abbreviation (input) bslash :: char where
  "bslash \<equiv> CHR 0x5C"

text \<open>\<open>if (cursor > chunk_start) append(chunk_start, cursor - chunk_start)\<close>\<close>

definition append_pending :: "string \<Rightarrow> nat \<Rightarrow> nat \<Rightarrow> est \<Rightarrow> est" where
  "append_pending t chunk_start cursor s =
     (if cursor > chunk_start then append_n_fast (slice chunk_start cursor t) s else s)"

definition append_u00 :: "char \<Rightarrow> est \<Rightarrow> est" where
  "append_u00 c s =
     append_char_fast (hex_lo c) (append_char_fast (hex_hi c) (append_literal [bslash, CHR ''u'', CHR ''0'', CHR ''0''] s))"

definition append_json_escape :: "nat \<Rightarrow> char \<Rightarrow> est \<Rightarrow> est" where
  "append_json_escape kind c s =
     (if kind = 1 \<or> kind = 2 then append_char_fast c (append_char_fast bslash s)
      else if kind = 3 then append_literal [bslash, CHR ''r''] s
      else if kind = 4 then append_literal [bslash, CHR ''n''] s
      else if kind = 5 then append_literal [bslash, CHR ''t''] s
      else append_u00 c s)"

function json_string_loop :: "string \<Rightarrow> nat \<Rightarrow> nat \<Rightarrow> est \<Rightarrow> est" where
  "json_string_loop t chunk_start cursor s =
     (if cursor < length t then
        (let c = t ! cursor; ch = uc c in
         if ch \<ge> 0x80 then
           (let utf8_len = pslog_utf8_sequence_len_n (drop cursor t) in
            if utf8_len = 0
            then json_string_loop t (cursor + 1) (cursor + 1)
                   (append_u00 c (append_pending t chunk_start cursor s))
            else json_string_loop t chunk_start (cursor + utf8_len) s)
         else
           (let kind = escape_kind ! ch in
            if kind \<noteq> 0 then
              json_string_loop t (cursor + 1) (cursor + 1)
                (append_json_escape kind c (append_pending t chunk_start cursor s))
            else json_string_loop t chunk_start (cursor + 1) s))
      else append_pending t chunk_start cursor s)"
  by pat_completeness auto
termination
  by (relation "measure (\<lambda>(t, chunk_start, cursor, s). length t - cursor)") auto

declare json_string_loop.simps [simp del]

text \<open>\<open>text\<close> and \<open>len\<close> together are the \<open>len\<close> bytes at \<open>text\<close>.\<close>

definition pslog_buffer_append_json_string_n :: "string option \<Rightarrow> est \<Rightarrow> est" where
  "pslog_buffer_append_json_string_n t s =
     (let s1 = append_char_fast dquote s;
          s2 = (case t of None \<Rightarrow> s1
                | Some txs \<Rightarrow> if length txs > 0 then json_string_loop txs 0 0 s1 else s1)
      in append_char_fast dquote s2)"

definition pslog_buffer_append_json_string :: "cstring option \<Rightarrow> est \<Rightarrow> est" where
  "pslog_buffer_append_json_string t s = pslog_buffer_append_json_string_n t s"

definition pslog_buffer_append_json_trusted_string_n :: "string option \<Rightarrow> est \<Rightarrow> est" where
  "pslog_buffer_append_json_trusted_string_n t s =
     (let s1 = append_char_fast dquote s;
          s2 = (case t of None \<Rightarrow> s1
                | Some txs \<Rightarrow> if length txs > 0 then append_n_fast txs s1 else s1)
      in append_char_fast dquote s2)"

definition pslog_buffer_append_json_trusted_string :: "cstring option \<Rightarrow> est \<Rightarrow> est" where
  "pslog_buffer_append_json_trusted_string t s = pslog_buffer_append_json_trusted_string_n t s"

definition pslog_buffer_append_json_string_maybe_trusted :: "cstring option \<Rightarrow> est \<Rightarrow> est" where
  "pslog_buffer_append_json_string_maybe_trusted t s =
     (if fst (pslog_string_is_ascii_trusted_measure t) \<or> fst (pslog_string_is_trusted_measure t)
      then append_json_trusted_string_n_fast (case t of None \<Rightarrow> [] | Some txs \<Rightarrow> txs) s
      else pslog_buffer_append_json_string t s)"

section \<open>Console strings\<close>

definition console_stop :: "nat \<Rightarrow> bool" where
  "console_stop ch = (((ch \<ge> 0x09 \<and> ch \<le> 0x0d) \<or> ch = 0x20) \<or> ch = 61 \<or> ch = 34 \<or> ch = 92 \<or>
     ch < 0x20 \<or> ch = 0x7f \<or> ch = 0x1b)"

fun console_scan :: "cstring \<Rightarrow> nat" where
  "console_scan [] = 0"
| "console_scan (c # t) = (if console_stop (uc c) then 0 else Suc (console_scan t))"

definition append_x :: "char \<Rightarrow> est \<Rightarrow> est" where
  "append_x c s =
     append_char_fast (hex_lo c) (append_char_fast (hex_hi c) (append_literal [bslash, CHR ''x''] s))"

function console_string_loop :: "cstring \<Rightarrow> nat \<Rightarrow> nat \<Rightarrow> est \<Rightarrow> est" where
  "console_string_loop t chunk_start cursor s =
     (if cursor < length t then
        (let c = t ! cursor; ch = uc c in
         if ch = 34 \<or> ch = 92 \<or> ch = 10 \<or> ch = 13 \<or> ch = 9 \<or> ch < 0x20 \<or> ch = 0x7f \<or> ch = 0x1b then
           (let s1 = append_pending t chunk_start cursor s;
                s2 = (if ch = 34 then append_literal [bslash, dquote] s1
                      else if ch = 92 then append_literal [bslash, bslash] s1
                      else if ch = 10 then append_literal [bslash, CHR ''n''] s1
                      else if ch = 13 then append_literal [bslash, CHR ''r''] s1
                      else if ch = 9 then append_literal [bslash, CHR ''t''] s1
                      else append_x c s1)
            in console_string_loop t (cursor + 1) (cursor + 1) s2)
         else console_string_loop t chunk_start (cursor + 1) s)
      else append_pending t chunk_start cursor s)"
  by pat_completeness auto
termination
  by (relation "measure (\<lambda>(t, chunk_start, cursor, s). length t - cursor)") auto

declare console_string_loop.simps [simp del]

definition pslog_buffer_append_console_string :: "cstring option \<Rightarrow> est \<Rightarrow> est" where
  "pslog_buffer_append_console_string t s =
     (case t of None \<Rightarrow> s
      | Some txs \<Rightarrow>
          if txs = [] then s
          else
            (let cursor = console_scan txs
             in if cursor = length txs then append_n_fast (take cursor txs) s
                else
                  (let s1 = append_char_fast dquote s;
                       s2 = (if cursor > 0 then append_n_fast (take cursor txs) s1 else s1);
                       s3 = console_string_loop txs cursor cursor s2
                   in append_char_fast dquote s3)))"

function console_escaped_loop :: "bool \<Rightarrow> cstring \<Rightarrow> nat \<Rightarrow> nat \<Rightarrow> est \<Rightarrow> est" where
  "console_escaped_loop quote t chunk_start cursor s =
     (if cursor < length t then
        (let c = t ! cursor; ch = uc c; s1 = append_pending t chunk_start cursor s in
         if ch = 34 \<and> quote then
           console_escaped_loop quote t (cursor + 1) (cursor + 1) (append_literal [bslash, dquote] s1)
         else if ch = 92 \<and> quote then
           console_escaped_loop quote t (cursor + 1) (cursor + 1) (append_literal [bslash, bslash] s1)
         else if ch = 10 then
           console_escaped_loop quote t (cursor + 1) (cursor + 1) (append_literal [bslash, CHR ''n''] s1)
         else if ch = 13 then
           console_escaped_loop quote t (cursor + 1) (cursor + 1) (append_literal [bslash, CHR ''r''] s1)
         else if ch = 9 then
           console_escaped_loop quote t (cursor + 1) (cursor + 1) (append_literal [bslash, CHR ''t''] s1)
         else if ch < 0x20 \<or> ch = 0x7f \<or> ch = 0x1b then
           console_escaped_loop quote t (cursor + 1) (cursor + 1) (append_x c s1)
         else console_escaped_loop quote t chunk_start (cursor + 1) s)
      else append_pending t chunk_start cursor s)"
  by pat_completeness auto
termination
  by (relation "measure (\<lambda>(quote, t, chunk_start, cursor, s). length t - cursor)") auto

declare console_escaped_loop.simps [simp del]

definition pslog_buffer_append_console_escaped :: "cstring option \<Rightarrow> bool \<Rightarrow> est \<Rightarrow> est" where
  "pslog_buffer_append_console_escaped t quote s =
     (let s1 = (if quote then pslog_buffer_append_char dquote s else s);
          s2 = (case t of None \<Rightarrow> s1 | Some txs \<Rightarrow> console_escaped_loop quote txs 0 0 s1)
      in if quote then append_char_fast dquote s2 else s2)"

definition pslog_buffer_append_console_message :: "cstring option \<Rightarrow> est \<Rightarrow> est" where
  "pslog_buffer_append_console_message t s = pslog_buffer_append_console_escaped t False s"

definition pslog_buffer_append_bytes_hex :: "string \<Rightarrow> est \<Rightarrow> est" where
  "pslog_buffer_append_bytes_hex data s =
     fold (\<lambda>c s. pslog_buffer_append_char (hex_lo c) (pslog_buffer_append_char (hex_hi c) s)) data s"

section \<open>Decimal integers\<close>

definition digit_pairs :: string where
  "digit_pairs = ''00010203040506070809'' @ ''10111213141516171819'' @
     ''20212223242526272829'' @ ''30313233343536373839'' @ ''40414243444546474849'' @
     ''50515253545556575859'' @ ''60616263646566676869'' @ ''70717273747576777879'' @
     ''80818283848586878889'' @ ''90919293949596979899''"

text \<open>\<open>tmp\<close> is the part of \<open>tmp[32]\<close> from \<open>cursor\<close> on, which grows to the left.\<close>

function pairs_loop :: "64 word \<Rightarrow> string \<Rightarrow> 64 word \<times> string" where
  "pairs_loop magnitude tmp =
     (if magnitude \<ge> 100 then
        (let pair_index = unat ((magnitude mod 100) * 2)
         in pairs_loop (magnitude div 100)
              (digit_pairs ! pair_index # digit_pairs ! (pair_index + 1) # tmp))
      else (magnitude, tmp))"
  by pat_completeness auto
termination
  by (relation "measure (\<lambda>(m, tmp). unat m)")
    (auto simp: unat_div word_le_nat_alt)

declare pairs_loop.simps [simp del]

definition decimal_tmp :: "64 word \<Rightarrow> string" where
  "decimal_tmp value =
     (let (magnitude, tmp) = pairs_loop value []
      in if magnitude < 10 then char_of (48 + unat magnitude) # tmp
         else (let pair_index = unat (magnitude * 2)
               in digit_pairs ! pair_index # digit_pairs ! (pair_index + 1) # tmp))"

definition signed_tmp :: "64 word \<Rightarrow> string" where
  "signed_tmp value =
     (let negative = (value <s 0);
          magnitude = (if negative then - (value + 1) + 1 else value)
      in if negative then CHR ''-'' # decimal_tmp magnitude else decimal_tmp magnitude)"

definition pslog_buffer_append_signed :: "64 word \<Rightarrow> est \<Rightarrow> est" where
  "pslog_buffer_append_signed value s = append_n_fast (signed_tmp value) s"

definition pslog_buffer_append_unsigned :: "64 word \<Rightarrow> est \<Rightarrow> est" where
  "pslog_buffer_append_unsigned value s = append_n_fast (decimal_tmp value) s"

section \<open>The bytes the encoders append\<close>

definition u00 :: "char \<Rightarrow> string" where
  "u00 c = [bslash, CHR ''u'', CHR ''0'', CHR ''0'', hex_hi c, hex_lo c]"

definition json_escape_ascii :: "char \<Rightarrow> string" where
  "json_escape_ascii c =
     (if uc c = 34 \<or> uc c = 92 then [bslash, c]
      else if uc c = 13 then [bslash, CHR ''r'']
      else if uc c = 10 then [bslash, CHR ''n'']
      else if uc c = 9 then [bslash, CHR ''t'']
      else if uc c < 32 \<or> uc c = 91 then u00 c
      else [c])"

function json_body :: "string \<Rightarrow> string" where
  "json_body [] = []"
| "json_body (c # t) =
     (if uc c \<ge> 0x80 then
        (let n = pslog_utf8_sequence_len_n (c # t) in
         if n = 0 then u00 c @ json_body t else take n (c # t) @ json_body (drop n (c # t)))
      else json_escape_ascii c @ json_body t)"
  by pat_completeness auto
termination
  by (relation "measure length") auto

declare json_body.simps(2) [simp del]

text \<open>The table, as the code reads it: \<open>[\<close> is escaped like a control character, DEL is not.\<close>

definition escape_class :: "nat \<Rightarrow> nat" where
  "escape_class n = (if n = 34 then 1 else if n = 92 then 2 else if n = 13 then 3
     else if n = 10 then 4 else if n = 9 then 5 else if n < 32 \<or> n = 91 then 6 else 0)"

lemma escape_kind_table: "escape_kind = map escape_class [0..<256]"
  by code_simp

lemma escape_kind_eq: "n < 256 \<Longrightarrow> escape_kind ! n = escape_class n"
  by (simp add: escape_kind_table)

lemma append_pending_appends [emit_simps]:
  "ready s \<Longrightarrow> append_pending t i j s = appends (slice i j t) s"
  by (simp add: append_pending_def append_n_fast_appends)

lemma append_u00_appends [emit_simps]: "ready s \<Longrightarrow> append_u00 c s = appends (u00 c) s"
  by (simp add: append_u00_def u00_def emit_simps)

lemma append_json_escape_appends:
  "ready s \<Longrightarrow> escape_class (uc c) \<noteq> 0 \<Longrightarrow>
     append_json_escape (escape_class (uc c)) c s = appends (json_escape_ascii c) s"
  by (simp add: append_json_escape_def escape_class_def json_escape_ascii_def emit_simps
      split: if_splits) auto

lemma json_string_loop_appends:
  "ready s \<Longrightarrow> i \<le> j \<Longrightarrow> j \<le> length t \<Longrightarrow>
     json_string_loop t i j s = appends (slice i j t @ json_body (drop j t)) s"
proof (induction "length t - j" arbitrary: i j s rule: less_induct)
  case less
  show ?case
  proof (cases "j < length t")
    case False
    with less.prems show ?thesis by (simp add: json_string_loop.simps emit_simps)
  next
    case True
    define c where "c = t ! j"
    define r where "r = drop (Suc j) t"
    define n where "n = pslog_utf8_sequence_len_n (c # r)"
    have d: "drop j t = c # r" using True by (simp add: c_def r_def Cons_nth_drop_Suc)
    have n: "n \<le> length t - j" using seq_len_le [of "c # r"] d
      by (metis length_drop n_def)
    have step: "json_string_loop t (Suc j) (Suc j) (appends w s) = appends (w @ json_body r) s" for w
      using less.hyps [of "Suc j" "appends w s" "Suc j"] less.prems(1) True by (simp add: r_def)
    show ?thesis
    proof (cases "uc c \<ge> 0x80")
      case hi: True
      show ?thesis
      proof (cases "n = 0")
        case True
        with \<open>j < length t\<close> hi less.prems step show ?thesis
          by (subst json_string_loop.simps)
            (simp add: c_def [symmetric] d n_def [symmetric] emit_simps json_body.simps(2) Let_def)
      next
        case False
        then have "json_string_loop t i j s = json_string_loop t i (j + n) s"
          using \<open>j < length t\<close> hi
          by (subst json_string_loop.simps) (simp add: c_def [symmetric] d n_def [symmetric] Let_def)
        also have "\<dots> = appends (slice i (j + n) t @ json_body (drop (j + n) t)) s"
          using less.hyps [of "j + n" s i] less.prems False n True by simp
        also have "slice i (j + n) t = slice i j t @ take n (c # r)"
          using less.prems slice_append [of i j "j + n" t] by (simp add: slice_def d)
        also have "drop (j + n) t = drop n (c # r)"
          using d by (metis add.commute drop_drop)
        finally show ?thesis
          using hi False by (simp add: d json_body.simps(2) n_def [symmetric] Let_def)
      qed
    next
      case lo: False
      show ?thesis
      proof (cases "escape_class (uc c) = 0")
        case True
        then have "json_string_loop t i j s = json_string_loop t i (Suc j) s"
          using \<open>j < length t\<close> lo
          by (subst json_string_loop.simps) (simp add: c_def [symmetric] d escape_kind_eq Let_def)
        also have "\<dots> = appends (slice i (Suc j) t @ json_body r) s"
          using less.hyps [of "Suc j" s i] less.prems \<open>j < length t\<close> by (simp add: r_def)
        finally show ?thesis
          using lo True less.prems \<open>j < length t\<close>
          by (simp add: d json_body.simps(2) slice_snoc c_def [symmetric] json_escape_ascii_def
              escape_class_def split: if_splits)
      next
        case False
        with \<open>j < length t\<close> lo less.prems step show ?thesis
          by (subst json_string_loop.simps)
            (simp add: c_def [symmetric] d emit_simps json_body.simps(2) Let_def
              escape_kind_eq append_json_escape_appends)
      qed
    qed
  qed
qed

definition json_string_bytes :: "string \<Rightarrow> string" where
  "json_string_bytes t = dquote # json_body t @ [dquote]"

lemma json_string_n_appends [emit_simps]:
  "ready s \<Longrightarrow> pslog_buffer_append_json_string_n t s =
     appends (json_string_bytes (case t of None \<Rightarrow> [] | Some x \<Rightarrow> x)) s"
  by (simp add: pslog_buffer_append_json_string_n_def emit_simps json_string_loop_appends
      json_string_bytes_def Let_def split: option.splits)

lemma json_string_appends [emit_simps]:
  "ready s \<Longrightarrow> pslog_buffer_append_json_string t s =
     appends (json_string_bytes (case t of None \<Rightarrow> [] | Some x \<Rightarrow> x)) s"
  by (simp add: pslog_buffer_append_json_string_def json_string_n_appends)

lemma json_trusted_string_n_appends [emit_simps]:
  "ready s \<Longrightarrow> pslog_buffer_append_json_trusted_string_n t s =
     appends (dquote # (case t of None \<Rightarrow> [] | Some x \<Rightarrow> x) @ [dquote]) s"
  by (simp add: pslog_buffer_append_json_trusted_string_n_def emit_simps Let_def split: option.splits)

lemma json_trusted_string_appends [emit_simps]:
  "ready s \<Longrightarrow> pslog_buffer_append_json_trusted_string t s =
     appends (dquote # (case t of None \<Rightarrow> [] | Some x \<Rightarrow> x) @ [dquote]) s"
  by (simp add: pslog_buffer_append_json_trusted_string_def json_trusted_string_n_appends)

section \<open>Reading a JSON string back\<close>

text \<open>The code point of the UTF-8 sequence of length \<open>n\<close> at the front of \<open>s\<close>.\<close>

definition utf8_cp :: "nat \<Rightarrow> string \<Rightarrow> nat" where
  "utf8_cp n s =
     (if n = 1 then cat s 0
      else if n = 2 then (cat s 0 - 0xC0) * 64 + (cat s 1 - 0x80)
      else if n = 3 then (cat s 0 - 0xE0) * 4096 + (cat s 1 - 0x80) * 64 + (cat s 2 - 0x80)
      else (cat s 0 - 0xF0) * 262144 + (cat s 1 - 0x80) * 4096 + (cat s 2 - 0x80) * 64 + (cat s 3 - 0x80))"

text \<open>
  What a text means to a reader of the line: its UTF-8 sequences as code points, and each
  byte that belongs to none as the code point of the same number.
\<close>

function text_codepoints :: "string \<Rightarrow> nat list" where
  "text_codepoints [] = []"
| "text_codepoints (c # t) =
     (let n = pslog_utf8_sequence_len_n (c # t) in
      if n = 0 then uc c # text_codepoints t
      else utf8_cp n (c # t) # text_codepoints (drop n (c # t)))"
  by pat_completeness auto
termination
  by (relation "measure length") auto

declare text_codepoints.simps(2) [simp del]

definition hex4 :: "string \<Rightarrow> (nat \<times> string) option" where
  "hex4 s =
     (case s of
        a # b # c # d # t \<Rightarrow>
          (case (hex_value a, hex_value b, hex_value c, hex_value d) of
             (Some w, Some x, Some y, Some z) \<Rightarrow> Some (w * 4096 + x * 256 + y * 16 + z, t)
           | _ \<Rightarrow> None)
      | _ \<Rightarrow> None)"

lemma hex4_length: "hex4 s = Some (n, t) \<Longrightarrow> length t < length s"
  by (auto simp: hex4_def split: list.splits option.splits)

definition simple_escape :: "char \<Rightarrow> nat option" where
  "simple_escape e =
     (if uc e = 34 \<or> uc e = 92 \<or> uc e = 47 then Some (uc e)
      else if e = CHR ''b'' then Some 8 else if e = CHR ''f'' then Some 12
      else if e = CHR ''n'' then Some 10 else if e = CHR ''r'' then Some 13
      else if e = CHR ''t'' then Some 9 else None)"

text \<open>A reader of RFC 8259 strings, started after the opening quote.\<close>

function json_read_string :: "string \<Rightarrow> (nat list \<times> string) option" where
  "json_read_string [] = None"
| "json_read_string (c # t) =
     (if uc c = 34 then Some ([], t)
      else if uc c = 92 then
        (case t of [] \<Rightarrow> None
         | e # r \<Rightarrow>
             (if uc e = 117 then
                (case hex4 r of None \<Rightarrow> None
                 | Some (n, r') \<Rightarrow> map_option (apfst ((#) n)) (json_read_string r'))
              else (case simple_escape e of None \<Rightarrow> None
                    | Some n \<Rightarrow> map_option (apfst ((#) n)) (json_read_string r))))
      else if uc c < 32 then None
      else
        (let n = pslog_utf8_sequence_len_n (c # t) in
         if n = 0 then None
         else map_option (apfst ((#) (utf8_cp n (c # t)))) (json_read_string (drop n (c # t)))))"
  by pat_completeness auto
termination
  by (relation "measure length") (auto dest: hex4_length)

declare json_read_string.simps(2) [simp del]

lemma seq_len_append:
  assumes "pslog_utf8_sequence_len_n s = n" "n \<noteq> 0"
  shows "pslog_utf8_sequence_len_n (take n s @ t) = n"
proof -
  obtain cp where cp: "scalar_value cp" "utf8_encode cp = take n s"
    using seq_len_scalar [OF assms] by blast
  have "length (take n s) = n" using assms seq_len_le [of s] by auto
  with seq_len_encode [OF cp(1), of t] cp(2) length_utf8_encode [of cp] show ?thesis by simp
qed

lemma utf8_cp_cong: "take n s = take n t \<Longrightarrow> n \<le> length s \<Longrightarrow> n \<le> length t \<Longrightarrow> n \<in> {1, 2, 3, 4} \<Longrightarrow>
    utf8_cp n s = utf8_cp n t"
proof -
  assume a: "take n s = take n t" "n \<le> length s" "n \<le> length t" "n \<in> {1, 2, 3, 4}"
  have "cat s i = cat t i" if "i < n" for i
    using a that by (metis cat_def nth_take order_less_le_trans)
  with a(4) show ?thesis by (auto simp: utf8_cp_def)
qed

lemma seq_len_in: "pslog_utf8_sequence_len_n s = n \<Longrightarrow> n \<noteq> 0 \<Longrightarrow> n \<in> {1, 2, 3, 4}"
  using seq_len_cases [of s] by auto

lemma utf8_cp_append:
  assumes "pslog_utf8_sequence_len_n s = n" "n \<noteq> 0"
  shows "utf8_cp n (take n s @ t) = utf8_cp n s"
  using seq_len_in [OF assms] seq_len_le [of s] assms by (intro utf8_cp_cong) auto

lemma json_read_sequence:
  assumes "pslog_utf8_sequence_len_n (c # t) = n" "n \<noteq> 0" "0x80 \<le> uc c"
  shows "json_read_string (take n (c # t) @ r) =
    map_option (apfst ((#) (utf8_cp n (c # t)))) (json_read_string r)"
proof -
  obtain m where m: "n = Suc m" using assms(2) by (cases n) auto
  have len: "n \<le> length (c # t)" using seq_len_le [of "c # t"] assms(1) by simp
  have eq: "take n (c # t) @ r = c # (take m t @ r)" using m by simp
  have "drop n (take n (c # t) @ r) = r" using len by simp
  then show ?thesis
    using assms seq_len_append [OF assms(1,2), of r] utf8_cp_append [OF assms(1,2), of r]
    unfolding eq by (simp add: json_read_string.simps(2) Let_def)
qed

lemma json_read_u00: "json_read_string (u00 c @ r) = map_option (apfst ((#) (uc c))) (json_read_string r)"
proof -
  have "hex_value (CHR ''0'') = Some 0" by (simp add: hex_value_def)
  then show ?thesis
    by (simp add: u00_def json_read_string.simps(2) hex4_def)
qed

lemma seq_len_ascii: "uc c < 0x80 \<Longrightarrow> pslog_utf8_sequence_len_n (c # t) = 1"
  by (simp add: pslog_utf8_sequence_len_n_def)

lemma json_read_ascii:
  assumes "uc c < 0x80"
  shows "json_read_string (json_escape_ascii c @ r) = map_option (apfst ((#) (uc c))) (json_read_string r)"
proof (cases "uc c < 32 \<or> uc c = 91 \<or> uc c = 34 \<or> uc c = 92")
  case True
  then show ?thesis
    using json_read_u00 [of c r]
    by (auto simp: json_escape_ascii_def json_read_string.simps(2) simple_escape_def)
next
  case False
  with assms seq_len_ascii [OF assms, of r] show ?thesis
    by (simp add: json_escape_ascii_def json_read_string.simps(2) utf8_cp_def)
qed

lemma json_read_body:
  "json_read_string (json_body t @ dquote # r) = Some (text_codepoints t, r)"
proof (induction t rule: json_body.induct)
  case 1
  show ?case by (simp add: json_read_string.simps(2))
next
  case (2 c t)
  define n where "n = pslog_utf8_sequence_len_n (c # t)"
  show ?case
  proof (cases "uc c \<ge> 0x80")
    case True
    show ?thesis
    proof (cases "n = 0")
      case n: True
      with True 2(1) show ?thesis
        by (simp add: json_body.simps(2) text_codepoints.simps(2) n_def [symmetric] json_read_u00 Let_def)
    next
      case False
      with True 2(2) json_read_sequence [of c t n] show ?thesis
        by (simp add: json_body.simps(2) text_codepoints.simps(2) n_def [symmetric] Let_def)
    qed
  next
    case False
    with 2(3) seq_len_ascii [of c t] show ?thesis
      by (simp add: json_body.simps(2) text_codepoints.simps(2) json_read_ascii utf8_cp_def Let_def)
  qed
qed

lemma cat_encode:
  assumes "scalar_value cp" "i < length (utf8_units cp)"
  shows "cat (utf8_encode cp @ t) i = utf8_units cp ! i"
  using assms map_uc_utf8_encode [OF assms(1)]
  by (metis cat_def length_append length_utf8_encode nth_append nth_map trans_less_add1)

lemma digits_base64:
  "(n :: nat) div 64 * 64 + n mod 64 = n"
  "n div 4096 * 4096 + n div 64 mod 64 * 64 + n mod 64 = n"
  "n div 262144 * 262144 + n div 4096 mod 64 * 4096 + n div 64 mod 64 * 64 + n mod 64 = n"
proof -
  have a: "m div 64 * 64 + m mod 64 = m" for m :: nat by simp
  show "n div 64 * 64 + n mod 64 = n" by (rule a)
  show "n div 4096 * 4096 + n div 64 mod 64 * 64 + n mod 64 = n"
    unfolding div_base64 using a [of n] a [of "n div 64"] by linarith
  show "n div 262144 * 262144 + n div 4096 mod 64 * 4096 + n div 64 mod 64 * 64 + n mod 64 = n"
    unfolding div_base64 using a [of n] a [of "n div 64"] a [of "n div 64 div 64"] by linarith
qed

lemma utf8_cp_encode:
  assumes "scalar_value cp"
  shows "utf8_cp (length (utf8_units cp)) (utf8_encode cp @ t) = cp"
  using cat_encode [OF assms, of _ t] digits_base64 [of cp]
  by (simp add: utf8_cp_def utf8_units_def)

lemma seq_len_utf8_cp:
  assumes "pslog_utf8_sequence_len_n s = n" "n \<noteq> 0"
  shows "scalar_value (utf8_cp n s)" "utf8_encode (utf8_cp n s) = take n s"
proof -
  obtain cp where cp: "scalar_value cp" "utf8_encode cp = take n s"
    using seq_len_scalar [OF assms] by blast
  have "length (take n s) = n" using assms seq_len_le [of s] by auto
  with cp utf8_cp_encode [OF cp(1), of "drop n s"] have "utf8_cp n s = cp"
    by (metis append_take_drop_id length_utf8_encode)
  with cp show "scalar_value (utf8_cp n s)" "utf8_encode (utf8_cp n s) = take n s" by simp_all
qed

text \<open>On valid UTF-8 the code points determine the text.\<close>

lemma text_codepoints_valid:
  "valid_utf8 t \<Longrightarrow> concat (map utf8_encode (text_codepoints t)) = t"
proof (induction t rule: text_codepoints.induct)
  case (2 c t)
  then show ?case
    using valid_utf8_step [of "c # t"] seq_len_utf8_cp(2) [of "c # t", OF refl]
    by (simp add: text_codepoints.simps(2) Let_def)
qed simp

lemma text_codepoints_scalar: "cp \<in> set (text_codepoints t) \<Longrightarrow> scalar_value cp"
proof (induction t rule: text_codepoints.induct)
  case (2 c t)
  have "scalar_value (uc c)" by (simp add: scalar_value_def order_less_trans [OF uc_less_256])
  with 2 seq_len_utf8_cp(1) [of "c # t", OF refl] show ?case
    by (auto simp: text_codepoints.simps(2) Let_def split: if_splits)
qed simp

text \<open>A text that passed the trusted scan reads back the same way when it is copied verbatim.\<close>

lemma json_read_trusted:
  "valid_utf8 t \<Longrightarrow> \<forall>c \<in> set t. \<not> unsafe_byte (uc c) \<Longrightarrow>
     json_read_string (t @ dquote # r) = Some (text_codepoints t, r)"
proof (induction t rule: text_codepoints.induct)
  case 1
  show ?case by (simp add: json_read_string.simps(2))
next
  case (2 c t)
  define n where "n = pslog_utf8_sequence_len_n (c # t)"
  have n: "n \<noteq> 0" "valid_utf8 (drop n (c # t))"
    using 2(3) valid_utf8_step [of "c # t"] by (auto simp: n_def)
  have safe: "\<forall>x \<in> set (drop n (c # t)). \<not> unsafe_byte (uc x)"
    using 2(4) set_drop_subset by fastforce
  have IH: "json_read_string (drop n (c # t) @ dquote # r) = Some (text_codepoints (drop n (c # t)), r)"
    using 2(2) [OF n_def n(1) n(2) safe] .
  have split: "(c # t) @ dquote # r = take n (c # t) @ drop n (c # t) @ dquote # r"
    by (simp only: append.assoc [symmetric] append_take_drop_id)
  show ?case
  proof (cases "uc c \<ge> 0x80")
    case True
    with n IH json_read_sequence [of c t n "drop n (c # t) @ dquote # r"] show ?thesis
      unfolding split by (simp add: text_codepoints.simps(2) n_def [symmetric] Let_def)
  next
    case False
    have "n = 1" using False by (simp add: n_def seq_len_ascii)
    with False 2(4) IH show ?thesis
      by (simp add: json_read_string.simps(2) text_codepoints.simps(2) seq_len_ascii utf8_cp_def
          unsafe_byte_def Let_def)
  qed
qed

section \<open>Console text\<close>

definition x_escape :: "char \<Rightarrow> string" where
  "x_escape c = [bslash, CHR ''x'', hex_hi c, hex_lo c]"

definition console_escape :: "bool \<Rightarrow> char \<Rightarrow> string" where
  "console_escape quote c =
     (if uc c = 34 \<and> quote then [bslash, dquote]
      else if uc c = 92 \<and> quote then [bslash, bslash]
      else if uc c = 10 then [bslash, CHR ''n'']
      else if uc c = 13 then [bslash, CHR ''r'']
      else if uc c = 9 then [bslash, CHR ''t'']
      else if uc c < 32 \<or> uc c = 127 then x_escape c
      else [c])"

definition console_body :: "bool \<Rightarrow> string \<Rightarrow> string" where
  "console_body quote t = concat (map (console_escape quote) t)"

definition console_string_bytes :: "string \<Rightarrow> string" where
  "console_string_bytes t =
     (if \<forall>c \<in> set t. \<not> console_stop (uc c) then t else dquote # console_body True t @ [dquote])"

lemma append_x_appends [emit_simps]: "ready s \<Longrightarrow> append_x c s = appends (x_escape c) s"
  by (simp add: append_x_def x_escape_def emit_simps)

text \<open>
  Both console loops have one shape: an escaped byte ends the pending chunk, any other byte
  extends it.
\<close>

lemma chunked_loop_appends:
  assumes esc: "\<And>i j s. j < length t \<Longrightarrow> f (t ! j) \<Longrightarrow> ready s \<Longrightarrow>
      loop i j s = loop (Suc j) (Suc j) (appends (esc (t ! j)) (appends (slice i j t) s))"
    and keep: "\<And>i j s. j < length t \<Longrightarrow> \<not> f (t ! j) \<Longrightarrow> ready s \<Longrightarrow> loop i j s = loop i (Suc j) s"
    and fin: "\<And>i j s. \<not> j < length t \<Longrightarrow> ready s \<Longrightarrow> loop i j s = appends (slice i j t) s"
    and plain: "\<And>c. \<not> f c \<Longrightarrow> esc c = [c]"
  shows "ready s \<Longrightarrow> i \<le> j \<Longrightarrow> j \<le> length t \<Longrightarrow>
    loop i j s = appends (slice i j t @ concat (map esc (drop j t))) s"
proof (induction "length t - j" arbitrary: i j s rule: less_induct)
  case less
  show ?case
  proof (cases "j < length t")
    case False
    with less.prems fin show ?thesis by simp
  next
    case True
    then have d: "drop j t = t ! j # drop (Suc j) t" by (rule drop_eq_Cons_nth)
    have lt: "length t - Suc j < length t - j" and le: "Suc j \<le> length t" using True by auto
    show ?thesis
    proof (cases "f (t ! j)")
      case f: True
      have "ready (appends (esc (t ! j)) (appends (slice i j t) s))" using less.prems by simp
      from less.hyps [OF lt this order.refl le] esc [OF True f less.prems(1)] show ?thesis
        by (simp add: d)
    next
      case nf: False
      from less.hyps [OF lt less.prems(1) _ le, of i] keep [OF True nf less.prems(1)] less.prems True
      show ?thesis by (simp add: d plain [OF nf] slice_snoc)
    qed
  qed
qed

lemma console_string_loop_appends:
  "ready s \<Longrightarrow> i \<le> j \<Longrightarrow> j \<le> length t \<Longrightarrow>
     console_string_loop t i j s = appends (slice i j t @ console_body True (drop j t)) s"
  unfolding console_body_def
proof (rule chunked_loop_appends [where f = "\<lambda>c. uc c = 34 \<or> uc c = 92 \<or> uc c < 32 \<or> uc c = 127"])
  fix i j s
  assume "j < length t" "uc (t ! j) = 34 \<or> uc (t ! j) = 92 \<or> uc (t ! j) < 32 \<or> uc (t ! j) = 127" "ready s"
  then show "console_string_loop t i j s = console_string_loop t (Suc j) (Suc j)
      (appends (console_escape True (t ! j)) (appends (slice i j t) s))"
    by (subst console_string_loop.simps) (auto simp: Let_def console_escape_def emit_simps)
next
  fix i j s
  assume "j < length t" "\<not> (uc (t ! j) = 34 \<or> uc (t ! j) = 92 \<or> uc (t ! j) < 32 \<or> uc (t ! j) = 127)"
  then show "console_string_loop t i j s = console_string_loop t i (Suc j) s"
    by (subst console_string_loop.simps) (simp add: Let_def)
next
  fix i j s
  assume "\<not> j < length t" "ready s"
  then show "console_string_loop t i j s = appends (slice i j t) s"
    by (subst console_string_loop.simps) (simp add: emit_simps)
qed (simp_all add: console_escape_def)

lemma console_escaped_loop_appends:
  "ready s \<Longrightarrow> i \<le> j \<Longrightarrow> j \<le> length t \<Longrightarrow>
     console_escaped_loop quote t i j s = appends (slice i j t @ console_body quote (drop j t)) s"
  unfolding console_body_def
proof (rule chunked_loop_appends [where
      f = "\<lambda>c. quote \<and> (uc c = 34 \<or> uc c = 92) \<or> uc c < 32 \<or> uc c = 127"])
  fix i j s
  assume "j < length t" "quote \<and> (uc (t ! j) = 34 \<or> uc (t ! j) = 92) \<or> uc (t ! j) < 32 \<or> uc (t ! j) = 127" "ready s"
  then show "console_escaped_loop quote t i j s = console_escaped_loop quote t (Suc j) (Suc j)
      (appends (console_escape quote (t ! j)) (appends (slice i j t) s))"
    by (subst console_escaped_loop.simps) (auto simp: Let_def console_escape_def emit_simps)
next
  fix i j s
  assume "j < length t" "\<not> (quote \<and> (uc (t ! j) = 34 \<or> uc (t ! j) = 92) \<or> uc (t ! j) < 32 \<or> uc (t ! j) = 127)"
  then show "console_escaped_loop quote t i j s = console_escaped_loop quote t i (Suc j) s"
    by (subst console_escaped_loop.simps) (cases quote; simp add: Let_def)
next
  fix i j s
  assume "\<not> j < length t" "ready s"
  then show "console_escaped_loop quote t i j s = appends (slice i j t) s"
    by (subst console_escaped_loop.simps) (simp add: emit_simps)
next
  fix c
  assume "\<not> (quote \<and> (uc c = 34 \<or> uc c = 92) \<or> uc c < 32 \<or> uc c = 127)"
  then show "console_escape quote c = [c]" by (auto simp: console_escape_def)
qed

lemma console_scan_le: "console_scan t \<le> length t"
  by (induction t) auto

lemma console_scan_all: "console_scan t = length t \<longleftrightarrow> (\<forall>c \<in> set t. \<not> console_stop (uc c))"
proof (induction t)
  case (Cons c t)
  with console_scan_le [of t] show ?case by auto
qed simp

lemma console_body_scan: "console_body True (take (console_scan t) t) = take (console_scan t) t"
  by (induction t) (auto simp: console_body_def console_escape_def console_stop_def)

lemma console_body_append: "console_body q (a @ b) = console_body q a @ console_body q b"
  by (simp add: console_body_def)

lemma console_string_appends [emit_simps]:
  assumes "ready s"
  shows "pslog_buffer_append_console_string t s =
    appends (console_string_bytes (case t of None \<Rightarrow> [] | Some x \<Rightarrow> x)) s"
proof (cases t)
  case None
  then show ?thesis by (simp add: pslog_buffer_append_console_string_def console_string_bytes_def)
next
  case (Some txs)
  let ?k = "console_scan txs"
  have "?thesis" if lt: "?k < length txs"
  proof -
    have "console_body True txs = take ?k txs @ console_body True (drop ?k txs)"
      using console_body_append [of True "take ?k txs" "drop ?k txs"] console_body_scan [of txs] by simp
    then have bytes: "console_string_bytes txs = dquote # take ?k txs @ console_body True (drop ?k txs) @ [dquote]"
      using lt console_scan_all [of txs] by (auto simp: console_string_bytes_def)
    have ne: "txs \<noteq> []" using lt by auto
    have take: "(if ?k > 0 then append_n_fast (take ?k txs) u else u) = appends (take ?k txs) u"
      if "ready u" for u
      using that by (simp add: emit_simps)
    show ?thesis
      using assms lt ne
      by (simp add: Some pslog_buffer_append_console_string_def Let_def bytes take
          append_char_fast_appends console_string_loop_appends)
  qed
  moreover have "?k = length txs \<Longrightarrow> ?thesis"
    using assms Some console_scan_all [of txs]
    by (simp add: pslog_buffer_append_console_string_def console_string_bytes_def emit_simps)
  ultimately show ?thesis using console_scan_le [of txs] by linarith
qed

lemma console_escaped_appends [emit_simps]:
  "ready s \<Longrightarrow> pslog_buffer_append_console_escaped t quote s =
     appends ((if quote then [dquote] else []) @ console_body quote (case t of None \<Rightarrow> [] | Some x \<Rightarrow> x) @
       (if quote then [dquote] else [])) s"
  by (auto simp: pslog_buffer_append_console_escaped_def Let_def emit_simps console_body_def
      console_escaped_loop_appends split: option.splits)

lemma console_message_appends [emit_simps]:
  "ready s \<Longrightarrow> pslog_buffer_append_console_message t s =
     appends (console_body False (case t of None \<Rightarrow> [] | Some x \<Rightarrow> x)) s"
  by (simp add: pslog_buffer_append_console_message_def console_escaped_appends)

section \<open>Decimal text\<close>

definition digit_char :: "nat \<Rightarrow> char" where
  "digit_char d = char_of (48 + d)"

fun nat_digits :: "nat \<Rightarrow> string" where
  "nat_digits n = (if n < 10 then [digit_char n] else nat_digits (n div 10) @ [digit_char (n mod 10)])"

declare nat_digits.simps [simp del]

definition int_digits :: "int \<Rightarrow> string" where
  "int_digits i = (if i < 0 then CHR ''-'' # nat_digits (nat (- i)) else nat_digits (nat i))"

definition read_nat :: "string \<Rightarrow> nat" where
  "read_nat t = foldl (\<lambda>n c. n * 10 + (uc c - 48)) 0 t"

definition read_int :: "string \<Rightarrow> int" where
  "read_int t = (case t of c # r \<Rightarrow> if c = CHR ''-'' then - int (read_nat r) else int (read_nat t) | [] \<Rightarrow> 0)"

definition is_digit :: "char \<Rightarrow> bool" where
  "is_digit c = (48 \<le> uc c \<and> uc c \<le> 57)"

lemma uc_digit_char: "d < 10 \<Longrightarrow> uc (digit_char d) = 48 + d"
  by (simp add: digit_char_def)

lemma digit_pairs_table: "digit_pairs = concat (map (\<lambda>p. [digit_char (p div 10), digit_char (p mod 10)]) [0..<100])"
  by code_simp

lemma nth_concat_pairs:
  "i < length xs \<Longrightarrow> concat (map (\<lambda>p. [f p, g p]) xs) ! (2 * i) = f (xs ! i) \<and>
     concat (map (\<lambda>p. [f p, g p]) xs) ! Suc (2 * i) = g (xs ! i)"
proof (induction xs arbitrary: i)
  case (Cons x xs)
  then show ?case by (cases i) auto
qed simp

lemma digit_pairs_nth:
  assumes "p < 100"
  shows "digit_pairs ! (p * 2) = digit_char (p div 10)" "digit_pairs ! (p * 2 + 1) = digit_char (p mod 10)"
  using nth_concat_pairs [of p "[0..<100]" "\<lambda>p. digit_char (p div 10)" "\<lambda>p. digit_char (p mod 10)"] assms
  by (simp_all add: digit_pairs_table mult.commute)

lemma nat_digits_pair:
  "nat_digits (n * 100 + p) = nat_digits n @ [digit_char (p div 10), digit_char (p mod 10)]"
  if "0 < n" "p < 100"
proof -
  have 1: "(n * 100 + p) div 10 = n * 10 + p div 10" "(n * 100 + p) mod 10 = p mod 10"
    by (simp_all add: mod_add_left_eq [symmetric] div_add1_eq)
  have 2: "(n * 10 + p div 10) div 10 = n" "(n * 10 + p div 10) mod 10 = p div 10" using that by simp_all
  show ?thesis
    using that by (subst nat_digits.simps, simp add: 1, subst nat_digits.simps, simp add: 2)
qed


lemma unat_pair_index: "unat ((m :: 64 word) mod 100 * 2) = (unat m mod 100) * 2"
proof -
  have "unat (m mod 100) = unat m mod 100" by (simp add: unat_mod)
  moreover have "unat m mod 100 * 2 < 2 ^ 64" by (rule order_less_trans [of _ 200]) simp_all
  ultimately show ?thesis by (subst unat_mult_lem [THEN iffD1]) simp_all
qed

lemma pairs_loop_digits:
  "pairs_loop m tmp = (m', tmp') \<Longrightarrow>
     unat m' < 100 \<and> nat_digits (unat m') @ tmp' = nat_digits (unat m) @ tmp"
proof (induction m tmp rule: pairs_loop.induct)
  case (1 m tmp)
  show ?case
  proof (cases "m \<ge> 100")
    case True
    define p where "p = unat m mod 100"
    define q where "q = unat m div 100"
    have p: "p < 100" and q: "0 < q" and m: "unat m = q * 100 + p"
      using True by (simp_all add: p_def q_def word_le_nat_alt)
    have "pairs_loop m tmp = pairs_loop (m div 100) (digit_char (p div 10) # digit_char (p mod 10) # tmp)"
      using True digit_pairs_nth [OF p]
      by (subst pairs_loop.simps) (simp add: Let_def unat_pair_index p_def [symmetric])
    with 1 True digit_pairs_nth [OF p] have "unat m' < 100 \<and> nat_digits (unat m') @ tmp' =
        nat_digits (unat (m div 100)) @ digit_char (p div 10) # digit_char (p mod 10) # tmp"
      by (simp add: unat_pair_index p_def [symmetric])
    moreover have "unat (m div 100) = q" by (simp add: q_def unat_div)
    ultimately show ?thesis using nat_digits_pair [OF q p] by (simp add: m)
  next
    case False
    with 1(2) show ?thesis
      by (subst (asm) pairs_loop.simps) (auto simp: word_le_nat_alt)
  qed
qed

lemma decimal_tmp_digits: "decimal_tmp m = nat_digits (unat m)"
proof -
  obtain m' tmp' where r: "pairs_loop m [] = (m', tmp')" by fastforce
  note d = pairs_loop_digits [OF r]
  show ?thesis
  proof (cases "m' < 10")
    case True
    then have "nat_digits (unat m') = [char_of (48 + unat m')]"
      by (subst nat_digits.simps) (simp add: word_less_nat_alt digit_char_def)
    with True d show ?thesis by (simp add: decimal_tmp_def r)
  next
    case False
    define p where "p = unat m'"
    have p: "10 \<le> p" "p < 100" using False d by (simp_all add: p_def word_less_nat_alt)
    have "unat (m' * 2) = p * 2"
      using p by (subst unat_mult_lem [THEN iffD1]) (simp_all add: p_def)
    moreover have "nat_digits p = [digit_char (p div 10), digit_char (p mod 10)]"
      using p by (subst nat_digits.simps, simp, subst nat_digits.simps, simp)
    ultimately show ?thesis
      using False d digit_pairs_nth [OF p(2)]
      by (simp add: decimal_tmp_def r p_def [symmetric] Let_def)
  qed
qed

lemma uint_word_of_int_self: "0 \<le> k \<Longrightarrow> k < 2 ^ 64 \<Longrightarrow> uint (word_of_int k :: 64 word) = k"
  by (simp add: uint_word_of_int)

lemma unat_neg_sint:
  assumes "sint (v :: 64 word) < 0"
  shows "unat (- v) = nat (- sint v)"
proof -
  have "- (2 ^ 63) \<le> sint v" using sint_ge [of v] by simp
  then have "uint (word_of_int (- sint v) :: 64 word) = - sint v"
    using assms by (intro uint_word_of_int_self) simp_all
  then show ?thesis by (simp add: unat_eq_nat_uint)
qed

lemma unat_sint:
  assumes "0 \<le> sint (v :: 64 word)"
  shows "unat v = nat (sint v)"
proof -
  have "sint v < 2 ^ 63" using sint_lt [of v] by simp
  then have "uint (word_of_int (sint v) :: 64 word) = sint v"
    using assms by (intro uint_word_of_int_self) simp_all
  then show ?thesis by (simp add: unat_eq_nat_uint)
qed

lemma signed_tmp_digits: "signed_tmp v = int_digits (sint v)"
  by (cases "sint v < 0")
    (simp_all add: signed_tmp_def int_digits_def decimal_tmp_digits word_sless_alt unat_neg_sint unat_sint)

lemma nat_digits_all: "c \<in> set (nat_digits n) \<Longrightarrow> is_digit c"
proof (induction n rule: nat_digits.induct)
  case (1 n)
  then show ?case
    by (subst (asm) nat_digits.simps) (auto simp: is_digit_def uc_digit_char split: if_splits)
qed

lemma nat_digits_nonempty [simp]: "nat_digits n \<noteq> []"
  by (subst nat_digits.simps) simp

lemma read_nat_snoc: "read_nat (t @ [c]) = read_nat t * 10 + (uc c - 48)"
  by (simp add: read_nat_def)

lemma read_nat_digits: "read_nat (nat_digits n) = n"
proof (induction n rule: nat_digits.induct)
  case (1 n)
  show ?case
  proof (cases "n < 10")
    case True
    then show ?thesis by (subst nat_digits.simps) (simp add: read_nat_def uc_digit_char)
  next
    case False
    with 1 have "read_nat (nat_digits (n div 10)) = n div 10" by simp
    with False show ?thesis by (subst nat_digits.simps) (simp add: read_nat_snoc uc_digit_char)
  qed
qed

lemma read_int_digits: "read_int (int_digits i) = i"
proof (cases "i < 0")
  case True
  then show ?thesis by (simp add: read_int_def int_digits_def read_nat_digits)
next
  case False
  obtain c r where cr: "nat_digits (nat i) = c # r" by (cases "nat_digits (nat i)") auto
  then have "is_digit c" using nat_digits_all [of c "nat i"] by simp
  then have "c \<noteq> CHR ''-''" by (auto simp: is_digit_def)
  with False cr read_nat_digits [of "nat i"] show ?thesis by (simp add: read_int_def int_digits_def)
qed

lemma length_nat_digits: "n < 10 ^ k \<Longrightarrow> 0 < k \<Longrightarrow> length (nat_digits n) \<le> k"
proof (induction k arbitrary: n)
  case (Suc k)
  show ?case
  proof (cases "n < 10")
    case True
    then show ?thesis by (subst nat_digits.simps) simp
  next
    case False
    with Suc.prems have "n div 10 < 10 ^ k" "0 < k" by (cases k; simp; linarith)+
    with Suc.IH [of "n div 10"] False show ?thesis by (subst nat_digits.simps) simp
  qed
qed simp


lemma append_signed_appends [emit_simps]:
  "ready s \<Longrightarrow> pslog_buffer_append_signed v s = appends (int_digits (sint v)) s"
  by (simp add: pslog_buffer_append_signed_def emit_simps signed_tmp_digits)

lemma append_unsigned_appends [emit_simps]:
  "ready s \<Longrightarrow> pslog_buffer_append_unsigned v s = appends (nat_digits (unat v)) s"
  by (simp add: pslog_buffer_append_unsigned_def emit_simps decimal_tmp_digits)

section \<open>Hexadecimal bytes\<close>

definition hex_bytes :: "string \<Rightarrow> string" where
  "hex_bytes data = concat (map (\<lambda>c. [hex_hi c, hex_lo c]) data)"

fun read_hex :: "string \<Rightarrow> string option" where
  "read_hex [] = Some []"
| "read_hex [c] = None"
| "read_hex (a # b # t) =
     (case (hex_value a, hex_value b, read_hex t) of
        (Some x, Some y, Some r) \<Rightarrow> Some (char_of (x * 16 + y) # r)
      | _ \<Rightarrow> None)"

lemma read_hex_bytes: "read_hex (hex_bytes data) = Some data"
  by (induction data) (simp_all add: hex_bytes_def)

lemma bytes_hex_appends [emit_simps]:
  "ready s \<Longrightarrow> pslog_buffer_append_bytes_hex data s = appends (hex_bytes data) s"
proof (induction data arbitrary: s)
  case (Cons c data)
  from Cons.IH [of "appends [hex_hi c, hex_lo c] s"] Cons.prems show ?case
    by (simp add: pslog_buffer_append_bytes_hex_def hex_bytes_def append_char_appends)
qed (simp add: pslog_buffer_append_bytes_hex_def hex_bytes_def)

section \<open>Lengths and printable bytes\<close>

lemma length_int_digits:
  assumes "- (10 ^ k) < i" "i < 10 ^ k" "0 < k"
  shows "length (int_digits i) \<le> k + 1"
proof -
  have "nat i < 10 ^ k" "nat (- i) < 10 ^ k" using assms by (simp_all add: nat_less_iff)
  then have "length (nat_digits (nat i)) \<le> k" "length (nat_digits (nat (- i))) \<le> k"
    using length_nat_digits [OF _ assms(3)] by blast+
  then show ?thesis by (simp add: int_digits_def)
qed

lemma hex_printable:
  "32 \<le> uc (hex_hi c) \<and> uc (hex_hi c) \<noteq> 127 \<and> 32 \<le> uc (hex_lo c) \<and> uc (hex_lo c) \<noteq> 127"
  using uc_hex_hi [of c] uc_hex_lo [of c] by linarith

lemma console_escape_printable: "list_all (\<lambda>c. 32 \<le> uc c \<and> uc c \<noteq> 127) (console_escape q c)"
  using hex_printable [of c] by (simp add: console_escape_def x_escape_def)

lemma console_body_printable: "list_all (\<lambda>c. 32 \<le> uc c \<and> uc c \<noteq> 127) (console_body q t)"
  by (induction t) (simp_all add: console_body_def console_escape_printable)

lemma console_string_printable: "list_all (\<lambda>c. 32 \<le> uc c \<and> uc c \<noteq> 127) (console_string_bytes t)"
proof (cases "\<forall>c \<in> set t. \<not> console_stop (uc c)")
  case True
  then have "list_all (\<lambda>c. 32 \<le> uc c \<and> uc c \<noteq> 127) t"
    by (auto simp: list_all_iff console_stop_def)
  with True show ?thesis by (simp add: console_string_bytes_def)
next
  case False
  then show ?thesis using console_body_printable by (auto simp: console_string_bytes_def)
qed

section \<open>Properties\<close>

text \<open>
  Claim C6. JSON strings are correct for arbitrary bytes: what the escaping writer appends is a
  quoted string that an RFC 8259 reader accepts in full, and the reader gets the code points of the
  text back, every byte outside a UTF-8 sequence as the code point of the same number. On valid
  UTF-8 those code points encode to the original bytes.
\<close>

theorem json_string_roundtrip:
  assumes "ready s"
  shows "\<exists>body. pslog_buffer_append_json_string_n (Some t) s = appends (CHR 0x22 # body) s \<and>
    json_read_string (body @ rest) = Some (text_codepoints t, rest) \<and>
    (valid_utf8 t \<longrightarrow> concat (map utf8_encode (text_codepoints t)) = t)"
  using assms json_read_body [of t rest]
  by (intro exI [where x = "json_body t @ [dquote]"])
    (simp add: emit_simps json_string_bytes_def text_codepoints_valid)

lemma json_string_roundtrip_witness:
  "\<exists>body. pslog_buffer_append_json_string_n (Some ''say \"hi\"'') (demo_est (S_user 1) 16 (\<lambda>_. Accept)) =
      appends (CHR 0x22 # body) (demo_est (S_user 1) 16 (\<lambda>_. Accept)) \<and>
    json_read_string (body @ ''}'') = Some (text_codepoints ''say \"hi\"'', ''}'')"
  using json_string_roundtrip [of "demo_est (S_user 1) 16 (\<lambda>_. Accept)" "''say \"hi\"''" "''}''"]
  by (auto simp: demo_eqs ready_def)




text \<open>
  Claim C32. Console output cannot be used to forge lines or terminal sequences: whatever the text,
  neither a quoted or bare console string nor a message appends a control byte, ESC, DEL or
  newline.
\<close>

theorem console_text_has_no_controls:
  assumes "ready s"
  shows "\<exists>bytes message. pslog_buffer_append_console_string (Some t) s = appends bytes s \<and>
      pslog_buffer_append_console_message (Some t) s = appends message s \<and>
      list_all (\<lambda>c. 32 \<le> uc c \<and> uc c \<noteq> 127) (bytes @ message)"
  using assms console_string_printable [of t] console_body_printable [of False t]
  by (intro exI [where x = "console_string_bytes t"] exI [where x = "console_body False t"])
    (simp add: console_string_appends console_message_appends)

lemma console_text_has_no_controls_witness:
  "\<exists>bytes message. pslog_buffer_append_console_string (Some [CHR 0x1B, CHR ''m'']) (demo_est (S_user 1) 16 (\<lambda>_. Accept)) =
      appends bytes (demo_est (S_user 1) 16 (\<lambda>_. Accept)) \<and>
      list_all (\<lambda>c. 32 \<le> uc c \<and> uc c \<noteq> 127) (bytes @ message)"
  using console_text_has_no_controls [of "demo_est (S_user 1) 16 (\<lambda>_. Accept)" "[CHR 0x1B, CHR ''m'']"]
  by (auto simp: demo_eqs ready_def)

end
