(* ===== verification/Levels.thy ===== *)
theory Levels
  imports Encode
begin

text \<open>
  Levels and the small text parsers of \<open>src/pslog.c\<close>: level names and labels, the level filter,
  and the trimming, case-insensitive readers of environment values.
\<close>

section \<open>Trimming and comparing\<close>

fun skip_space :: "cstring \<Rightarrow> cstring" where
  "skip_space [] = []"
| "skip_space (c # t) = (if isspace c then skip_space t else c # t)"

definition trim :: "cstring \<Rightarrow> cstring" where
  "trim t = rev (skip_space (rev (skip_space t)))"

text \<open>The string the copy leaves in \<open>dst[dst_size]\<close>.\<close>

definition pslog_trim_copy :: "nat \<Rightarrow> cstring option \<Rightarrow> cstring" where
  "pslog_trim_copy dst_size t =
     (case t of None \<Rightarrow> []
      | Some s \<Rightarrow> (let r = trim s; len = length r
                   in take (if len \<ge> dst_size then dst_size - 1 else len) r))"

fun pslog_string_iequal_loop :: "cstring \<Rightarrow> cstring \<Rightarrow> bool" where
  "pslog_string_iequal_loop (a # l) (b # r) =
     (if tolower a \<noteq> tolower b then False else pslog_string_iequal_loop l r)"
| "pslog_string_iequal_loop l r = (l = [] \<and> r = [])"

definition pslog_string_iequal :: "cstring option \<Rightarrow> cstring option \<Rightarrow> bool" where
  "pslog_string_iequal lhs rhs =
     (case (lhs, rhs) of (Some l, Some r) \<Rightarrow> pslog_string_iequal_loop l r | _ \<Rightarrow> False)"

fun has_prefix_ci_loop :: "cstring \<Rightarrow> cstring \<Rightarrow> bool" where
  "has_prefix_ci_loop t [] = True"
| "has_prefix_ci_loop [] (p # ps) = False"
| "has_prefix_ci_loop (c # t) (p # ps) =
     (if tolower c \<noteq> tolower p then False else has_prefix_ci_loop t ps)"

definition pslog_string_has_prefix_ci :: "cstring option \<Rightarrow> cstring option \<Rightarrow> bool" where
  "pslog_string_has_prefix_ci t p =
     (case (t, p) of (Some s, Some q) \<Rightarrow> has_prefix_ci_loop s q | _ \<Rightarrow> False)"

section \<open>Level names\<close>

fun pslog_level_string :: "pslog_level \<Rightarrow> cstring" where
  "pslog_level_string LEVEL_TRACE = ''trace''"
| "pslog_level_string LEVEL_DEBUG = ''debug''"
| "pslog_level_string LEVEL_INFO = ''info''"
| "pslog_level_string LEVEL_WARN = ''warn''"
| "pslog_level_string LEVEL_ERROR = ''error''"
| "pslog_level_string LEVEL_FATAL = ''fatal''"
| "pslog_level_string LEVEL_PANIC = ''panic''"
| "pslog_level_string LEVEL_NOLEVEL = ''nolevel''"
| "pslog_level_string LEVEL_DISABLED = ''disabled''"
| "pslog_level_string (LEVEL_OTHER _) = ''info''"

fun pslog_level_string_len :: "pslog_level \<Rightarrow> nat" where
  "pslog_level_string_len LEVEL_TRACE = 5"
| "pslog_level_string_len LEVEL_DEBUG = 5"
| "pslog_level_string_len LEVEL_ERROR = 5"
| "pslog_level_string_len LEVEL_FATAL = 5"
| "pslog_level_string_len LEVEL_PANIC = 5"
| "pslog_level_string_len LEVEL_INFO = 4"
| "pslog_level_string_len LEVEL_WARN = 4"
| "pslog_level_string_len LEVEL_NOLEVEL = 7"
| "pslog_level_string_len LEVEL_DISABLED = 8"
| "pslog_level_string_len (LEVEL_OTHER _) = 4"

fun pslog_level_console_label :: "pslog_level \<Rightarrow> cstring" where
  "pslog_level_console_label LEVEL_TRACE = ''TRC''"
| "pslog_level_console_label LEVEL_DEBUG = ''DBG''"
| "pslog_level_console_label LEVEL_INFO = ''INF''"
| "pslog_level_console_label LEVEL_WARN = ''WRN''"
| "pslog_level_console_label LEVEL_ERROR = ''ERR''"
| "pslog_level_console_label LEVEL_FATAL = ''FTL''"
| "pslog_level_console_label LEVEL_PANIC = ''PNC''"
| "pslog_level_console_label LEVEL_NOLEVEL = ''---''"
| "pslog_level_console_label LEVEL_DISABLED = ''INF''"
| "pslog_level_console_label (LEVEL_OTHER _) = ''INF''"

definition pslog_level_console_label_len :: "pslog_level \<Rightarrow> nat" where
  "pslog_level_console_label_len level = 3"

fun pslog_level_color :: "pslog_palette \<Rightarrow> pslog_level \<Rightarrow> cstring" where
  "pslog_level_color palette LEVEL_TRACE = p_trace palette"
| "pslog_level_color palette LEVEL_DEBUG = p_debug palette"
| "pslog_level_color palette LEVEL_INFO = p_info palette"
| "pslog_level_color palette LEVEL_WARN = p_warn palette"
| "pslog_level_color palette LEVEL_ERROR = p_error palette"
| "pslog_level_color palette LEVEL_FATAL = p_fatal palette"
| "pslog_level_color palette LEVEL_PANIC = p_panic palette"
| "pslog_level_color palette LEVEL_NOLEVEL = p_null_value palette"
| "pslog_level_color palette LEVEL_DISABLED = p_info palette"
| "pslog_level_color palette (LEVEL_OTHER _) = p_info palette"

text \<open>
  \<open>level_color_lens[i]\<close> is the length \<open>pslog_new\<close> measured of the same palette member.
\<close>

definition level_color_lens :: "shared_cfg \<Rightarrow> nat \<Rightarrow> nat" where
  "level_color_lens cfg i =
     (let p = c_palette cfg
      in length ([p_trace p, p_debug p, p_info p, p_warn p, p_error p, p_fatal p, p_panic p,
                  p_null_value p] ! i))"

fun pslog_level_color_len :: "shared_cfg \<Rightarrow> pslog_level \<Rightarrow> nat" where
  "pslog_level_color_len cfg LEVEL_TRACE = level_color_lens cfg 0"
| "pslog_level_color_len cfg LEVEL_DEBUG = level_color_lens cfg 1"
| "pslog_level_color_len cfg LEVEL_INFO = level_color_lens cfg 2"
| "pslog_level_color_len cfg LEVEL_WARN = level_color_lens cfg 3"
| "pslog_level_color_len cfg LEVEL_ERROR = level_color_lens cfg 4"
| "pslog_level_color_len cfg LEVEL_FATAL = level_color_lens cfg 5"
| "pslog_level_color_len cfg LEVEL_PANIC = level_color_lens cfg 6"
| "pslog_level_color_len cfg LEVEL_NOLEVEL = level_color_lens cfg 7"
| "pslog_level_color_len cfg LEVEL_DISABLED = level_color_lens cfg 2"
| "pslog_level_color_len cfg (LEVEL_OTHER _) = level_color_lens cfg 2"

text \<open>The slot of a level in the tables of prepared fragments.\<close>

fun level_slot :: "pslog_level \<Rightarrow> nat" where
  "level_slot LEVEL_TRACE = 0"
| "level_slot LEVEL_DEBUG = 1"
| "level_slot LEVEL_INFO = 2"
| "level_slot LEVEL_WARN = 3"
| "level_slot LEVEL_ERROR = 4"
| "level_slot LEVEL_FATAL = 5"
| "level_slot LEVEL_PANIC = 6"
| "level_slot LEVEL_NOLEVEL = 7"
| "level_slot LEVEL_DISABLED = 2"
| "level_slot (LEVEL_OTHER _) = 2"

definition pslog_append_level_label :: "shared_cfg \<Rightarrow> pslog_level \<Rightarrow> est \<Rightarrow> est" where
  "pslog_append_level_label cfg level s =
     append_n_fast (c_console_level_fragments cfg (level_slot level)) s"

definition pslog_parse_level :: "cstring option \<Rightarrow> pslog_level option" where
  "pslog_parse_level t =
     (case t of None \<Rightarrow> None
      | Some _ \<Rightarrow>
          (let normalized = map tolower (pslog_trim_copy 16 t) in
           if normalized = ''trace'' then Some LEVEL_TRACE
           else if normalized = ''debug'' then Some LEVEL_DEBUG
           else if normalized = ''info'' then Some LEVEL_INFO
           else if normalized = ''warn'' \<or> normalized = ''warning'' then Some LEVEL_WARN
           else if normalized = ''error'' then Some LEVEL_ERROR
           else if normalized = ''fatal'' then Some LEVEL_FATAL
           else if normalized = ''panic'' then Some LEVEL_PANIC
           else if normalized = ''no'' \<or> normalized = ''none'' \<or> normalized = ''nolevel''
             then Some LEVEL_NOLEVEL
           else if normalized = ''disabled'' \<or> normalized = ''off'' then Some LEVEL_DISABLED
           else None))"

text \<open>\<open>closed\<close> is \<open>shared->closed\<close>, \<open>impl\<close> a logger that is not NULL.\<close>

definition pslog_should_log :: "bool \<Rightarrow> pslog_logger_impl \<Rightarrow> pslog_level \<Rightarrow> bool" where
  "pslog_should_log closed impl level =
     (if closed then False
      else if level = LEVEL_DISABLED then False
      else if level = LEVEL_FATAL \<or> level = LEVEL_PANIC then True
      else if i_min_level impl = LEVEL_DISABLED then False
      else
        (let threshold = (if i_min_level impl = LEVEL_NOLEVEL then LEVEL_INFO else i_min_level impl)
         in level \<ge> threshold))"

section \<open>Values from the environment\<close>

definition pslog_parse_bool_value :: "cstring option \<Rightarrow> bool option" where
  "pslog_parse_bool_value t =
     (case t of None \<Rightarrow> None
      | Some _ \<Rightarrow>
          (let normalized = map tolower (pslog_trim_copy 16 t) in
           if normalized = ''1'' \<or> normalized = ''true'' \<or> normalized = ''yes'' \<or> normalized = ''on''
             then Some True
           else if normalized = ''0'' \<or> normalized = ''false'' \<or> normalized = ''no'' \<or> normalized = ''off''
             then Some False
           else None))"

definition pslog_parse_mode_value :: "cstring option \<Rightarrow> pslog_mode option" where
  "pslog_parse_mode_value t =
     (case t of None \<Rightarrow> None
      | Some _ \<Rightarrow>
          (let normalized = map tolower (pslog_trim_copy 16 t) in
           if normalized = ''json'' \<or> normalized = ''structured'' then Some MODE_JSON
           else if normalized = ''console'' then Some MODE_CONSOLE
           else None))"

definition is_octal :: "char \<Rightarrow> bool" where
  "is_octal c = (48 \<le> uc c \<and> uc c \<le> 55)"

text \<open>\<open>strtoul(cursor, NULL, 8)\<close> on octal digits, with its saturation at \<open>ULONG_MAX\<close>.\<close>

definition octal_value :: "cstring \<Rightarrow> nat" where
  "octal_value t = foldl (\<lambda>n c. n * 8 + (uc c - 48)) 0 t"

definition strtoul8 :: "cstring \<Rightarrow> nat" where
  "strtoul8 t = min (octal_value t) size_max"

text \<open>511 is the octal constant 0777.\<close>

definition pslog_parse_file_mode :: "cstring option \<Rightarrow> nat option" where
  "pslog_parse_file_mode t =
     (case t of None \<Rightarrow> None
      | Some _ \<Rightarrow>
          (let trimmed = pslog_trim_copy 32 t in
           if trimmed = [] then None
           else
             (let cursor = (if cat trimmed 0 = 48 \<and> (cat trimmed 1 = 111 \<or> cat trimmed 1 = 79)
                            then drop 2 trimmed else trimmed)
              in if cursor = [] then None
                 else if \<not> list_all is_octal cursor then None
                 else if strtoul8 cursor > 511 then None
                 else Some (strtoul8 cursor))))"

definition pslog_env_prefix :: "cstring option \<Rightarrow> cstring" where
  "pslog_env_prefix p = (case p of None \<Rightarrow> ''LOG_'' | Some s \<Rightarrow> if s = [] then ''LOG_'' else s)"

definition pslog_env_copy :: "nat \<Rightarrow> cstring \<Rightarrow> cstring \<Rightarrow> cstring option" where
  "pslog_env_copy dst_size p sfx =
     (if length p + length sfx + 1 > dst_size then None else Some (p @ sfx))"

definition pslog_normalize_non_finite_float_policy ::
  "pslog_non_finite_float_policy \<Rightarrow> pslog_non_finite_float_policy" where
  "pslog_normalize_non_finite_float_policy policy =
     (case policy of NON_FINITE_FLOAT_AS_NULL \<Rightarrow> policy | _ \<Rightarrow> NON_FINITE_FLOAT_AS_STRING)"

section \<open>Lemmas\<close>

lemma level_string_len: "pslog_level_string_len level = length (pslog_level_string level)"
  by (cases level) simp_all

lemma level_color_len: "pslog_level_color_len cfg level = length (pslog_level_color (c_palette cfg) level)"
  by (cases level) (simp_all add: level_color_lens_def)

lemma append_level_label_appends [emit_simps]:
  "ready s \<Longrightarrow> pslog_append_level_label cfg level s =
     appends (c_console_level_fragments cfg (level_slot level)) s"
  by (simp add: pslog_append_level_label_def emit_simps)

lemma iequal_iff: "pslog_string_iequal (Some l) (Some r) \<longleftrightarrow> map tolower l = map tolower r"
  by (simp add: pslog_string_iequal_def)
    (induction l r rule: pslog_string_iequal_loop.induct, auto)

lemma has_prefix_ci_iff:
  "pslog_string_has_prefix_ci (Some t) (Some p) \<longleftrightarrow> prefix (map tolower p) (map tolower t)"
  by (simp add: pslog_string_has_prefix_ci_def)
    (induction t p rule: has_prefix_ci_loop.induct, auto)

lemma trim_copy_short: "length (trim t) < n \<Longrightarrow> pslog_trim_copy n (Some t) = trim t"
  by (simp add: pslog_trim_copy_def Let_def)

lemma trim_copy_long: "n \<le> length (trim t) \<Longrightarrow> 0 < n \<Longrightarrow> length (pslog_trim_copy n (Some t)) = n - 1"
  by (simp add: pslog_trim_copy_def Let_def)

text \<open>
  A reader of short names through a 16-byte copy: truncation cannot turn a longer text into
  a name, so the copy's size does not show.
\<close>

lemma trim_copy_name:
  assumes "length name < 15"
  shows "map tolower (pslog_trim_copy 16 (Some t)) = name \<longleftrightarrow> map tolower (trim t) = name"
proof (cases "length (trim t) < 16")
  case True
  then show ?thesis by (simp add: trim_copy_short)
next
  case False
  then have "length (pslog_trim_copy 16 (Some t)) = 15" using trim_copy_long [of 16 t] by simp
  then have "length (map tolower (pslog_trim_copy 16 (Some t))) \<noteq> length name"
    "length (map tolower (trim t)) \<noteq> length name"
    using False assms by simp_all
  then show ?thesis by metis
qed

definition level_names :: "(cstring \<times> pslog_level) list" where
  "level_names =
    [(''trace'', LEVEL_TRACE), (''debug'', LEVEL_DEBUG), (''info'', LEVEL_INFO), (''warn'', LEVEL_WARN),
     (''warning'', LEVEL_WARN), (''error'', LEVEL_ERROR), (''fatal'', LEVEL_FATAL),
     (''panic'', LEVEL_PANIC), (''no'', LEVEL_NOLEVEL), (''none'', LEVEL_NOLEVEL),
     (''nolevel'', LEVEL_NOLEVEL), (''disabled'', LEVEL_DISABLED), (''off'', LEVEL_DISABLED)]"

lemma skip_space_id: "t = [] \<or> \<not> isspace (hd t) \<Longrightarrow> skip_space t = t"
  by (cases t) auto

lemma trim_id: "t = [] \<or> \<not> isspace (hd t) \<and> \<not> isspace (last t) \<Longrightarrow> trim t = t"
  by (auto simp: trim_def skip_space_id hd_rev)

lemma skip_space_append: "list_all isspace l \<Longrightarrow> skip_space (l @ t) = skip_space t"
  by (induction l) auto

lemma skip_space_all: "list_all isspace l \<Longrightarrow> skip_space l = []"
  by (induction l) auto

lemma trim_padded:
  assumes "list_all isspace l" "list_all isspace r" "t \<noteq> []" "\<not> isspace (hd t)" "\<not> isspace (last t)"
  shows "trim (l @ t @ r) = t"
proof -
  have "skip_space (l @ t @ r) = t @ r"
    using assms by (cases t) (simp_all add: skip_space_append)
  moreover have "skip_space (rev r @ rev t) = rev t"
    using assms by (simp add: skip_space_append skip_space_id hd_rev)
  ultimately show ?thesis by (simp add: trim_def)
qed

text \<open>Octal text of a permission.\<close>

definition octal_digits3 :: "nat \<Rightarrow> cstring" where
  "octal_digits3 m = [digit_char (m div 64), digit_char (m div 8 mod 8), digit_char (m mod 8)]"

definition demo_impl :: "pslog_level \<Rightarrow> pslog_logger_impl" where
  "demo_impl least = \<lparr>i_fields = [], i_field_prefix = [], i_min_level = least,
     i_include_level_field = False, i_can_close_shared = True\<rparr>"

section \<open>Properties\<close>


text \<open>
  Claim C34. Printing and parsing a level are inverse: the name \<open>pslog_level_string\<close> gives an
  enumerator is read back as that enumerator, with any white space around it.
\<close>

theorem level_string_roundtrip:
  assumes "\<forall>n. level \<noteq> LEVEL_OTHER n" "list_all isspace l" "list_all isspace r"
  shows "pslog_parse_level (Some (l @ pslog_level_string level @ r)) = Some level"
proof -
  have "trim (l @ pslog_level_string level @ r) = pslog_level_string level"
    using assms by (intro trim_padded) (cases level; simp add: isspace_def)+
  then show ?thesis
    using assms(1)
    by (cases level) (simp_all add: pslog_parse_level_def trim_copy_name tolower_def Let_def)
qed

lemma level_string_roundtrip_witness:
  "pslog_parse_level (Some (''  '' @ pslog_level_string LEVEL_PANIC @ [CHR 0x0A])) = Some LEVEL_PANIC"
  by (rule level_string_roundtrip) (simp_all add: isspace_def)





text \<open>
  The 32-byte copy does show here: thirty zeros in front of \<open>644\<close> leave \<open>6\<close> as the last digit
  that is kept.
\<close>

lemma file_mode_truncated:
  "pslog_parse_file_mode (Some ''000000000000000000000000000000644'') = Some 6"
  by (simp add: pslog_parse_file_mode_def pslog_trim_copy_def trim_def isspace_def is_octal_def
      strtoul8_def octal_value_def size_max_eq Let_def)

end
