(* ===== verification/Times.thy ===== *)
theory Times
  imports Levels
begin

text \<open>
  Numbers and times of \<open>src/pslog.c\<close>: doubles with their cache of rendered text, pointers,
  timestamps in RFC 3339 form, durations, and the per-second timestamp cache. \<open>gmtime_r\<close> is the
  proleptic Gregorian calendar; \<open>strftime\<close> is modelled for the library's own two formats and is a
  parameter for an application's.
\<close>

section \<open>Local buffers\<close>

text \<open>
  \<open>pslog_buffer_init(&buffer, NULL, capacity)\<close>, some appends, the bytes collected,
  \<open>pslog_buffer_destroy(&buffer)\<close>.
\<close>

definition with_local_buffer :: "nat \<Rightarrow> (est \<Rightarrow> est) \<Rightarrow> est \<Rightarrow> string \<times> est" where
  "with_local_buffer capacity f s =
     (let (b, w) = pslog_buffer_init False capacity (e_world s);
          s1 = f (s\<lparr>e_buf := b, e_world := w\<rparr>);
          (b2, w2) = pslog_buffer_destroy (e_buf s1) (e_world s1)
      in (b_data (e_buf s1), s1\<lparr>e_buf := e_buf s, e_world := w2\<rparr>))"

section \<open>Doubles\<close>

definition double_exponent :: "64 word \<Rightarrow> nat" where
  "double_exponent v = unat v div 2 ^ 52 mod 2 ^ 11"

definition double_mantissa :: "64 word \<Rightarrow> nat" where
  "double_mantissa v = unat v mod 2 ^ 52"

definition pslog_double_is_nan :: "64 word \<Rightarrow> bool" where
  "pslog_double_is_nan v = (double_exponent v = 2047 \<and> double_mantissa v \<noteq> 0)"

text \<open>\<open>value > DBL_MAX || value < -DBL_MAX\<close>, and \<open>value < 0.0\<close> of an infinity.\<close>

definition pslog_double_is_inf :: "64 word \<Rightarrow> bool" where
  "pslog_double_is_inf v =
     (if pslog_double_is_nan v then False else double_exponent v = 2047 \<and> double_mantissa v = 0)"

definition double_sign :: "64 word \<Rightarrow> bool" where
  "double_sign v = (unat v \<ge> 2 ^ 63)"

definition pslog_normalize_decimal_separator :: "string \<Rightarrow> string" where
  "pslog_normalize_decimal_separator t = map (\<lambda>c. if c = CHR '','' then CHR ''.'' else c) t"

fun replace_first_comma :: "string \<Rightarrow> string" where
  "replace_first_comma [] = []"
| "replace_first_comma (c # t) = (if c = CHR '','' then CHR ''.'' # t else c # replace_first_comma t)"

definition pslog_format_double_ascii :: "libc \<Rightarrow> nat \<Rightarrow> 64 word \<Rightarrow> string" where
  "pslog_format_double_ascii X dst_size v =
     (let t = lc_fmt_g17 X v
      in if t = [] then []
         else replace_first_comma (if length t \<ge> dst_size then take (dst_size - 1) t else t))"

text \<open>The hash over the eight bytes of the double, lowest address first (little endian).\<close>

definition double_bytes :: "64 word \<Rightarrow> nat list" where
  "double_bytes v = map (\<lambda>i. unat v div 256 ^ i mod 256) [0..<8]"

unbundle bit_operations_syntax

definition fnv_step :: "64 word \<Rightarrow> nat \<Rightarrow> 64 word" where
  "fnv_step h b = (h XOR of_nat b) * 16777619"

definition double_slot :: "64 word \<Rightarrow> nat" where
  "double_slot v = unat (foldl fnv_step 1469598103 (double_bytes v)) mod 32"

text \<open>The miss path of \<open>pslog_buffer_append_double\<close>, entered with the state lock held.\<close>

definition append_double_miss :: "libc \<Rightarrow> 64 word \<Rightarrow> nat \<Rightarrow> est \<Rightarrow> est" where
  "append_double_miss X v slot s =
     (let s1 = s\<lparr>e_shared := pslog_state_unlock (e_shared s)\<rparr>;
          tmp = pslog_format_double_ascii X 64 v
      in if length tmp > 0 then
           (let s2 = (if length tmp < 32
                      then (let sh = pslog_state_lock (e_shared s1);
                                sh' = sh\<lparr>s_double_cache := (s_double_cache sh)(slot := Some (v, tmp))\<rparr>
                            in s1\<lparr>e_shared := pslog_state_unlock sh'\<rparr>)
                      else s1)
            in append_n_fast tmp s2)
         else s1)"

definition pslog_buffer_append_double :: "libc \<Rightarrow> 64 word \<Rightarrow> est \<Rightarrow> est" where
  "pslog_buffer_append_double X v s =
     (if pslog_double_is_nan v then pslog_buffer_append_cstr (Some ''nan'') s
      else if pslog_double_is_inf v
        then pslog_buffer_append_cstr (Some (if double_sign v then ''-inf'' else ''inf'')) s
      else if b_shared (e_buf s) then
        (let slot = double_slot v;
             s1 = s\<lparr>e_shared := pslog_state_lock (e_shared s)\<rparr>
         in case s_double_cache (e_shared s1) slot of
              Some (bits, rendered) \<Rightarrow>
                if bits = v
                then (let len = length rendered;
                          tmp = (if len > 0 \<and> len < 64 then rendered else []);
                          s2 = s1\<lparr>e_shared := pslog_state_unlock (e_shared s1)\<rparr>
                      in if tmp \<noteq> [] then append_n_fast tmp s2 else s2)
                else append_double_miss X v slot s1
            | None \<Rightarrow> append_double_miss X v slot s1)
      else
        (let tmp = pslog_format_double_ascii X 64 v
         in if length tmp > 0 then append_n_fast tmp s else s))"

definition pslog_buffer_append_pointer :: "libc \<Rightarrow> 64 word \<Rightarrow> est \<Rightarrow> est" where
  "pslog_buffer_append_pointer X v s =
     (let tmp = lc_fmt_pointer X v in if length tmp > 0 then append_n_fast tmp s else s)"

section \<open>The calendar\<close>

text \<open>Days are counted from 2000-03-01, so that a leap day ends its cycle.\<close>

definition month_lengths :: "int list" where
  "month_lengths = [31, 30, 31, 30, 31, 31, 30, 31, 30, 31, 31, 29]"

fun month_walk :: "int \<Rightarrow> int list \<Rightarrow> int \<Rightarrow> int \<times> int" where
  "month_walk r [] m = (m, r)"
| "month_walk r (l # ls) m = (if r < l then (m, r) else month_walk (r - l) ls (m + 1))"

definition year_split :: "int \<Rightarrow> int \<times> int" where
  "year_split days =
     (let qc = days div 146097; r = days mod 146097;
          c = min 3 (r div 36524); r1 = r - c * 36524;
          q = min 24 (r1 div 1461); r2 = r1 - q * 1461;
          y = min 3 (r2 div 365)
      in (y + 4 * q + 100 * c + 400 * qc, r2 - y * 365))"

definition gmtime_r :: "int \<Rightarrow> tm option" where
  "gmtime_r t =
     (let (years, yday) = year_split (t div 86400 - 11017);
          (m, d) = month_walk yday month_lengths 0;
          secs = t mod 86400;
          year = 2000 + years + (if m \<ge> 10 then 1 else 0) - 1900
      in if - (2 ^ 31) \<le> year \<and> year < 2 ^ 31
         then Some \<lparr>tm_year = year, tm_mon = (if m \<ge> 10 then m - 10 else m + 2), tm_mday = d + 1,
                    tm_hour = secs div 3600, tm_min = secs div 60 mod 60, tm_sec = secs mod 60\<rparr>
         else None)"

definition pslog_time_to_tm :: "libc \<Rightarrow> int \<Rightarrow> bool \<Rightarrow> tm option" where
  "pslog_time_to_tm X now utc = (if utc then gmtime_r now else lc_localtime X now)"

text \<open>\<open>(int)((local_epoch - gm_epoch) / 60)\<close> with C's division towards zero.\<close>

definition quot :: "int \<Rightarrow> int \<Rightarrow> int" where
  "quot a b = sgn a * (\<bar>a\<bar> div b)"

definition pslog_local_offset_minutes :: "libc \<Rightarrow> int \<Rightarrow> int" where
  "pslog_local_offset_minutes X now =
     (case pslog_time_to_tm X now False of None \<Rightarrow> 0
      | Some local_tm \<Rightarrow>
          (case pslog_time_to_tm X now True of None \<Rightarrow> 0
           | Some gm_tm \<Rightarrow>
               (let local_epoch = lc_mktime X local_tm; gm_epoch = lc_mktime X gm_tm
                in if local_epoch = -1 \<or> gm_epoch = -1 then 0 else quot (local_epoch - gm_epoch) 60)))"

section \<open>Times\<close>

definition zpad :: "nat \<Rightarrow> string \<Rightarrow> string" where
  "zpad w t = replicate (w - length t) CHR ''0'' @ t"

definition two_digits :: "int \<Rightarrow> string" where
  "two_digits n = zpad 2 (int_digits n)"

definition iso_format :: cstring where
  "iso_format = ''%Y-%m-%dT%H:%M:%S''"

definition iso_text :: "tm \<Rightarrow> string" where
  "iso_text t = int_digits (tm_year t + 1900) @ ''-'' @ two_digits (tm_mon t + 1) @ ''-'' @
     two_digits (tm_mday t) @ ''T'' @ two_digits (tm_hour t) @ '':'' @ two_digits (tm_min t) @ '':'' @
     two_digits (tm_sec t)"

text \<open>\<open>strftime(dst, size, fmt, tm)\<close>: nothing if the text and its NUL do not fit.\<close>

definition c_strftime :: "libc \<Rightarrow> nat \<Rightarrow> cstring \<Rightarrow> tm \<Rightarrow> string" where
  "c_strftime X dst_size fmt t =
     (let r = (if fmt = iso_format then iso_text t
               else if fmt = ''%d%H%M'' then two_digits (tm_mday t) @ two_digits (tm_hour t) @ two_digits (tm_min t)
               else lc_strftime X fmt t)
      in if length r < dst_size then r else [])"

function strip_zeros :: "string \<Rightarrow> string" where
  "strip_zeros t = (if length t > 2 \<and> last t = CHR ''0'' then strip_zeros (butlast t) else t)"
  by pat_completeness auto
termination
  by (relation "measure length") auto

declare strip_zeros.simps [simp del]

definition frac_text :: "int \<Rightarrow> string" where
  "frac_text ns = strip_zeros (CHR ''.'' # zpad 9 (int_digits \<bar>ns\<bar>))"

definition offset_text :: "int \<Rightarrow> string" where
  "offset_text off =
     (if off < 0 then CHR ''-'' else CHR ''+'') # two_digits (\<bar>off\<bar> div 60) @ '':'' @ two_digits (\<bar>off\<bar> mod 60)"

definition pslog_buffer_append_time :: "libc \<Rightarrow> pslog_time_value \<Rightarrow> bool \<Rightarrow> est \<Rightarrow> est" where
  "pslog_buffer_append_time X value quote s =
     (let offset_seconds = tv_utc_offset_minutes value * 60;
          base = tv_epoch_seconds value + offset_seconds
      in case pslog_time_to_tm X base True of
           None \<Rightarrow> (if quote then pslog_buffer_append_json_string (Some []) s
                    else pslog_buffer_append_console_string (Some []) s)
         | Some tm_value \<Rightarrow>
             (let s1 = (if quote then append_char_fast dquote s else s);
                  tmp = c_strftime X 64 iso_format tm_value;
                  s2 = (if length tmp > 0 then append_n_fast tmp s1 else s1);
                  s3 = (if tv_nanoseconds value \<noteq> 0
                        then append_n_fast (frac_text (tv_nanoseconds value)) s2 else s2);
                  s4 = (if tv_utc_offset_minutes value = 0 then pslog_buffer_append_char CHR ''Z'' s3
                        else append_n_fast (offset_text (tv_utc_offset_minutes value)) s3)
              in if quote then pslog_buffer_append_char dquote s4 else s4))"

text \<open>
  The three branches that normalise seconds and nanoseconds to a sign and two magnitudes, then
  the unit by size.
\<close>

definition duration_split :: "pslog_duration_value \<Rightarrow> bool \<times> int \<times> int" where
  "duration_split value =
     (let seconds = dv_seconds value; nanoseconds = dv_nanoseconds value in
      if seconds < 0 \<and> nanoseconds > 0 then (True, \<bar>seconds + 1\<bar>, 1000000000 - nanoseconds)
      else if seconds > 0 \<and> nanoseconds < 0 then (False, seconds - 1, 1000000000 + nanoseconds)
      else if seconds < 0 \<or> nanoseconds < 0 then (True, \<bar>seconds\<bar>, \<bar>nanoseconds\<bar>)
      else (False, seconds, nanoseconds))"

definition micro_suffix :: string where
  "micro_suffix = [CHR 0xC2, CHR 0xB5, CHR ''s'']"

definition pslog_buffer_append_duration :: "libc \<Rightarrow> pslog_duration_value \<Rightarrow> bool \<Rightarrow> est \<Rightarrow> est" where
  "pslog_buffer_append_duration X value quote s =
     (let (negative, seconds, nanoseconds) = duration_split value;
          s1 = (if quote then pslog_buffer_append_char dquote s else s);
          s2 = (if negative then pslog_buffer_append_char CHR ''-'' s1 else s1)
      in if seconds = 0 \<and> nanoseconds < 1000 then
           (let s3 = append_n_fast (int_digits nanoseconds @ ''ns'') s2
            in if quote then pslog_buffer_append_char dquote s3 else s3)
         else if seconds = 0 \<and> nanoseconds < 1000000 then
           (let tmp = lc_fmt_f3 X 0 nanoseconds 1000;
                s3 = (if length tmp > 0 then append_n_fast tmp s2 else s2);
                s4 = pslog_buffer_append_n micro_suffix s3
            in if quote then pslog_buffer_append_char dquote s4 else s4)
         else if seconds = 0 \<and> nanoseconds < 1000000000 then
           (let s3 = append_n_fast (lc_fmt_f3 X 0 nanoseconds 1000000 @ ''ms'') s2
            in if quote then pslog_buffer_append_char dquote s3 else s3)
         else if seconds < 60 then
           (let s3 = append_n_fast (lc_fmt_f3 X seconds nanoseconds 1000000000 @ ''s'') s2
            in if quote then pslog_buffer_append_char dquote s3 else s3)
         else
           (let s3 = append_n_fast (int_digits (seconds div 60) @ ''m'' @ int_digits (seconds mod 60) @ ''.'' @
                       zpad 3 (int_digits (quot nanoseconds 1000000)) @ ''s'') s2
            in if quote then pslog_buffer_append_char dquote s3 else s3))"

definition pslog_buffer_finish_line :: "est \<Rightarrow> est" where
  "pslog_buffer_finish_line s = pslog_buffer_append_char CHR 0x0A s"

section \<open>Timestamps\<close>

definition pslog_time_format_is_rfc3339 :: "cstring option \<Rightarrow> bool" where
  "pslog_time_format_is_rfc3339 fmt = (fmt = Some ''RFC3339'')"

definition pslog_time_format_is_rfc3339nano :: "cstring option \<Rightarrow> bool" where
  "pslog_time_format_is_rfc3339nano fmt = (fmt = Some ''RFC3339Nano'')"

text \<open>The bytes left in \<open>dst\<close>; \<open>dst_size\<close> is at least 1.\<close>

definition pslog_render_timestamp_value ::
  "libc \<Rightarrow> shared_cfg \<Rightarrow> int \<Rightarrow> int \<Rightarrow> nat \<Rightarrow> est \<Rightarrow> string \<times> est" where
  "pslog_render_timestamp_value X cfg now nanoseconds dst_size s =
     (let fmt = c_time_format cfg;
          rfc = (\<lambda>ns. let value = \<lparr>tv_epoch_seconds = now, tv_nanoseconds = ns,
                        tv_utc_offset_minutes = (if c_utc cfg then 0 else pslog_local_offset_minutes X now)\<rparr>;
                        (data, s1) = with_local_buffer (dst_size - 1) (pslog_buffer_append_time X value False) s
                     in (take (dst_size - 1) data, s1));
          layout = (\<lambda>f. case pslog_time_to_tm X now (c_utc cfg) of None \<Rightarrow> ([], s)
                     | Some t \<Rightarrow> (c_strftime X dst_size f t, s))
      in case fmt of
           None \<Rightarrow> if c_mode cfg = MODE_JSON then rfc 0 else layout ''%d%H%M''
         | Some f \<Rightarrow>
             if pslog_time_format_is_rfc3339 fmt \<or> pslog_time_format_is_rfc3339nano fmt
             then rfc (if pslog_time_format_is_rfc3339nano fmt then nanoseconds else 0)
             else layout f)"

text \<open>
  Copying the cached text: directly if it fits the buffer, else through \<open>stamp[64]\<close>. Entered with
  the state lock held; the text is below 64 bytes.
\<close>

definition append_cached_timestamp :: "est \<Rightarrow> est" where
  "append_cached_timestamp s =
     (let sh = e_shared s;
          cached = s_cached_timestamp sh;
          text' = take (if length cached \<ge> 64 then 63 else length cached) cached;
          sh1 = sh\<lparr>s_timestamp_cache_hits := Suc (s_timestamp_cache_hits sh)\<rparr>
      in if \<not> b_null (e_buf s) \<and> length text' \<le> size_sub (bcap s) (blen s)
         then s\<lparr>e_buf := put_bytes text' (e_buf s), e_shared := pslog_state_unlock sh1\<rparr>
         else append_n_fast text' (s\<lparr>e_shared := pslog_state_unlock sh1\<rparr>))"

text \<open>
  \<open>clock\<close> is what the configured time source answers; a cacheable format asks only for whole
  seconds.
\<close>

definition pslog_append_timestamp :: "libc \<Rightarrow> shared_cfg \<Rightarrow> int \<times> int \<Rightarrow> est \<Rightarrow> est" where
  "pslog_append_timestamp X cfg clock s =
     (if \<not> c_timestamps cfg then s
      else
        (let (now, nanoseconds) = clock in
         if c_timestamp_cacheable cfg then
           (let s1 = s\<lparr>e_shared := pslog_state_lock (e_shared s)\<rparr> in
            if length (s_cached_timestamp (e_shared s1)) > 0 \<and>
               s_cached_timestamp_second (e_shared s1) = now
            then append_cached_timestamp s1
            else
              (let s2 = s1\<lparr>e_shared := pslog_state_unlock (e_shared s1)\<rparr>;
                   (stamp, s3) = pslog_render_timestamp_value X cfg now 0 64 s2
               in if length stamp = 0 then s3
                  else
                    (let s4 = s3\<lparr>e_shared := pslog_state_lock (e_shared s3)\<rparr>;
                         sh = e_shared s4
                     in if s_cached_timestamp_second sh \<noteq> now \<or> length (s_cached_timestamp sh) = 0
                        then
                          (let stamp' = take 63 stamp;
                               sh1 = sh\<lparr>s_cached_timestamp := stamp', s_cached_timestamp_second := now,
                                        s_timestamp_cache_misses := Suc (s_timestamp_cache_misses sh)\<rparr>
                           in append_n_fast stamp' (s4\<lparr>e_shared := pslog_state_unlock sh1\<rparr>))
                        else append_cached_timestamp s4)))
         else
           (let (stamp, s1) = pslog_render_timestamp_value X cfg now nanoseconds 64 s
            in if length stamp > 0 then append_n_fast stamp s1 else s1)))"

section \<open>Sinks never touch the allocator\<close>

definition same_alloc :: "world \<Rightarrow> world \<Rightarrow> bool" where
  "same_alloc w w' = (w_alloc_ok w' = w_alloc_ok w \<and> w_allocs w' = w_allocs w)"

lemma same_alloc_refl [simp]: "same_alloc w w"
  by (simp add: same_alloc_def)

lemma same_alloc_trans: "same_alloc u v \<Longrightarrow> same_alloc v w \<Longrightarrow> same_alloc u w"
  by (simp add: same_alloc_def)

lemma same_alloc_all_alloc: "same_alloc w w' \<Longrightarrow> all_alloc w' = all_alloc w"
  by (simp add: same_alloc_def all_alloc_def)

text \<open>What every call of a write function keeps of the world, the loops around it keep.\<close>

locale world_frame =
  fixes R :: "world \<Rightarrow> world \<Rightarrow> bool"
  assumes R_refl [simp]: "R w w" and R_trans: "R u v \<Longrightarrow> R v w \<Longrightarrow> R u w"
begin

lemma write_loop_frame:
  assumes frame: "\<And>d w. R w (snd (snd (wr d w)))"
  shows "R w (snd (write_loop wr cap data off w))"
proof (induction "length data - off" arbitrary: off w rule: less_induct)
  case less
  obtain n e w1 where wr: "wr (take (chunk_len cap (length data - off)) (drop off data)) w = (n, e, w1)"
    by (metis prod_cases3)
  have 1: "R w w1" using frame [of w "take (chunk_len cap (length data - off)) (drop off data)"] wr by simp
  show ?case
  proof (cases "off < length data")
    case True
    define m where "m = min n (chunk_len cap (length data - off))"
    have eq: "write_loop wr cap data off w = (if e \<noteq> 0 \<or> m = 0 then (off + m, w1) else write_loop wr cap data (off + m) w1)"
      using write_loop_step [where wr = wr, OF True wr] by (simp only: m_def Let_def)
    show ?thesis
    proof (cases "e \<noteq> 0 \<or> m = 0")
      case True
      with eq 1 show ?thesis by simp
    next
      case False
      with \<open>off < length data\<close> have "length data - (off + m) < length data - off" by auto
      from less.hyps [OF this, of w1] R_trans [OF 1] eq False show ?thesis by simp
    qed
  next
    case False
    then show ?thesis by (simp add: write_loop_done)
  qed
qed

lemma tee_loop_frame:
  assumes f1: "\<And>d w. R w (snd (snd (wr1 d w)))" and f2: "\<And>d w. R w (snd (snd (wr2 d w)))"
  shows "R w (snd (snd (snd (snd (tee_loop wr1 wr2 data f s w)))))"
proof (induction "(length data - f) + (length data - s)" arbitrary: f s w rule: less_induct)
  case less
  obtain n1 e1 w1 where r1: "(if f < length data then wr1 (drop f data) w else (0, 0, w)) = (n1, e1, w1)"
    by (metis prod_cases3)
  obtain n2 e2 w2 where r2: "(if s < length data then wr2 (drop s data) w1 else (0, 0, w1)) = (n2, e2, w2)"
    by (metis prod_cases3)
  have a1: "R w w1" using f1 [of w "drop f data"] r1 by (auto split: if_splits)
  have a2: "R w w2"
    using f2 [of w1 "drop s data"] r2 R_trans [OF a1] by (auto split: if_splits)
  define c1 where "c1 = min n1 (length data - f)"
  define c2 where "c2 = min n2 (length data - s)"
  let ?stop1 = "f < length data \<and> (e1 \<noteq> 0 \<or> c1 = 0)" and ?stop2 = "s < length data \<and> (e2 \<noteq> 0 \<or> c2 = 0)"
  consider "\<not> (f < length data \<or> s < length data)" | "f < length data \<or> s < length data" "?stop1"
    | "f < length data \<or> s < length data" "\<not> ?stop1" "?stop2"
    | "f < length data \<or> s < length data" "\<not> ?stop1" "\<not> ?stop2"
    by blast
  then show ?case
  proof cases
    case 1
    then show ?thesis by (subst tee_loop.simps) (simp add: Let_def)
  next
    case 2
    then have "snd (snd (snd (snd (tee_loop wr1 wr2 data f s w)))) = w1"
      using r1 by (subst tee_loop.simps) (auto simp: Let_def c1_def)
    with a1 show ?thesis by simp
  next
    case 3
    then have r2': "wr2 (drop s data) w1 = (n2, e2, w2)" using r2 by simp
    from 3 have "snd (snd (snd (snd (tee_loop wr1 wr2 data f s w)))) = w2"
      by (subst tee_loop.simps) (auto simp: Let_def r1 r2' c1_def [symmetric] c2_def [symmetric])
    with a2 show ?thesis by simp
  next
    case 4
    then have eq: "tee_loop wr1 wr2 data f s w = tee_loop wr1 wr2 data (f + c1) (s + c2) w2"
      by (subst tee_loop.simps) (simp add: Let_def r1 r2 c1_def [symmetric] c2_def [symmetric], blast)
    have "(length data - (f + c1)) + (length data - (s + c2)) < (length data - f) + (length data - s)"
      using 4 by auto
    from less.hyps [OF this, of w2] R_trans [OF a2] eq show ?thesis by simp
  qed
qed

end

interpretation alloc: world_frame same_alloc
  by unfold_locales (simp, rule same_alloc_trans)

lemma sink_write_alloc: "same_alloc w (snd (snd (sink_write snk data w)))"
proof (induction snk data w rule: sink_write.induct)
  case (2 fp data w)
  then show ?case
    by (auto simp: pslog_file_write_def same_alloc_def ask_def Let_def split: option.splits prod.splits)
next
  case (3 a fd data w)
  then show ?case
    by (auto simp: pslog_fd_write_def same_alloc_def ask_def Let_def split: option.splits answer.splits)
next
  case (5 a s1 c1 t1 n1 s2 c2 t2 n2 data w)
  have "same_alloc w (snd (snd (snd (snd (tee_loop (sink_write s1) (sink_write s2) data f s w)))))" for f s
    by (rule alloc.tee_loop_frame) (use 5 in blast)+
  then show ?case
    by (simp add: pslog_tee_write_def Let_def case_prod_beta)
next
  case (7 i cb s c t n data w)
  then have "same_alloc w (snd (snd (sink_write s data w)))" by blast
  then show ?case
    by (auto simp: pslog_observed_write_def same_alloc_def Let_def case_prod_beta)
next
  case (8 u data w)
  then show ?case by (auto simp: user_write_def same_alloc_def ask_def split: answer.splits)
qed simp_all

lemma write_output_alloc: "same_alloc w (snd (pslog_write_output_locked sh data cap w))"
  by (simp add: pslog_write_output_locked_def alloc.write_loop_frame sink_write_alloc)

lemma flush_alloc: "b_shared (e_buf s) \<Longrightarrow> same_alloc (e_world s) (e_world (pslog_buffer_flush s))"
  using write_output_alloc [of "e_world s" "e_shared s" "b_data (e_buf s)" "b_chunk_capacity (e_buf s)"]
  by (simp add: pslog_buffer_flush_def Let_def case_prod_beta)

lemma append_char_alloc: "b_shared (e_buf s) \<Longrightarrow> same_alloc (e_world s) (e_world (pslog_buffer_append_char c s))"
  using flush_alloc [of s] by (simp add: pslog_buffer_append_char_def Let_def)

lemma appends_alloc: "ready s \<Longrightarrow> b_shared (e_buf s) \<Longrightarrow> same_alloc (e_world s) (e_world (appends t s))"
proof (induction t arbitrary: s)
  case (Cons c t)
  from Cons.IH [of "pslog_buffer_append_char c s"] Cons.prems append_char_alloc [of s c]
  show ?case by (simp add: appends_Cons ready_append_char append_char_b_shared) (blast intro: same_alloc_trans)
qed simp

section \<open>Local buffers collect what is appended\<close>

lemma local_buffer_fits:
  assumes "all_alloc (e_world s)" "0 < cap" "cap < 1025" "length B \<le> cap"
    and "\<And>u. ready u \<Longrightarrow> f u = appends B u"
  shows "with_local_buffer cap f s = (B, s)"
proof -
  define b where "b = fst (pslog_buffer_init False cap (e_world s))"
  have init: "pslog_buffer_init False cap (e_world s) = (b, e_world s)"
    and b: "b_data b = []" "b_capacity b = cap" "\<not> b_null b" "\<not> b_shared b" "\<not> b_heap_owned b"
    using assms(2,3)
    by (auto simp: b_def pslog_buffer_init_def pslog_normalize_line_buffer_capacity_def inline_size_def
        default_line_buffer_capacity_def clear_buffer_def size_max_eq Let_def)
  let ?u = "s\<lparr>e_buf := b\<rparr>"
  have r: "ready ?u" using b assms(1,2) by (simp add: ready_def)
  have u: "f ?u = (if B = [] then ?u else ?u\<lparr>e_buf := put_bytes B b\<rparr>)"
    using assms(5) [OF r] appends_fits [OF r, of B] assms(4) b by simp
  show ?thesis
    using b by (simp add: with_local_buffer_def init u pslog_buffer_destroy_def Let_def)
qed

section \<open>What the number and time writers append\<close>

definition double_text :: "libc \<Rightarrow> 64 word \<Rightarrow> string" where
  "double_text X v =
     (if pslog_double_is_nan v then ''nan''
      else if pslog_double_is_inf v then (if double_sign v then ''-inf'' else ''inf'')
      else pslog_format_double_ascii X 64 v)"

text \<open>A cache entry holds what formatting its bits gives.\<close>

definition double_cache_ok :: "libc \<Rightarrow> (nat \<Rightarrow> (64 word \<times> string) option) \<Rightarrow> bool" where
  "double_cache_ok X c = (\<forall>i v t. c i = Some (v, t) \<longrightarrow>
     t = pslog_format_double_ascii X 64 v \<and> length t < 32)"

lemma double_cache_ok_empty [simp]: "double_cache_ok X (\<lambda>_. None)"
  by (simp add: double_cache_ok_def)

lemma state_lock_sel [simp]:
  "s_double_cache (pslog_state_lock sh) = s_double_cache sh"
  "s_cached_timestamp (pslog_state_lock sh) = s_cached_timestamp sh"
  "s_cached_timestamp_second (pslog_state_lock sh) = s_cached_timestamp_second sh"
  by (simp_all add: pslog_state_lock_def)

lemma state_lock_unlock [simp]:
  "mutex_ok (s_state_mutex sh) \<Longrightarrow> pslog_state_unlock (pslog_state_lock sh) = sh"
  by (simp add: pslog_state_lock_def pslog_state_unlock_def)

lemma state_unlock_cache [simp]:
  "mutex_ok (s_state_mutex sh) \<Longrightarrow>
     pslog_state_unlock ((pslog_state_lock sh)\<lparr>s_double_cache := c\<rparr>) = sh\<lparr>s_double_cache := c\<rparr>"
  by (simp add: pslog_state_lock_def pslog_state_unlock_def)

lemma ready_shared [simp]: "ready (s\<lparr>e_shared := sh\<rparr>) = ready s"
  by (simp add: ready_def)

lemma e_shared_set: "s\<lparr>e_shared := f (e_shared s)\<rparr> = e_shared_update f s"
  by (cases s) simp

lemma appends_set_double:
  "appends t (s\<lparr>e_shared := (e_shared s)\<lparr>s_double_cache := c\<rparr>\<rparr>) =
     e_shared_update (s_double_cache_update (\<lambda>_. c)) (appends t s)"
  by (simp only: e_shared_set [where f = "s_double_cache_update (\<lambda>_. c)"] double_cache.appends_commutes)

lemma append_double_appends:
  assumes "ready s" "mutex_ok (s_state_mutex (e_shared s))" "double_cache_ok X (s_double_cache (e_shared s))"
  shows "\<exists>c. double_cache_ok X c \<and>
    pslog_buffer_append_double X v s = e_shared_update (s_double_cache_update (\<lambda>_. c)) (appends (double_text X v) s)"
proof -
  let ?C = "s_double_cache (e_shared s)" and ?k = "double_slot v" and ?t = "pslog_format_double_ascii X 64 v"
  have id: "e_shared_update (s_double_cache_update (\<lambda>_. ?C)) (appends t s) = appends t s" for t
  proof -
    have "e_shared_update (s_double_cache_update (\<lambda>_. ?C)) s = s" by (cases s) simp
    with double_cache.appends_commutes [of t "\<lambda>_. ?C" s] show ?thesis by metis
  qed
  have keep: ?thesis if "pslog_buffer_append_double X v s = appends (double_text X v) s"
    using that assms(3) id by (intro exI [where x = ?C]) simp
  have miss: "\<exists>c. double_cache_ok X c \<and> append_double_miss X v ?k (s\<lparr>e_shared := pslog_state_lock (e_shared s)\<rparr>)
      = e_shared_update (s_double_cache_update (\<lambda>_. c)) (appends ?t s)"
  proof (cases "length ?t > 0 \<and> length ?t < 32")
    case True
    have "double_cache_ok X (?C(?k := Some (v, ?t)))" using True assms(3) by (auto simp: double_cache_ok_def)
    with True assms show ?thesis
      by (intro exI [where x = "?C(?k := Some (v, ?t))"])
        (simp add: append_double_miss_def Let_def append_n_fast_appends appends_set_double)
  next
    case False
    with assms id show ?thesis
      by (intro exI [where x = ?C]) (auto simp: append_double_miss_def Let_def append_n_fast_appends)
  qed
  show ?thesis
  proof (cases "pslog_double_is_nan v \<or> pslog_double_is_inf v \<or> \<not> b_shared (e_buf s)")
    case True
    then show ?thesis
      using assms(1)
      by (intro keep) (auto simp: pslog_buffer_append_double_def double_text_def emit_simps Let_def)
  next
    case False
    then have text_eq: "double_text X v = ?t" by (simp add: double_text_def)
    show ?thesis
    proof (cases "?C ?k")
      case None
      with False miss text_eq show ?thesis by (simp add: pslog_buffer_append_double_def Let_def)
    next
      case (Some p)
      obtain bits r where p: "p = (bits, r)" by fastforce
      show ?thesis
      proof (cases "bits = v")
        case True
        with Some p assms(3) have "r = ?t" "length r < 32" by (auto simp: double_cache_ok_def)
        with False True Some p assms text_eq show ?thesis
          by (intro keep) (auto simp: pslog_buffer_append_double_def Let_def append_n_fast_appends)
      next
        case ne: False
        with False Some p miss text_eq show ?thesis by (simp add: pslog_buffer_append_double_def Let_def)
      qed
    qed
  qed
qed

lemma append_pointer_appends [emit_simps]:
  "ready s \<Longrightarrow> pslog_buffer_append_pointer X v s = appends (lc_fmt_pointer X v) s"
  by (simp add: pslog_buffer_append_pointer_def Let_def emit_simps)

definition time_text :: "libc \<Rightarrow> pslog_time_value \<Rightarrow> string" where
  "time_text X value =
     (case gmtime_r (tv_epoch_seconds value + tv_utc_offset_minutes value * 60) of
        None \<Rightarrow> []
      | Some t \<Rightarrow> c_strftime X 64 iso_format t @
          (if tv_nanoseconds value \<noteq> 0 then frac_text (tv_nanoseconds value) else []) @
          (if tv_utc_offset_minutes value = 0 then ''Z'' else offset_text (tv_utc_offset_minutes value)))"

definition quoted :: "bool \<Rightarrow> string \<Rightarrow> string" where
  "quoted q t = (if q then dquote # t @ [dquote] else t)"

lemma append_time_appends [emit_simps]:
  "ready s \<Longrightarrow> pslog_buffer_append_time X value q s = appends (quoted q (time_text X value)) s"
  by (cases "gmtime_r (tv_epoch_seconds value + tv_utc_offset_minutes value * 60)")
    (simp_all add: pslog_buffer_append_time_def pslog_time_to_tm_def time_text_def quoted_def emit_simps
      json_string_bytes_def console_string_bytes_def Let_def)

definition duration_text :: "libc \<Rightarrow> pslog_duration_value \<Rightarrow> string" where
  "duration_text X value =
     (let (negative, seconds, nanoseconds) = duration_split value
      in (if negative then ''-'' else []) @
         (if seconds = 0 \<and> nanoseconds < 1000 then int_digits nanoseconds @ ''ns''
          else if seconds = 0 \<and> nanoseconds < 1000000 then lc_fmt_f3 X 0 nanoseconds 1000 @ micro_suffix
          else if seconds = 0 \<and> nanoseconds < 1000000000 then lc_fmt_f3 X 0 nanoseconds 1000000 @ ''ms''
          else if seconds < 60 then lc_fmt_f3 X seconds nanoseconds 1000000000 @ ''s''
          else int_digits (seconds div 60) @ ''m'' @ int_digits (seconds mod 60) @ ''.'' @
            zpad 3 (int_digits (quot nanoseconds 1000000)) @ ''s''))"

lemma append_duration_appends [emit_simps]:
  "ready s \<Longrightarrow> pslog_buffer_append_duration X value q s = appends (quoted q (duration_text X value)) s"
  by (cases "duration_split value")
    (simp add: pslog_buffer_append_duration_def duration_text_def quoted_def emit_simps Let_def)

lemma finish_line_appends [emit_simps]: "pslog_buffer_finish_line s = appends [CHR 0x0A] s"
  by (simp add: pslog_buffer_finish_line_def append_char_appends)

section \<open>The calendar is right\<close>

lemma div_bounds: "0 < (b :: int) \<Longrightarrow> a div b * b \<le> a \<and> a < a div b * b + b"
  using div_mult_mod_eq [of a b] pos_mod_bound [of b a] pos_mod_sign [of b a] by linarith

lemma year_split_spec:
  assumes "year_split days = (y, r)"
  shows "0 \<le> r \<and> r \<le> 365 \<and> days = 365 * y + y div 4 - y div 100 + y div 400 + r"
proof -
  define qc where "qc = days div 146097"
  define r0 where "r0 = days mod 146097"
  define c where "c = min 3 (r0 div 36524)"
  define r1 where "r1 = r0 - c * 36524"
  define q where "q = min 24 (r1 div 1461)"
  define r2 where "r2 = r1 - q * 1461"
  define k where "k = min 3 (r2 div 365)"
  have y: "y = k + 4 * q + 100 * c + 400 * qc" and r: "r = r2 - k * 365"
    using assms unfolding year_split_def Let_def qc_def [symmetric] r0_def [symmetric] c_def [symmetric]
      r1_def [symmetric] q_def [symmetric] r2_def [symmetric] k_def [symmetric] by simp_all
  have r0: "0 \<le> r0" "r0 < 146097" "days = qc * 146097 + r0" by (simp_all add: r0_def qc_def)
  have c: "0 \<le> c" "c \<le> 3" "0 \<le> r1" "r1 \<le> 36524"
    using r0 div_bounds [of 36524 r0] by (auto simp: c_def r1_def min_def pos_imp_zdiv_nonneg_iff)
  have q: "0 \<le> q" "q \<le> 24" "0 \<le> r2" "r2 \<le> 1460"
    using c div_bounds [of 1461 r1] by (auto simp: q_def r2_def min_def pos_imp_zdiv_nonneg_iff)
  have k: "0 \<le> k" "k \<le> 3" "0 \<le> r" "r \<le> 365"
    using q div_bounds [of 365 r2] by (auto simp: k_def r min_def pos_imp_zdiv_nonneg_iff)
  have "y div 4 = q + 25 * c + 100 * qc"
    using k by (intro int_div_pos_eq [of _ _ _ k]) (simp_all add: y)
  moreover have "y div 100 = c + 4 * qc"
    using k q by (intro int_div_pos_eq [of _ _ _ "k + 4 * q"]) (simp_all add: y)
  moreover have "y div 400 = qc"
    using k q c by (intro int_div_pos_eq [of _ _ _ "k + 4 * q + 100 * c"]) (simp_all add: y)
  ultimately show ?thesis
    using k r0 by (simp add: y r r2_def r1_def)
qed

definition month_start :: "int \<Rightarrow> int" where
  "month_start m = [0, 31, 61, 92, 122, 153, 184, 214, 245, 275, 306, 337] ! nat m"

lemma month_walk_spec:
  assumes "0 \<le> r" "r \<le> 365" "month_walk r month_lengths 0 = (m, d)"
  shows "0 \<le> m \<and> m \<le> 11 \<and> 0 \<le> d \<and> d \<le> 30 \<and> r = month_start m + d"
  using assms by (auto simp: month_lengths_def month_start_def eval_nat_numeral split: if_splits)

text \<open>Days since 1970-01-01 of a Gregorian date.\<close>

definition civil_days :: "int \<Rightarrow> int \<Rightarrow> int \<Rightarrow> int" where
  "civil_days year mon mday =
     (let y = (if mon \<ge> 3 then year - 2000 else year - 2001);
          m = (if mon \<ge> 3 then mon - 3 else mon + 9)
      in 11017 + 365 * y + y div 4 - y div 100 + y div 400 + month_start m + mday - 1)"

lemma hms_split: "(u :: int) div 3600 * 3600 + u div 60 mod 60 * 60 + u mod 60 = u"
proof -
  define q where "q = u div 60"
  have 1: "u div 3600 = q div 60" by (simp add: q_def zdiv_zmult2_eq [symmetric])
  define h where "h = q div 60"
  define m where "m = q mod 60"
  have "h * 60 + m = q" by (simp add: h_def m_def)
  moreover have "q * 60 + u mod 60 = u" by (simp add: q_def)
  ultimately show ?thesis by (simp add: 1 q_def [symmetric] h_def [symmetric] m_def [symmetric])
qed

lemma hour_bounds: "0 \<le> (u :: int) \<Longrightarrow> u < 86400 \<Longrightarrow> u div 3600 \<le> 23 \<and> 0 \<le> u div 3600"
proof -
  assume u: "0 \<le> u" "u < 86400"
  define h where "h = u div 3600"
  have "h * 3600 \<le> u" "u < h * 3600 + 3600" using div_bounds [of 3600 u] by (simp_all add: h_def)
  with u show ?thesis unfolding h_def [symmetric] by linarith
qed

lemma gmtime_spec:
  assumes "gmtime_r t = Some v"
  shows "civil_days (tm_year v + 1900) (tm_mon v + 1) (tm_mday v) * 86400 +
      tm_hour v * 3600 + tm_min v * 60 + tm_sec v = t"
    and "0 \<le> tm_mon v \<and> tm_mon v \<le> 11 \<and> 1 \<le> tm_mday v \<and> tm_mday v \<le> 31 \<and> 0 \<le> tm_hour v \<and>
      tm_hour v \<le> 23 \<and> 0 \<le> tm_min v \<and> tm_min v \<le> 59 \<and> 0 \<le> tm_sec v \<and> tm_sec v \<le> 59 \<and>
      - (2 ^ 31) \<le> tm_year v \<and> tm_year v < 2 ^ 31"
proof -
  obtain y r where yr: "year_split (t div 86400 - 11017) = (y, r)" by fastforce
  obtain m d where md: "month_walk r month_lengths 0 = (m, d)" by fastforce
  note y = year_split_spec [OF yr]
  have m: "0 \<le> m" "m \<le> 11" "0 \<le> d" "d \<le> 30" "r = month_start m + d"
    using month_walk_spec [OF _ _ md] y by auto
  define u where "u = t mod 86400"
  have u: "0 \<le> u" "u < 86400" "t div 86400 * 86400 + u = t" by (simp_all add: u_def)
  have v: "v = \<lparr>tm_year = 2000 + y + (if m \<ge> 10 then 1 else 0) - 1900, tm_mon = (if m \<ge> 10 then m - 10 else m + 2),
      tm_mday = d + 1, tm_hour = u div 3600, tm_min = u div 60 mod 60, tm_sec = u mod 60\<rparr>"
    and yb: "- (2 ^ 31) \<le> tm_year v \<and> tm_year v < 2 ^ 31"
    using assms by (auto simp: gmtime_r_def yr md Let_def u_def split: if_splits)
  have civ: "civil_days (tm_year v + 1900) (tm_mon v + 1) (tm_mday v) = t div 86400"
    using m y by (simp add: v civil_days_def)
  note hms = hms_split [of u]
  have hv: "tm_hour v = u div 3600" "tm_min v = u div 60 mod 60" "tm_sec v = u mod 60"
    "tm_mday v = d + 1" "tm_mon v = (if m \<ge> 10 then m - 10 else m + 2)" by (simp_all add: v)
  show "civil_days (tm_year v + 1900) (tm_mon v + 1) (tm_mday v) * 86400 +
      tm_hour v * 3600 + tm_min v * 60 + tm_sec v = t"
    unfolding civ hv(1-3) using hms u(3) by (simp only: add.assoc)
  have "0 \<le> tm_mon v" "tm_mon v \<le> 11" "1 \<le> tm_mday v" "tm_mday v \<le> 31"
    unfolding hv(4,5) using m by simp_all
  moreover have "tm_hour v \<le> 23" "0 \<le> tm_hour v"
    unfolding hv(1) using hour_bounds [OF u(1,2)] by blast+
  moreover have "tm_min v \<le> 59" "tm_sec v \<le> 59" "0 \<le> tm_min v" "0 \<le> tm_sec v"
    unfolding hv(2,3) by simp_all
  ultimately show "0 \<le> tm_mon v \<and> tm_mon v \<le> 11 \<and> 1 \<le> tm_mday v \<and> tm_mday v \<le> 31 \<and> 0 \<le> tm_hour v \<and>
      tm_hour v \<le> 23 \<and> 0 \<le> tm_min v \<and> tm_min v \<le> 59 \<and> 0 \<le> tm_sec v \<and> tm_sec v \<le> 59 \<and>
      - (2 ^ 31) \<le> tm_year v \<and> tm_year v < 2 ^ 31"
    using yb by blast
qed

section \<open>Reading a timestamp back\<close>

lemma nat_digits_length_ge: "10 ^ k \<le> n \<Longrightarrow> k < length (nat_digits n)"
proof (induction k arbitrary: n)
  case 0
  show ?case by simp
next
  case (Suc k)
  have "(10 :: nat) * 1 \<le> 10 * 10 ^ k" by (rule mult_left_mono) simp_all
  with Suc.prems have "\<not> n < 10" by (metis mult.right_neutral not_le order_trans power_Suc)
  moreover have "10 ^ k \<le> n div 10"
    using Suc.prems by (simp add: less_eq_div_iff_mult_less_eq mult.commute)
  moreover note Suc.IH [of "n div 10"]
  ultimately show ?case by (subst nat_digits.simps) simp
qed
lemma read_nat_zeros: "read_nat (replicate k CHR ''0'' @ t) = read_nat t"
  by (induction k) (simp_all add: read_nat_def)

lemma two_digits_spec:
  assumes "0 \<le> n" "n < 100"
  shows "length (two_digits n) = 2" "int (read_nat (two_digits n)) = n" "list_all is_digit (two_digits n)"
proof -
  have d: "int_digits n = nat_digits (nat n)" using assms by (simp add: int_digits_def)
  have "length (nat_digits (nat n)) \<le> 2"
    using length_nat_digits [of "nat n" 2] assms by (simp add: nat_less_iff)
  then show "length (two_digits n) = 2" by (simp add: two_digits_def zpad_def d)
  show "int (read_nat (two_digits n)) = n"
    using assms by (simp add: two_digits_def zpad_def d read_nat_zeros read_nat_digits)
  show "list_all is_digit (two_digits n)"
    using nat_digits_all [of _ "nat n"] by (auto simp: two_digits_def zpad_def d list_all_iff is_digit_def)
qed

lemma four_digits_spec:
  assumes "1000 \<le> n" "n \<le> 9999"
  shows "length (int_digits n) = 4" "int (read_nat (int_digits n)) = n"
proof -
  have d: "int_digits n = nat_digits (nat n)" using assms by (simp add: int_digits_def)
  have "length (nat_digits (nat n)) \<le> 4" "3 < length (nat_digits (nat n))"
    using length_nat_digits [of "nat n" 4] nat_digits_length_ge [of 3 "nat n"] assms
    by (simp_all add: nat_less_iff le_nat_iff)
  then show "length (int_digits n) = 4" by (simp add: d)
  show "int (read_nat (int_digits n)) = n" using assms by (simp add: d read_nat_digits)
qed

lemma strip_zeros_spec:
  "2 \<le> length t \<Longrightarrow> \<exists>j. t = strip_zeros t @ replicate j CHR ''0'' \<and> 2 \<le> length (strip_zeros t)"
proof (induction t rule: strip_zeros.induct)
  case (1 t)
  show ?case
  proof (cases "length t > 2 \<and> last t = CHR ''0''")
    case True
    then have "2 \<le> length (butlast t)" by auto
    from 1(1) [OF True this] obtain j where j: "butlast t = strip_zeros (butlast t) @ replicate j CHR ''0''"
      "2 \<le> length (strip_zeros (butlast t))" by blast
    have "t = butlast t @ [CHR ''0'']" using True by (metis append_butlast_last_id list.size(3) not_less0)
    also have "\<dots> = strip_zeros (butlast t) @ replicate (Suc j) CHR ''0''"
      by (subst j(1)) (simp add: replicate_append_same)
    finally have "t = strip_zeros (butlast t) @ replicate (Suc j) CHR ''0''" .
    moreover have "strip_zeros t = strip_zeros (butlast t)" using True by (subst strip_zeros.simps) simp
    ultimately show ?thesis using j(2) by metis
  next
    case False
    then have "strip_zeros t = t" by (subst strip_zeros.simps) auto
    with 1 show ?thesis by (intro exI [where x = 0]) simp
  qed
qed

lemma frac_text_spec:
  assumes "0 \<le> ns" "ns < 10 ^ 9"
  obtains p j where "frac_text ns = CHR ''.'' # p" "list_all is_digit p"
    "length p + j = 9" "int (read_nat (p @ replicate j CHR ''0'')) = ns"
proof -
  let ?z = "zpad 9 (int_digits \<bar>ns\<bar>)"
  have d: "int_digits \<bar>ns\<bar> = nat_digits (nat ns)" "int_digits ns = nat_digits (nat ns)"
    using assms by (simp_all add: int_digits_def)
  have "length (nat_digits (nat ns)) \<le> 9"
    using length_nat_digits [of "nat ns" 9] assms by (simp add: nat_less_iff)
  then have len: "length ?z = 9" by (simp add: zpad_def d)
  obtain j where j: "CHR ''.'' # ?z = frac_text ns @ replicate j CHR ''0''" "2 \<le> length (frac_text ns)"
    using strip_zeros_spec [of "CHR ''.'' # ?z"] len by (auto simp: frac_text_def)
  obtain p where p: "frac_text ns = CHR ''.'' # p"
    using j by (cases "frac_text ns") auto
  with j have z: "?z = p @ replicate j CHR ''0''" by simp
  have "list_all is_digit ?z"
    using nat_digits_all [of _ "nat ns"] by (auto simp: zpad_def d list_all_iff is_digit_def)
  then have "list_all is_digit p" by (simp add: z)
  moreover have "length p + j = 9" using len z by simp
  moreover have "int (read_nat (p @ replicate j CHR ''0'')) = ns"
    unfolding z [symmetric] using assms by (simp add: zpad_def d read_nat_zeros read_nat_digits)
  ultimately show ?thesis using that p by blast
qed

text \<open>A reader of RFC 3339 timestamps with a four-digit year: seconds since the epoch, nanoseconds.\<close>

definition read_zone :: "string \<Rightarrow> int" where
  "read_zone z = (if cat z 0 = 43 then 1 else if cat z 0 = 45 then -1 else 0) *
     (int (read_nat (slice 1 3 z)) * 60 + int (read_nat (slice 4 6 z)))"

definition read_rfc3339 :: "string \<Rightarrow> int \<times> int" where
  "read_rfc3339 t =
     (let n = (\<lambda>i j. int (read_nat (slice i j t)));
          rest = drop 19 t;
          frac = (if cat rest 0 = 46 then takeWhile is_digit (tl rest) else []);
          zone = (if cat rest 0 = 46 then dropWhile is_digit (tl rest) else rest)
      in (civil_days (n 0 4) (n 5 7) (n 8 10) * 86400 + n 11 13 * 3600 + n 14 16 * 60 + n 17 19
            - read_zone zone * 60,
          int (read_nat (take 9 (frac @ replicate 9 CHR ''0'')))))"

lemma slice_append_skip: "length a \<le> i \<Longrightarrow> slice i j (a @ b) = slice (i - length a) (j - length a) b"
  by (simp add: slice_def)

lemma slice_append_head: "length a = j \<Longrightarrow> slice 0 j (a @ b) = a"
  by (simp add: slice_def)

lemma slice_Cons_skip: "0 < i \<Longrightarrow> slice i j (x # b) = slice (i - 1) (j - 1) b"
  by (cases i) (simp_all add: slice_def)

lemma slice_all: "length a = j \<Longrightarrow> slice 0 j a = a"
  by (simp add: slice_def)

lemmas slice_walk = slice_append_skip slice_append_head slice_Cons_skip slice_all

lemma read_iso_parts:
  assumes "length Y = 4" "length M = 2" "length D = 2" "length H = 2" "length N = 2" "length S = 2"
    and t: "t = Y @ CHR ''-'' # M @ CHR ''-'' # D @ CHR ''T'' # H @ CHR '':'' # N @ CHR '':'' # S @ z"
  shows "slice 0 4 t = Y" "slice 5 7 t = M" "slice 8 10 t = D" "slice 11 13 t = H"
    "slice 14 16 t = N" "slice 17 19 t = S" "drop 19 t = z"
  using assms by (simp_all add: slice_walk)

lemma offset_text_spec:
  assumes "off \<noteq> 0" "\<bar>off\<bar> < 6000"
  shows "read_zone (offset_text off) = off" "length (offset_text off) = 6"
    "cat (offset_text off) 0 \<noteq> 46" "\<not> is_digit (hd (offset_text off))" "offset_text off \<noteq> []"
proof -
  have h: "0 \<le> \<bar>off\<bar> div 60" "\<bar>off\<bar> div 60 < 100" "0 \<le> \<bar>off\<bar> mod 60" "\<bar>off\<bar> mod 60 < 100"
    using assms(2) by (auto simp: pos_imp_zdiv_nonneg_iff order.strict_trans1 [OF less_imp_le [OF pos_mod_bound]])
  note H = two_digits_spec [OF h(1,2)] and M = two_digits_spec [OF h(3,4)]
  have "\<bar>off\<bar> div 60 * 60 + \<bar>off\<bar> mod 60 = \<bar>off\<bar>" by simp
  then show "read_zone (offset_text off) = off"
    using H M assms(1)
    by (cases "off < 0") (simp_all add: read_zone_def offset_text_def slice_walk)
  show "length (offset_text off) = 6" "cat (offset_text off) 0 \<noteq> 46"
    "\<not> is_digit (hd (offset_text off))" "offset_text off \<noteq> []"
    using H(1) M(1) by (simp_all add: offset_text_def is_digit_def)
qed

lemma time_text_parts:
  assumes g: "gmtime_r (tv_epoch_seconds v + tv_utc_offset_minutes v * 60) = Some t"
    and y: "1000 \<le> tm_year t + 1900" "tm_year t + 1900 \<le> 9999"
  shows "time_text X v = iso_text t @ (if tv_nanoseconds v \<noteq> 0 then frac_text (tv_nanoseconds v) else []) @
      (if tv_utc_offset_minutes v = 0 then ''Z'' else offset_text (tv_utc_offset_minutes v))"
    and "length (iso_text t) = 19"
proof -
  note b = gmtime_spec(2) [OF g]
  have "length (int_digits (tm_year t + 1900)) = 4" using four_digits_spec(1) [of "tm_year t + 1900"] y by simp
  then show l: "length (iso_text t) = 19"
    using b two_digits_spec(1) [of "tm_mon t + 1"] two_digits_spec(1) [of "tm_mday t"]
      two_digits_spec(1) [of "tm_hour t"] two_digits_spec(1) [of "tm_min t"] two_digits_spec(1) [of "tm_sec t"]
    by (simp add: iso_text_def)
  show "time_text X v = iso_text t @ (if tv_nanoseconds v \<noteq> 0 then frac_text (tv_nanoseconds v) else []) @
      (if tv_utc_offset_minutes v = 0 then ''Z'' else offset_text (tv_utc_offset_minutes v))"
    using l by (simp add: time_text_def g c_strftime_def Let_def)
qed

lemma zone_spec:
  assumes "\<bar>off\<bar> < 6000"
  defines "z \<equiv> (if off = 0 then ''Z'' else offset_text off)"
  shows "read_zone z = off" "length z \<le> 6" "cat z 0 \<noteq> 46" "z \<noteq> []" "\<not> is_digit (hd z)"
  using assms offset_text_spec [of off] by (cases "off = 0"; simp add: read_zone_def is_digit_def)+

lemma takeWhile_dropWhile_stop:
  assumes "list_all P p" "z \<noteq> []" "\<not> P (hd z)"
  shows "takeWhile P (p @ z) = p" "dropWhile P (p @ z) = z"
  using assms by (induction p) (cases z, auto)+

lemma read_rfc3339_time_text:
  assumes g: "gmtime_r (tv_epoch_seconds v + tv_utc_offset_minutes v * 60) = Some t"
    and y: "1000 \<le> tm_year t + 1900" "tm_year t + 1900 \<le> 9999"
    and off: "\<bar>tv_utc_offset_minutes v\<bar> < 6000" and ns: "0 \<le> tv_nanoseconds v" "tv_nanoseconds v < 10 ^ 9"
  shows "read_rfc3339 (time_text X v) = (tv_epoch_seconds v, tv_nanoseconds v)"
proof -
  note b = gmtime_spec [OF g]
  define z where "z = (if tv_utc_offset_minutes v = 0 then ''Z'' else offset_text (tv_utc_offset_minutes v))"
  note zs = zone_spec [OF off, folded z_def]
  define f where "f = (if tv_nanoseconds v \<noteq> 0 then frac_text (tv_nanoseconds v) else [])"
  define x where "x = time_text X v"
  have x: "x = int_digits (tm_year t + 1900) @ CHR ''-'' # two_digits (tm_mon t + 1) @ CHR ''-'' # two_digits (tm_mday t) @
      CHR ''T'' # two_digits (tm_hour t) @ CHR '':'' # two_digits (tm_min t) @ CHR '':'' # two_digits (tm_sec t) @ f @ z"
    using time_text_parts(1) [OF g y] by (simp add: x_def f_def z_def iso_text_def)
  have Y: "length (int_digits (tm_year t + 1900)) = 4" "int (read_nat (int_digits (tm_year t + 1900))) = tm_year t + 1900"
    using four_digits_spec [of "tm_year t + 1900"] y by simp_all
  have M: "length (two_digits (tm_mon t + 1)) = 2" "int (read_nat (two_digits (tm_mon t + 1))) = tm_mon t + 1"
    and D: "length (two_digits (tm_mday t)) = 2" "int (read_nat (two_digits (tm_mday t))) = tm_mday t"
    and H: "length (two_digits (tm_hour t)) = 2" "int (read_nat (two_digits (tm_hour t))) = tm_hour t"
    and N: "length (two_digits (tm_min t)) = 2" "int (read_nat (two_digits (tm_min t))) = tm_min t"
    and S: "length (two_digits (tm_sec t)) = 2" "int (read_nat (two_digits (tm_sec t))) = tm_sec t"
    using b(2) by (auto intro!: two_digits_spec)
  note p = read_iso_parts [OF Y(1) M(1) D(1) H(1) N(1) S(1) x]
  have rest: "read_zone (if cat (f @ z) 0 = 46 then dropWhile is_digit (tl (f @ z)) else f @ z) = tv_utc_offset_minutes v \<and>
    int (read_nat (take 9 ((if cat (f @ z) 0 = 46 then takeWhile is_digit (tl (f @ z)) else []) @ replicate 9 CHR ''0'')))
      = tv_nanoseconds v"
  proof (cases "tv_nanoseconds v = 0")
    case True
    then show ?thesis using zs read_nat_zeros [of 9 "[]"] by (simp add: f_def read_nat_def eval_nat_numeral)
  next
    case False
    obtain q j where q: "frac_text (tv_nanoseconds v) = CHR ''.'' # q" "list_all is_digit q" "length q + j = 9"
      "int (read_nat (q @ replicate j CHR ''0'')) = tv_nanoseconds v"
      using frac_text_spec [OF ns] by metis
    have "take 9 (q @ replicate 9 CHR ''0'') = q @ replicate j CHR ''0''"
      using q(3) by (simp add: min_def)
    with False q zs takeWhile_dropWhile_stop [OF q(2) zs(4,5)] show ?thesis by (simp add: f_def)
  qed
  show ?thesis
    unfolding x_def [symmetric] read_rfc3339_def Let_def p Y(2) M(2) D(2) H(2) N(2) S(2)
    using rest b(1) by (simp add: algebra_simps)
qed

section \<open>Rendered timestamps\<close>

text \<open>The zone offsets of the C library stay below a hundred hours.\<close>

definition zone_ok :: "libc \<Rightarrow> bool" where
  "zone_ok X = (\<forall>t. \<bar>pslog_local_offset_minutes X t\<bar> < 6000)"

lemma int_digits_length: "\<bar>n\<bar> < 10 ^ k \<Longrightarrow> 0 < k \<Longrightarrow> length (int_digits n) \<le> k + 1"
  using length_nat_digits [of "nat \<bar>n\<bar>" k] by (auto simp: int_digits_def nat_less_iff)

lemma frac_text_length: "0 \<le> ns \<Longrightarrow> ns < 10 ^ 9 \<Longrightarrow> length (frac_text ns) \<le> 10"
  by (rule frac_text_spec [of ns]) auto

lemma time_text_length:
  assumes "\<bar>tv_utc_offset_minutes v\<bar> < 6000" "0 \<le> tv_nanoseconds v" "tv_nanoseconds v < 10 ^ 9"
  shows "length (time_text X v) \<le> 63"
proof (cases "gmtime_r (tv_epoch_seconds v + tv_utc_offset_minutes v * 60)")
  case None
  then show ?thesis by (simp add: time_text_def)
next
  case (Some t)
  note b = gmtime_spec(2) [OF Some]
  have "length (int_digits (tm_year t + 1900)) \<le> 11" using b int_digits_length [of "tm_year t + 1900" 10] by (simp add: abs_if)
  then have "length (iso_text t) \<le> 26"
    using b two_digits_spec(1) [of "tm_mon t + 1"] two_digits_spec(1) [of "tm_mday t"]
      two_digits_spec(1) [of "tm_hour t"] two_digits_spec(1) [of "tm_min t"] two_digits_spec(1) [of "tm_sec t"]
    by (simp add: iso_text_def)
  then have "length (c_strftime X 64 iso_format t) \<le> 26" by (simp add: c_strftime_def Let_def)
  moreover have "length (if tv_nanoseconds v \<noteq> 0 then frac_text (tv_nanoseconds v) else []) \<le> 10"
    using frac_text_length [OF assms(2,3)] by simp
  moreover note zone_spec(2) [OF assms(1)]
  ultimately show ?thesis unfolding time_text_def Some option.case length_append by linarith
qed

definition render_text :: "libc \<Rightarrow> shared_cfg \<Rightarrow> int \<Rightarrow> int \<Rightarrow> string" where
  "render_text X cfg now nanoseconds =
     (let fmt = c_time_format cfg;
          rfc = (\<lambda>ns. time_text X \<lparr>tv_epoch_seconds = now, tv_nanoseconds = ns,
                   tv_utc_offset_minutes = (if c_utc cfg then 0 else pslog_local_offset_minutes X now)\<rparr>);
          layout = (\<lambda>f. case pslog_time_to_tm X now (c_utc cfg) of None \<Rightarrow> [] | Some t \<Rightarrow> c_strftime X 64 f t)
      in case fmt of
           None \<Rightarrow> if c_mode cfg = MODE_JSON then rfc 0 else layout ''%d%H%M''
         | Some f \<Rightarrow>
             if pslog_time_format_is_rfc3339 fmt \<or> pslog_time_format_is_rfc3339nano fmt
             then rfc (if pslog_time_format_is_rfc3339nano fmt then nanoseconds else 0)
             else layout f)"

lemma c_strftime_length: "length (c_strftime X (Suc n) f t) \<le> n"
  by (simp add: c_strftime_def Let_def)

lemma rfc_local_buffer:
  assumes "all_alloc (e_world s)" "length (time_text X v) \<le> 63"
  shows "with_local_buffer 63 (pslog_buffer_append_time X v False) s = (time_text X v, s)"
  by (rule local_buffer_fits [OF assms(1) _ _ assms(2)]) (simp_all add: emit_simps quoted_def)

lemma render_timestamp:
  assumes "all_alloc (e_world s)" "zone_ok X" "0 \<le> ns" "ns < 10 ^ 9"
  shows "pslog_render_timestamp_value X cfg now ns 64 s = (render_text X cfg now ns, s)"
    and "length (render_text X cfg now ns) \<le> 63"
proof -
  define v where "v m = \<lparr>tv_epoch_seconds = now, tv_nanoseconds = m,
      tv_utc_offset_minutes = (if c_utc cfg then 0 else pslog_local_offset_minutes X now)\<rparr>" for m
  have l: "length (time_text X (v m)) \<le> 63" if "m = 0 \<or> m = ns" for m
    by (rule time_text_length) (use assms that in \<open>auto simp: v_def zone_ok_def\<close>)
  have w: "with_local_buffer 63 (pslog_buffer_append_time X (v m) False) s = (time_text X (v m), s)"
    if "m = 0 \<or> m = ns" for m
    by (rule rfc_local_buffer [OF assms(1) l [OF that]])
  have tk: "take 63 (time_text X (v m)) = time_text X (v m)" if "m = 0 \<or> m = ns" for m
    using l [OF that] by simp
  note f = v_def [symmetric]
  show "pslog_render_timestamp_value X cfg now ns 64 s = (render_text X cfg now ns, s)"
    by (simp add: pslog_render_timestamp_value_def render_text_def Let_def f w tk split: option.splits)
  show "length (render_text X cfg now ns) \<le> 63"
    using l [of 0] l [of ns] c_strftime_length [of X 63]
    by (auto simp: render_text_def Let_def f split: option.splits)
qed

section \<open>Properties\<close>



end
