(* ===== verification/FieldData.thy ===== *)
theory FieldData
  imports Times
begin

text \<open>
  Fields: the constructors of the public API, the text of an errno, and the deep copies a derived
  logger keeps of its fields, with the allocations and releases they make.
\<close>

section \<open>Constructors\<close>

text \<open>
  What the constructors share: the key is scanned once, which decides its length and whether it may
  be copied without escaping.
\<close>

definition make_field :: "cptr option \<Rightarrow> pslog_value \<Rightarrow> pslog_field" where
  "make_field key value =
     (let (trusted, key_len) = pslog_string_is_ascii_trusted_measure (map_option snd key)
      in \<lparr>f_key = key, f_key_len = key_len, f_value_len = 0, f_value = value,
          f_trusted_key = trusted, f_trusted_value = False, f_console_simple_value = False\<rparr>)"

definition pslog_null :: "cptr option \<Rightarrow> pslog_field" where
  "pslog_null key = make_field key V_null"

definition pslog_str :: "cptr option \<Rightarrow> cstring option \<Rightarrow> pslog_field" where
  "pslog_str key value =
     (let string_value = (case value of None \<Rightarrow> [] | Some t \<Rightarrow> t);
          (trusted_value, value_len) = pslog_string_is_ascii_trusted_measure (Some string_value)
      in (make_field key (V_string (Some string_value)))
           \<lparr>f_value_len := value_len, f_trusted_value := trusted_value\<rparr>)"

definition pslog_errno :: "cptr option \<Rightarrow> 32 word \<Rightarrow> pslog_field" where
  "pslog_errno key err = make_field key (V_errno (scast err))"

definition pslog_trusted_str :: "cptr option \<Rightarrow> cstring option \<Rightarrow> pslog_field" where
  "pslog_trusted_str key value =
     (let field = pslog_str key value;
          string_value = (case value of None \<Rightarrow> [] | Some t \<Rightarrow> t);
          (trusted_key, key_len) = pslog_string_is_trusted_measure (map_option snd key);
          (trusted_value, value_len) = pslog_string_is_trusted_measure (Some string_value)
      in field\<lparr>f_trusted_key := trusted_key, f_key_len := key_len,
               f_trusted_value := trusted_value, f_value_len := value_len\<rparr>)"

definition pslog_i64 :: "cptr option \<Rightarrow> 64 word \<Rightarrow> pslog_field" where
  "pslog_i64 key value = make_field key (V_signed value)"

definition pslog_u64 :: "cptr option \<Rightarrow> 64 word \<Rightarrow> pslog_field" where
  "pslog_u64 key value = make_field key (V_unsigned value)"

definition pslog_f64 :: "cptr option \<Rightarrow> 64 word \<Rightarrow> pslog_field" where
  "pslog_f64 key value = make_field key (V_double value)"

definition pslog_bool :: "cptr option \<Rightarrow> int \<Rightarrow> pslog_field" where
  "pslog_bool key value = make_field key (V_bool (value \<noteq> 0))"

definition pslog_ptr :: "cptr option \<Rightarrow> 64 word \<Rightarrow> pslog_field" where
  "pslog_ptr key value = make_field key (V_pointer value)"

definition pslog_bytes_field :: "cptr option \<Rightarrow> string \<Rightarrow> pslog_field" where
  "pslog_bytes_field key data = make_field key (V_bytes data)"

definition pslog_time_field :: "cptr option \<Rightarrow> int \<Rightarrow> int \<Rightarrow> int \<Rightarrow> pslog_field" where
  "pslog_time_field key epoch_seconds nanoseconds utc_offset_minutes =
     make_field key (V_time \<lparr>tv_epoch_seconds = epoch_seconds, tv_nanoseconds = nanoseconds,
       tv_utc_offset_minutes = utc_offset_minutes\<rparr>)"

definition pslog_duration_field :: "cptr option \<Rightarrow> int \<Rightarrow> int \<Rightarrow> pslog_field" where
  "pslog_duration_field key seconds nanoseconds =
     make_field key (V_duration \<lparr>dv_seconds = seconds, dv_nanoseconds = nanoseconds\<rparr>)"

section \<open>Errno texts\<close>

definition pslog_errno_fallback :: "int \<Rightarrow> nat \<Rightarrow> cstring" where
  "pslog_errno_fallback err buffer_size = take (buffer_size - 1) (''Unknown error '' @ int_digits err)"

text \<open>\<open>strerror_r\<close> answers \<open>None\<close> where it returns NULL.\<close>

definition pslog_errno_string :: "libc \<Rightarrow> int \<Rightarrow> nat \<Rightarrow> cstring" where
  "pslog_errno_string X err buffer_size =
     (if buffer_size = 0 then []
      else case lc_strerror X err of
             Some message \<Rightarrow> take (buffer_size - 1) message
           | None \<Rightarrow> pslog_errno_fallback err buffer_size)"

text \<open>\<open>(int)field->as.signed_value\<close>.\<close>

definition int_of_errno :: "64 word \<Rightarrow> int" where
  "int_of_errno v = sint (ucast v :: 32 word)"

section \<open>Owned copies\<close>

definition pslog_strdup_local :: "cstring option \<Rightarrow> world \<Rightarrow> cstring option \<times> world" where
  "pslog_strdup_local text' w =
     (let t = (case text' of None \<Rightarrow> [] | Some t \<Rightarrow> t);
          (ok, w1) = pslog_malloc_internal (length t + 1) w
      in (if ok then Some t else None, w1))"

definition pslog_memdup_local :: "string \<Rightarrow> world \<Rightarrow> string option \<times> world" where
  "pslog_memdup_local src w =
     (if src = [] then (None, w)
      else (let (ok, w1) = pslog_malloc_internal (length src) w
            in (if ok then Some src else None, w1)))"

text \<open>
  \<open>key\<close> and \<open>string_value\<close> are copied by their recorded lengths, into blocks at the addresses the
  allocator answers.
\<close>

definition pslog_copy_field :: "libc \<Rightarrow> pslog_field \<Rightarrow> world \<Rightarrow> pslog_field option \<times> world" where
  "pslog_copy_field X src w =
     (if f_key_len src = size_max \<or> (value_type (f_value src) = FIELD_STRING \<and> f_value_len src = size_max)
      then (None, w)
      else
        (let (ok, w1) = pslog_malloc_internal (f_key_len src + 1) w;
             key_bytes = (case f_key src of None \<Rightarrow> [] | Some (_, k) \<Rightarrow> take (f_key_len src) k);
             dst = src\<lparr>f_key := Some (lc_block X (w_allocs w), key_bytes)\<rparr>
         in if \<not> ok then (None, w1)
            else
              (case f_value src of
                 V_string sv \<Rightarrow>
                   (let (ok2, w2) = pslog_malloc_internal (f_value_len src + 1) w1;
                        value_bytes = (case sv of None \<Rightarrow> [] | Some t \<Rightarrow> take (f_value_len src) t)
                    in if \<not> ok2 then (None, pslog_free_internal True w2)
                       else (Some (dst\<lparr>f_value := V_string (Some value_bytes)\<rparr>), w2))
               | V_bytes data \<Rightarrow>
                   (if length data > 0 then
                      (let (copy, w2) = pslog_memdup_local data w1
                       in case copy of
                            None \<Rightarrow> (None, pslog_free_internal True w2)
                          | Some d \<Rightarrow> (Some (dst\<lparr>f_value := V_bytes d\<rparr>), w2))
                    else (Some (dst\<lparr>f_value := V_bytes []\<rparr>), w1))
               | _ \<Rightarrow> (Some dst, w1))))"

definition free_field :: "pslog_field \<Rightarrow> world \<Rightarrow> world" where
  "free_field f w =
     (let w1 = pslog_free_internal (f_key f \<noteq> None) w
      in case f_value f of
           V_string sv \<Rightarrow> pslog_free_internal (sv \<noteq> None) w1
         | V_bytes data \<Rightarrow> pslog_free_internal (data \<noteq> []) w1
         | _ \<Rightarrow> w1)"

text \<open>A NULL array is \<open>None\<close>.\<close>

definition pslog_free_fields :: "pslog_field list option \<Rightarrow> world \<Rightarrow> world" where
  "pslog_free_fields flds w =
     (case flds of None \<Rightarrow> w
      | Some fs \<Rightarrow> pslog_free_internal True (fold free_field fs w))"

text \<open>The copies made so far are \<open>done\<close>; a failure frees them and their array.\<close>

fun copy_fields_loop ::
  "libc \<Rightarrow> pslog_field list \<Rightarrow> pslog_field list \<Rightarrow> world \<Rightarrow> pslog_field list option \<times> world" where
  "copy_fields_loop X [] copied w = (Some copied, w)"
| "copy_fields_loop X (f # fs) copied w =
     (case pslog_copy_field X f w of
        (None, w1) \<Rightarrow> (None, pslog_free_fields (Some copied) w1)
      | (Some c, w1) \<Rightarrow> copy_fields_loop X fs (copied @ [c]) w1)"

definition field_struct_size :: nat where
  "field_struct_size = 56"

definition pslog_copy_fields ::
  "libc \<Rightarrow> pslog_field list \<Rightarrow> pslog_field list \<Rightarrow> world \<Rightarrow> pslog_field list option \<times> world" where
  "pslog_copy_fields X base_fields new_fields w =
     (case pslog_size_add (length base_fields) (length new_fields) of
        None \<Rightarrow> (None, w)
      | Some count \<Rightarrow>
          if count = 0 then (Some [], w)
          else (let (ok, w1) = pslog_calloc_internal count field_struct_size w
                in if \<not> ok then (None, w1) else copy_fields_loop X (base_fields @ new_fields) [] w1))"

section \<open>Well-formed fields\<close>

text \<open>
  What the flags of a field promise. \<open>safe_text\<close> may be copied into a JSON string as it is; the key
  of a field parsed from a format string runs on past its recorded length.
\<close>

definition safe_text :: "string \<Rightarrow> bool" where
  "safe_text t = (valid_utf8 t \<and> (\<forall>c \<in> set t. \<not> unsafe_byte (uc c)))"

definition console_simple_text :: "string \<Rightarrow> bool" where
  "console_simple_text t = (\<forall>c \<in> set t. \<not> unsafe_byte (uc c) \<and> uc c \<noteq> 0x20 \<and> uc c \<noteq> 61)"

definition field_key :: "pslog_field \<Rightarrow> string" where
  "field_key f = (case f_key f of None \<Rightarrow> [] | Some (_, k) \<Rightarrow> take (f_key_len f) k)"

definition key_ok :: "pslog_field \<Rightarrow> bool" where
  "key_ok f = (case f_key f of None \<Rightarrow> f_key_len f = 0
     | Some (_, k) \<Rightarrow> f_key_len f \<le> length k \<and> (k \<noteq> [] \<longrightarrow> 0 < f_key_len f) \<and>
         (if f_trusted_key f then safe_text (take (f_key_len f) k) else f_key_len f = length k))"

definition value_ok :: "pslog_field \<Rightarrow> bool" where
  "value_ok f = (case f_value f of
       V_string None \<Rightarrow> f_value_len f = 0 \<and> \<not> f_console_simple_value f
     | V_string (Some t) \<Rightarrow> f_value_len f = length t \<and> (f_trusted_value f \<longrightarrow> safe_text t) \<and>
         (f_console_simple_value f \<longrightarrow> t \<noteq> [] \<and> console_simple_text t)
     | _ \<Rightarrow> True)"

definition field_ok :: "pslog_field \<Rightarrow> bool" where
  "field_ok f = (key_ok f \<and> value_ok f)"

lemma ascii_trusted_measure_spec:
  "pslog_string_is_ascii_trusted_measure (Some t) =
     (\<forall>c \<in> set t. uc c < 0x80 \<and> \<not> unsafe_byte (uc c), length t)"
  "pslog_string_is_ascii_trusted_measure None = (True, 0)"
  by (simp_all add: pslog_string_is_ascii_trusted_measure_def ascii_trusted_loop_eq)

lemma ascii_safe: "\<forall>c \<in> set t. uc c < 0x80 \<and> \<not> unsafe_byte (uc c) \<Longrightarrow> safe_text t"
  by (simp add: safe_text_def ascii_valid_utf8)

lemma safe_text_Nil [simp]: "safe_text []"
  by (simp add: safe_text_def)

lemma make_field_sel [simp]:
  "f_key (make_field key v) = key" "f_value (make_field key v) = v" "f_value_len (make_field key v) = 0"
  "f_console_simple_value (make_field key v) = False" "f_trusted_value (make_field key v) = False"
  "f_key_len (make_field key v) = (case key of None \<Rightarrow> 0 | Some (_, k) \<Rightarrow> length k)"
  by (cases key; simp add: make_field_def ascii_trusted_measure_spec case_prod_beta)+

lemma make_field_key_ok [simp]: "key_ok (make_field key v)"
  by (cases key) (auto simp: key_ok_def make_field_def ascii_trusted_measure_spec ascii_safe)

lemma make_field_ok: "(case v of V_string _ \<Rightarrow> False | _ \<Rightarrow> True) \<Longrightarrow> field_ok (make_field key v)"
  by (simp add: field_ok_def value_ok_def split: pslog_value.splits)

lemma key_ok_update [simp]:
  "key_ok (f\<lparr>f_value_len := n, f_trusted_value := b\<rparr>) = key_ok f"
  by (simp add: key_ok_def split: option.split)

lemma pslog_str_ok: "field_ok (pslog_str key value)"
  by (simp add: field_ok_def pslog_str_def value_ok_def ascii_trusted_measure_spec ascii_safe Let_def
      split: option.splits)

lemma pslog_trusted_str_ok: "field_ok (pslog_trusted_str key value)"
  by (cases key; cases "value")
    (auto simp: field_ok_def pslog_trusted_str_def pslog_str_def value_ok_def key_ok_def
      ascii_trusted_measure_spec trusted_measure_spec pslog_string_is_trusted_measure_def [where t = None]
      safe_text_def)

section \<open>Copies keep the field and leak nothing\<close>

text \<open>Blocks that were handed out and not returned.\<close>

definition live :: "world \<Rightarrow> int" where
  "live w = int (length (filter (w_alloc_ok w) [0..<w_allocs w])) - int (w_frees w)"

definition field_blocks :: "pslog_field \<Rightarrow> int" where
  "field_blocks f = 1 + (case f_value f of V_string _ \<Rightarrow> 1 | V_bytes d \<Rightarrow> if d = [] then 0 else 1 | _ \<Rightarrow> 0)"

definition owned_field :: "pslog_field \<Rightarrow> bool" where
  "owned_field f = (f_key f \<noteq> None \<and> f_value f \<noteq> V_string None)"

text \<open>The same field for every emitter: only the addresses and the bytes past the lengths differ.\<close>

definition field_value :: "pslog_field \<Rightarrow> pslog_value" where
  "field_value f = (case f_value f of
       V_string sv \<Rightarrow> V_string (Some (case sv of None \<Rightarrow> [] | Some t \<Rightarrow> take (f_value_len f) t))
     | v \<Rightarrow> v)"

definition field_copy :: "64 word \<Rightarrow> pslog_field \<Rightarrow> pslog_field" where
  "field_copy a f = f\<lparr>f_key := Some (a, field_key f), f_value := field_value f\<rparr>"

lemma live_malloc:
  "pslog_malloc_internal n w = (ok, w') \<Longrightarrow> live w' = live w + (if ok then 1 else 0) \<and>
     w_alloc_ok w' = w_alloc_ok w \<and> ok = w_alloc_ok w (w_allocs w)"
  by (auto simp: pslog_malloc_internal_def live_def)

lemma live_free [simp]: "live (pslog_free_internal b w) = live w - (if b then 1 else 0)"
  by (simp add: pslog_free_internal_def live_def)

lemma live_memdup:
  "d \<noteq> [] \<Longrightarrow> pslog_memdup_local d w = (r, w') \<Longrightarrow>
     live w' = live w + (if r = None then 0 else 1) \<and> (r = None \<or> r = Some d)"
  by (auto simp: pslog_memdup_local_def live_malloc split: prod.splits dest!: live_malloc)

lemma copy_field_cases:
  assumes "pslog_copy_field X f w = (r, w')"
  shows "r = None \<and> live w' = live w \<or>
     r = Some (field_copy (lc_block X (w_allocs w)) f) \<and>
       live w' = live w + field_blocks (field_copy (lc_block X (w_allocs w)) f)"
proof (cases "f_key_len f = size_max \<or> (value_type (f_value f) = FIELD_STRING \<and> f_value_len f = size_max)")
  case True
  with assms show ?thesis by (auto simp: pslog_copy_field_def)
next
  case False
  note guard = this
  obtain ok w1 where m: "pslog_malloc_internal (f_key_len f + 1) w = (ok, w1)" by fastforce
  note l = live_malloc [OF m]
  note step = pslog_copy_field_def [of X f w, simplified guard if_False m Let_def prod.case field_key_def [symmetric]]
  show ?thesis
  proof (cases "f_value f")
    case (V_string sv)
    obtain ok2 w2 where m2: "pslog_malloc_internal (Suc (f_value_len f)) w1 = (ok2, w2)" by fastforce
    show ?thesis
      using assms l live_malloc [OF m2]
      by (auto simp: step V_string m2 field_copy_def field_value_def field_blocks_def split: if_splits)
  next
    case (V_bytes d)
    obtain r2 w2 where m2: "pslog_memdup_local d w1 = (r2, w2)" by fastforce
    show ?thesis
    proof (cases "d = []")
      case True
      show ?thesis
        using assms l by (auto simp: step V_bytes True field_copy_def field_value_def field_blocks_def split: if_splits)
    next
      case False
      show ?thesis
        using assms l live_memdup [OF False m2] False
        by (auto simp: step V_bytes m2 field_copy_def field_value_def field_blocks_def split: if_splits option.splits)
    qed
  qed (use assms l in \<open>auto simp: step field_copy_def field_value_def field_blocks_def split: if_splits\<close>)
qed

lemma field_copy_owned [simp]: "owned_field (field_copy a f)"
  by (simp add: owned_field_def field_copy_def field_value_def split: pslog_value.split)

lemma field_copy_key [simp]: "field_key (field_copy a f) = field_key f"
  by (simp add: field_key_def field_copy_def split: option.split)

lemma field_copy_value [simp]: "field_value (field_copy a f) = field_value f"
  by (simp add: field_value_def field_copy_def split: pslog_value.split option.split)

lemma copy_field_all_alloc:
  assumes "all_alloc w" "f_key_len f < size_max" "f_value_len f < size_max"
  shows "\<exists>n. pslog_copy_field X f w = (Some (field_copy (lc_block X (w_allocs w)) f), w\<lparr>w_allocs := n\<rparr>) \<and> w_allocs w \<le> n"
  using assms
  by (auto simp: pslog_copy_field_def pslog_malloc_internal_def pslog_memdup_local_def all_alloc_def
      field_copy_def field_value_def field_key_def Let_def split: pslog_value.split)

lemma free_field_live: "owned_field f \<Longrightarrow> live (free_field f w) = live w - field_blocks f"
  by (auto simp: free_field_def owned_field_def field_blocks_def Let_def split: pslog_value.splits)

lemma free_fields_live:
  "list_all owned_field fs \<Longrightarrow> live (fold free_field fs w) = live w - sum_list (map field_blocks fs)"
  by (induction fs arbitrary: w) (simp_all add: free_field_live)

text \<open>Each copy is of the corresponding field, at an address of the allocator's choosing.\<close>

definition field_copies :: "pslog_field list \<Rightarrow> pslog_field list \<Rightarrow> bool" where
  "field_copies fs cs = list_all2 (\<lambda>f c. \<exists>a. c = field_copy a f) fs cs"

lemma copy_fields_loop_spec:
  assumes "copy_fields_loop X fs copied w = (r, w')" "list_all owned_field copied"
  shows "r = None \<and> live w' = live w - sum_list (map field_blocks copied) - 1 \<or>
    (\<exists>cs. r = Some (copied @ cs) \<and> field_copies fs cs \<and> live w' = live w + sum_list (map field_blocks cs))"
  using assms
proof (induction X fs copied w rule: copy_fields_loop.induct)
  case (2 X f fs copied w)
  obtain c w1 where c: "pslog_copy_field X f w = (c, w1)" by fastforce
  from copy_field_cases [OF c] show ?case
  proof
    assume "c = None \<and> live w1 = live w"
    with 2(2,3) c show ?thesis by (auto simp: pslog_free_fields_def free_fields_live)
  next
    let ?d = "field_copy (lc_block X (w_allocs w)) f"
    assume d: "c = Some ?d \<and> live w1 = live w + field_blocks ?d"
    with 2(2) c have "copy_fields_loop X fs (copied @ [?d]) w1 = (r, w')" by simp
    from 2(1) [of c w1 ?d] c d this 2(3) show ?thesis
      by (auto simp: field_copies_def)
  qed
qed (auto simp: field_copies_def)

lemma copy_fields_loop_all_alloc:
  assumes "all_alloc w" "\<forall>f \<in> set fs. f_key_len f < size_max \<and> f_value_len f < size_max"
  shows "\<exists>cs n. copy_fields_loop X fs copied w = (Some (copied @ cs), w\<lparr>w_allocs := n\<rparr>) \<and> w_allocs w \<le> n \<and> field_copies fs cs"
  using assms
proof (induction fs arbitrary: copied w)
  case Nil
  show ?case
    by (intro exI [where x = "[]"] exI [where x = "w_allocs w"]) (simp add: field_copies_def)
next
  case (Cons f fs)
  obtain n where n: "pslog_copy_field X f w = (Some (field_copy (lc_block X (w_allocs w)) f), w\<lparr>w_allocs := n\<rparr>)" "w_allocs w \<le> n"
    using copy_field_all_alloc [of w f X] Cons.prems by auto
  then have "all_alloc (w\<lparr>w_allocs := n\<rparr>)" using Cons.prems(1) by (auto simp: all_alloc_def)
  with Cons.IH [of "w\<lparr>w_allocs := n\<rparr>" "copied @ [field_copy (lc_block X (w_allocs w)) f]"] Cons.prems n
  show ?case by (fastforce simp: field_copies_def)
qed

lemma live_calloc:
  "pslog_calloc_internal n m w = (ok, w') \<Longrightarrow> live w' = live w + (if ok then 1 else 0)"
  by (auto simp: pslog_calloc_internal_def live_def split: if_splits option.splits)

lemma field_copies_owned: "field_copies fs cs \<Longrightarrow> list_all owned_field cs"
  by (auto simp: field_copies_def list_all2_conv_all_nth list_all_length)

text \<open>What a logger's field array holds: its blocks and the array itself, none for no fields.\<close>

definition array_blocks :: "pslog_field list \<Rightarrow> int" where
  "array_blocks cs = (if cs = [] then 0 else 1 + sum_list (map field_blocks cs))"

text \<open>A C library and two fields for the examples.\<close>

definition demo_libc :: libc where
  "demo_libc = \<lparr>lc_localtime = gmtime_r, lc_mktime = (\<lambda>_. 0), lc_strftime = (\<lambda>_ _. ''T''),
     lc_strerror = (\<lambda>_. None), lc_fmt_g17 = (\<lambda>_. ''1.5''), lc_fmt_f3 = (\<lambda>_ _ _. ''1.500''),
     lc_fmt_pointer = (\<lambda>_. ''0x10''), lc_block = (\<lambda>n. of_nat (4096 + 64 * n)),
     lc_literal = (\<lambda>t. of_nat (length t))\<rparr>"

definition demo_fields :: "pslog_field list" where
  "demo_fields = [pslog_i64 (Some (0x100, ''a'')) 5, pslog_str (Some (0x200, ''b'')) (Some ''text'')]"

section \<open>Properties\<close>


text \<open>
  Claim C10. Copying the fields of a derived logger is all or nothing, whichever allocation fails: on
  success the copies are the base fields followed by the new ones and exactly their blocks are live,
  on failure nothing is left allocated; freeing the copies returns all of them.
\<close>

theorem copy_fields_never_leaks:
  assumes "length base \<le> size_max" "length new \<le> size_max" "pslog_copy_fields X base new w = (r, w')"
  shows "case r of
      None \<Rightarrow> live w' = live w
    | Some cs \<Rightarrow> field_copies (base @ new) cs \<and> live w' = live w + array_blocks cs \<and>
        live (pslog_free_fields (if cs = [] then None else Some cs) w') = live w"
proof (cases "pslog_size_add (length base) (length new)")
  case None
  with assms show ?thesis by (auto simp: pslog_copy_fields_def)
next
  case (Some n)
  then have n: "n = length (base @ new)" using assms(1,2) by (simp add: pslog_size_add_iff split: if_splits)
  show ?thesis
  proof (cases "n = 0")
    case True
    with assms Some n show ?thesis
      by (auto simp: pslog_copy_fields_def field_copies_def array_blocks_def pslog_free_fields_def)
  next
    case False
    obtain ok w1 where c: "pslog_calloc_internal n field_struct_size w = (ok, w1)" by fastforce
    note l = live_calloc [OF c]
    show ?thesis
    proof (cases ok)
      case True
      with assms Some False c have "copy_fields_loop X (base @ new) [] w1 = (r, w')"
        by (simp add: pslog_copy_fields_def)
      from copy_fields_loop_spec [OF this list.pred_inject(1)] show ?thesis
      proof
        assume "r = None \<and> live w' = live w1 - sum_list (map field_blocks []) - 1"
        with l True show ?thesis by simp
      next
        assume "\<exists>cs. r = Some ([] @ cs) \<and> field_copies (base @ new) cs \<and> live w' = live w1 + sum_list (map field_blocks cs)"
        then obtain cs where cs: "r = Some cs" "field_copies (base @ new) cs" "live w' = live w1 + sum_list (map field_blocks cs)"
          by auto
        moreover have "cs \<noteq> []" using cs(2) False n by (auto simp: field_copies_def)
        ultimately show ?thesis using l True field_copies_owned [OF cs(2)]
          by (simp add: array_blocks_def pslog_free_fields_def free_fields_live)
      qed
    next
      case False
      with assms Some \<open>n \<noteq> 0\<close> c l show ?thesis by (auto simp: pslog_copy_fields_def)
    qed
  qed
qed

lemma copy_fields_never_leaks_witness:
  "live (snd (pslog_copy_fields demo_libc demo_fields [] ((demo_world (\<lambda>_. Accept))\<lparr>w_alloc_ok := (\<lambda>k. k \<noteq> 3)\<rparr>))) = 0 \<and>
   fst (pslog_copy_fields demo_libc demo_fields [] ((demo_world (\<lambda>_. Accept))\<lparr>w_alloc_ok := (\<lambda>k. k \<noteq> 3)\<rparr>)) = None"
proof -
  let ?w = "(demo_world (\<lambda>_. Accept))\<lparr>w_alloc_ok := (\<lambda>k. k \<noteq> 3)\<rparr>"
  have r: "fst (pslog_copy_fields demo_libc demo_fields [] ?w) = None"
    by (simp add: demo_fields_def pslog_copy_fields_def pslog_size_add_def size_max_eq
        pslog_calloc_internal_def pslog_size_mul_def field_struct_size_def pslog_copy_field_def
        pslog_malloc_internal_def demo_world_def pslog_i64_def pslog_str_def make_field_def
        ascii_trusted_measure_spec Let_def)
  have "live ?w = 0" by (simp add: live_def demo_world_def)
  with copy_fields_never_leaks [OF _ _ prod.collapse [symmetric], of demo_fields "[]" demo_libc ?w] r
  show ?thesis by (simp add: demo_fields_def size_max_eq)
qed

end
