(* ===== verification/LocalBuffer.thy ===== *)
theory LocalBuffer
  imports Times
begin

text \<open>
  Buffers without a shared state, as the library uses them for literals, key prefixes and field
  prefixes: while the allocator answers they collect whatever is appended, and nothing but the
  allocator's counters changes.
\<close>

section \<open>Local buffers grow as needed\<close>

lemma unshared_append_char:
  assumes "ready s" "\<not> b_shared (e_buf s)" "blen s < 2 ^ 62"
  shows "\<exists>b n. pslog_buffer_append_char c s = s\<lparr>e_buf := b, e_world := (e_world s)\<lparr>w_allocs := n\<rparr>\<rparr> \<and>
     b_data b = b_data (e_buf s) @ [c] \<and> w_allocs (e_world s) \<le> n \<and> \<not> b_shared b"
proof (cases "blen s = bcap s")
  case False
  with assms show ?thesis
    by (intro exI [where x = "put_bytes [c] (e_buf s)"] exI [where x = "w_allocs (e_world s)"])
      (auto simp: pslog_buffer_append_char_def ready_def)
next
  case True
  define m where "m = bcap s * 2 mod 2 ^ 64"
  have m: "m = bcap s * 2" "bcap s < m" "m \<le> size_max - 1" "bcap s \<le> size_max - 1" "0 < bcap s"
    using True assms by (auto simp: m_def ready_def size_max_eq)
  obtain r b' w' where r: "pslog_buffer_reserve m (e_buf s) (e_world s) = (r, b', w')" by (metis prod_cases3)
  have ne: "b_data (e_buf s) \<noteq> []" using full_nonempty [OF assms(1) True] .
  have flush: "pslog_buffer_flush s = s\<lparr>e_buf := b', e_world := w'\<rparr>"
    using assms ne m(5) r by (simp add: pslog_buffer_flush_def m_def)
  have al: "all_alloc (e_world s)" using assms by (simp add: ready_def)
  from r m(5) show ?thesis
  proof (cases rule: pslog_buffer_reserve_cases)
    case kept
    with al m show ?thesis by simp
  next
    case grown
    with assms True m flush show ?thesis
      by (intro exI [where x = "put_bytes [c] b'"] exI [where x = "Suc (w_allocs (e_world s))"])
        (auto simp: pslog_buffer_append_char_def Let_def ready_def)
  qed
qed

lemma unshared_appends:
  assumes "ready s" "\<not> b_shared (e_buf s)" "blen s + length t \<le> 2 ^ 62"
  shows "\<exists>b n. appends t s = s\<lparr>e_buf := b, e_world := (e_world s)\<lparr>w_allocs := n\<rparr>\<rparr> \<and>
     b_data b = b_data (e_buf s) @ t \<and> w_allocs (e_world s) \<le> n \<and> \<not> b_shared b"
  using assms
proof (induction t arbitrary: s)
  case Nil
  then show ?case
    by (intro exI [where x = "e_buf s"] exI [where x = "w_allocs (e_world s)"]) simp
next
  case (Cons c t)
  obtain b n where b: "pslog_buffer_append_char c s = s\<lparr>e_buf := b, e_world := (e_world s)\<lparr>w_allocs := n\<rparr>\<rparr>"
      "b_data b = b_data (e_buf s) @ [c]" "w_allocs (e_world s) \<le> n" "\<not> b_shared b"
    using unshared_append_char [of s c] Cons.prems by auto
  have "ready (pslog_buffer_append_char c s)" using Cons.prems by (simp add: ready_append_char)
  with Cons.IH [of "pslog_buffer_append_char c s"] Cons.prems b
  obtain b2 n2 where "appends (c # t) s = s\<lparr>e_buf := b2, e_world := (e_world s)\<lparr>w_allocs := n2\<rparr>\<rparr>"
      "b_data b2 = b_data (e_buf s) @ c # t" "n \<le> n2" "\<not> b_shared b2"
    by (auto simp: appends_Cons)
  with b(3) show ?case by (intro exI [where x = b2] exI [where x = n2]) simp
qed

lemma buffer_init_unshared:
  assumes "all_alloc w"
  shows "\<exists>b n. pslog_buffer_init False cap w = (b, w\<lparr>w_allocs := n\<rparr>) \<and> w_allocs w \<le> n \<and> \<not> b_shared b \<and>
    b_data b = [] \<and> \<not> b_null b \<and> 0 < b_capacity b"
proof -
  define nm where "nm = (case pslog_normalize_line_buffer_capacity cap of
      None \<Rightarrow> default_line_buffer_capacity | Some n \<Rightarrow> n)"
  have "0 < nm" by (auto simp: nm_def pslog_normalize_line_buffer_capacity_def default_line_buffer_capacity_def)
  moreover have "w = w\<lparr>w_allocs := w_allocs w\<rparr>" by simp
  moreover have "w_alloc_ok w (w_allocs w)" using assms by (simp add: all_alloc_def)
  ultimately show ?thesis
    unfolding pslog_buffer_init_def nm_def [symmetric] Let_def
    by (cases "inline_size \<le> nm"; cases "pslog_size_add nm 1")
      (auto simp: pslog_malloc_internal_def inline_size_def default_line_buffer_capacity_def
        intro: exI [where x = "w_allocs w"] le_refl)
qed

text \<open>What collecting text in a local buffer does to the allocator.\<close>

definition set_allocs :: "nat \<Rightarrow> nat \<Rightarrow> est \<Rightarrow> est" where
  "set_allocs n m s = s\<lparr>e_world := (e_world s)\<lparr>w_allocs := n, w_frees := m\<rparr>\<rparr>"

definition allocs_only :: "est \<Rightarrow> est \<Rightarrow> bool" where
  "allocs_only s s' = (\<exists>n m. s' = set_allocs n m s \<and> w_allocs (e_world s) \<le> n)"

lemma allocs_only_refl [simp]: "allocs_only s s"
  unfolding allocs_only_def
  by (intro exI [where x = "w_allocs (e_world s)"] exI [where x = "w_frees (e_world s)"]) (simp add: set_allocs_def)

lemma allocs_only_trans: "allocs_only s t \<Longrightarrow> allocs_only t u \<Longrightarrow> allocs_only s u"
proof -
  assume "allocs_only s t" "allocs_only t u"
  then obtain n m n' m' where "t = set_allocs n m s" "w_allocs (e_world s) \<le> n"
      "u = set_allocs n' m' t" "w_allocs (e_world t) \<le> n'"
    unfolding allocs_only_def by blast
  then show ?thesis unfolding allocs_only_def
    by (intro exI [where x = n'] exI [where x = m']) (simp add: set_allocs_def)
qed

lemma allocs_only_sel:
  "allocs_only s t \<Longrightarrow> e_shared t = e_shared s \<and> e_buf t = e_buf s \<and> (all_alloc (e_world s) \<longrightarrow> all_alloc (e_world t))"
  by (auto simp: allocs_only_def set_allocs_def all_alloc_def)

lemma local_buffer_collects:
  assumes "all_alloc (e_world s)" "length B \<le> 2 ^ 62"
    and "\<And>u. ready u \<Longrightarrow> f u = appends B u"
  shows "\<exists>s'. with_local_buffer cap f s = (B, s') \<and> allocs_only s s'"
proof -
  obtain b n where b: "pslog_buffer_init False cap (e_world s) = (b, (e_world s)\<lparr>w_allocs := n\<rparr>)"
    "w_allocs (e_world s) \<le> n" "\<not> b_shared b" "b_data b = []" "\<not> b_null b" "0 < b_capacity b"
    using buffer_init_unshared [OF assms(1), of cap] by blast
  let ?u = "s\<lparr>e_buf := b, e_world := (e_world s)\<lparr>w_allocs := n\<rparr>\<rparr>"
  have r: "ready ?u" using b assms(1) by (auto simp: ready_def all_alloc_def)
  obtain b2 n2 where b2: "appends B ?u = ?u\<lparr>e_buf := b2, e_world := (e_world ?u)\<lparr>w_allocs := n2\<rparr>\<rparr>"
      "b_data b2 = B" "n \<le> n2"
    using unshared_appends [OF r, of B] b assms(2) by auto
  define m where "m = (if b_heap_owned b2 \<and> \<not> b_null b2 then Suc (w_frees (e_world s)) else w_frees (e_world s))"
  have "with_local_buffer cap f s = (B, set_allocs n2 m s)"
    using b(1) b2 assms(3) [OF r]
    by (simp add: with_local_buffer_def pslog_buffer_destroy_def pslog_free_internal_def set_allocs_def m_def Let_def)
  moreover have "allocs_only s (set_allocs n2 m s)"
    unfolding allocs_only_def using b(2) b2(3) by (intro exI [where x = n2] exI [where x = m]) simp
  ultimately show ?thesis by blast
qed

end
