(* ===== verification/Kvfmt.thy ===== *)
theory Kvfmt
  imports FieldData LocalBuffer
begin

text \<open>
  The \<open>key=%verb\<close> format strings of the \<open>*f\<close> calls: their parser, the cache of parsed layouts with
  its pointer shortcut, the prefixes prepared for each key, and the fields a layout makes of its
  arguments.
\<close>

section \<open>Hashing\<close>

definition pslog_kvfmt_hash :: "cstring option \<Rightarrow> 64 word" where
  "pslog_kvfmt_hash kvfmt =
     (case kvfmt of None \<Rightarrow> 1469598103 | Some t \<Rightarrow> foldl fnv_step 1469598103 (map uc t))"

definition pslog_kvfmt_pointer_slot :: "64 word \<Rightarrow> nat" where
  "pslog_kvfmt_pointer_slot kvfmt =
     (let v1 = kvfmt XOR drop_bit 4 kvfmt; v2 = v1 XOR drop_bit 9 v1 in unat v2 mod 256)"

section \<open>Parsing a layout\<close>

definition kvfmt_max_fields :: nat where
  "kvfmt_max_fields = 32"

definition cptr_add :: "cptr \<Rightarrow> nat \<Rightarrow> cptr" where
  "cptr_add p n = (fst p + of_nat n, drop n (snd p))"

text \<open>The key loop: the bytes up to the \<open>=%\<close>, or up to the last byte; \<open>None\<close> at a byte no key may have.\<close>

fun scan_key :: "cstring \<Rightarrow> nat \<Rightarrow> nat option" where
  "scan_key (c # d # t) key_len =
     (if c = CHR ''='' \<and> d = CHR ''%'' then Some key_len
      else if uc c < 0x21 \<or> uc c = 34 \<or> uc c = 92 \<or> uc c = 0x7f then None
      else scan_key (d # t) (Suc key_len))"
| "scan_key t key_len = Some key_len"

definition kvfmt_verb :: "bool \<Rightarrow> nat \<Rightarrow> kvfmt_arg_type option" where
  "kvfmt_verb long_flag c =
     (if c = uc CHR ''s'' then Some ARG_STRING
      else if c = uc CHR ''d'' then Some (if long_flag then ARG_SIGNED_LONG else ARG_SIGNED_INT)
      else if c = uc CHR ''u'' then Some (if long_flag then ARG_UNSIGNED_LONG else ARG_UNSIGNED_INT)
      else if c = uc CHR ''f'' then Some ARG_DOUBLE
      else if c = uc CHR ''p'' then Some ARG_POINTER
      else if c = uc CHR ''b'' then Some ARG_BOOL
      else if c = uc CHR ''m'' then (if long_flag then None else Some ARG_ERRNO)
      else None)"

text \<open>One \<open>key=%verb\<close> token: its specification and the cursor behind it.\<close>

definition kvfmt_token :: "cptr \<Rightarrow> (kvfmt_field_spec \<times> cptr) option" where
  "kvfmt_token key_start =
     (case scan_key (snd key_start) 0 of
        None \<Rightarrow> None
      | Some key_len \<Rightarrow>
          (let c1 = cptr_add key_start key_len in
           if key_len = 0 \<or> cat (snd c1) 0 \<noteq> uc CHR ''='' \<or> cat (snd c1) 1 \<noteq> uc CHR ''%'' then None
           else
             (let c2 = cptr_add c1 2;
                  long_flag = (cat (snd c2) 0 = uc CHR ''l'');
                  c3 = (if long_flag then cptr_add c2 1 else c2)
              in case kvfmt_verb long_flag (cat (snd c3) 0) of
                   None \<Rightarrow> None
                 | Some arg_type \<Rightarrow>
                     (let c4 = cptr_add c3 1 in
                      if cat (snd c4) 0 \<noteq> 0 \<and> cat (snd c4) 0 \<noteq> uc CHR '' '' then None
                      else Some (\<lparr>ks_key = key_start, ks_key_len = key_len, ks_arg_type = arg_type,
                                  ks_console_prefix = [], ks_json_color_prefix = []\<rparr>, c4)))))"

definition skip_blanks :: "cptr \<Rightarrow> cptr" where
  "skip_blanks p = cptr_add p (length (takeWhile (\<lambda>c. c = CHR '' '') (snd p)))"

lemma kvfmt_token_length:
  "kvfmt_token p = Some (spec, p') \<Longrightarrow> length (snd p') < length (snd p)"
  by (auto simp: kvfmt_token_def cptr_add_def Let_def cat_def split: option.splits if_splits)

lemma skip_blanks_length: "length (snd (skip_blanks p)) \<le> length (snd p)"
  by (simp add: skip_blanks_def cptr_add_def)

function kvfmt_loop :: "cptr \<Rightarrow> kvfmt_field_spec list \<Rightarrow> kvfmt_field_spec list option" where
  "kvfmt_loop cursor specs =
     (let cursor1 = skip_blanks cursor in
      if snd cursor1 = [] then Some specs
      else if length specs \<ge> kvfmt_max_fields then None
      else case kvfmt_token cursor1 of
             None \<Rightarrow> None
           | Some (spec, cursor2) \<Rightarrow> kvfmt_loop cursor2 (specs @ [spec]))"
  by pat_completeness auto
termination
proof (relation "measure (\<lambda>(cursor, specs). length (snd cursor))", goal_cases)
  case (2 cursor specs cursor1 p spec cursor2)
  then show ?case using kvfmt_token_length [of cursor1 spec cursor2] skip_blanks_length [of cursor]
    by (metis (no_types, lifting) case_prod_conv in_measure order_less_le_trans)
qed simp

declare kvfmt_loop.simps [simp del]

text \<open>
  \<open>None\<close> is the result -1, which leaves the entry reset; the entry that is filled was empty before,
  so its own reset frees nothing.
\<close>

definition kvfmt_zero :: kvfmt_cache_entry where
  "kvfmt_zero = \<lparr>ke_kvfmt = None, ke_kvfmt_len = 0, ke_kvfmt_hash = 0, ke_fields = []\<rparr>"

definition pslog_parse_kvfmt_layout ::
  "libc \<Rightarrow> cptr option \<Rightarrow> bool \<Rightarrow> world \<Rightarrow> kvfmt_cache_entry option \<times> world" where
  "pslog_parse_kvfmt_layout X kvfmt own_storage w =
     (case kvfmt of
        None \<Rightarrow> (Some kvfmt_zero, w)
      | Some (addr, t) \<Rightarrow>
          (let (storage, w1) = (if own_storage then pslog_strdup_local (Some t) w else (Some t, w))
           in case storage of
                None \<Rightarrow> (None, w1)
              | Some copy \<Rightarrow>
                  (let start = (if own_storage then lc_block X (w_allocs w) else addr, copy)
                   in case kvfmt_loop start [] of
                        None \<Rightarrow> (None, pslog_free_internal own_storage w1)
                      | Some specs \<Rightarrow>
                          (Some \<lparr>ke_kvfmt = Some start, ke_kvfmt_len = length t,
                                 ke_kvfmt_hash = pslog_kvfmt_hash (Some t), ke_fields = specs\<rparr>, w1))))"

section \<open>Prepared prefixes\<close>

fun kvfmt_value_color :: "pslog_palette \<Rightarrow> kvfmt_arg_type \<Rightarrow> cstring" where
  "kvfmt_value_color palette ARG_STRING = p_string palette"
| "kvfmt_value_color palette ARG_SIGNED_INT = p_number palette"
| "kvfmt_value_color palette ARG_SIGNED_LONG = p_number palette"
| "kvfmt_value_color palette ARG_UNSIGNED_INT = p_number palette"
| "kvfmt_value_color palette ARG_UNSIGNED_LONG = p_number palette"
| "kvfmt_value_color palette ARG_DOUBLE = p_number palette"
| "kvfmt_value_color palette ARG_POINTER = p_number palette"
| "kvfmt_value_color palette ARG_BOOL = p_boolean palette"
| "kvfmt_value_color palette ARG_ERRNO = []"

definition spec_key :: "kvfmt_field_spec \<Rightarrow> string" where
  "spec_key spec = take (ks_key_len spec) (snd (ks_key spec))"

definition append_kvfmt_console_prefix :: "shared_cfg \<Rightarrow> kvfmt_field_spec \<Rightarrow> est \<Rightarrow> est" where
  "append_kvfmt_console_prefix cfg spec s =
     (let palette = c_palette cfg; color = c_color_enabled cfg;
          s1 = (if color then append_n_fast (p_reset palette) s else s);
          s2 = append_char_fast CHR '' '' s1;
          s3 = (if color then append_n_fast (p_key palette) s2 else s2);
          s4 = append_char_fast CHR ''='' (append_n_fast (spec_key spec) s3)
      in if color
         then (let value_color = kvfmt_value_color palette (ks_arg_type spec);
                   s5 = append_n_fast (p_reset palette) s4
               in if length value_color > 0 then append_n_fast value_color s5 else s5)
         else s4)"

definition append_kvfmt_json_prefix :: "shared_cfg \<Rightarrow> kvfmt_field_spec \<Rightarrow> est \<Rightarrow> est" where
  "append_kvfmt_json_prefix cfg spec s =
     (let s1 = (if c_color_enabled cfg then append_n_fast (p_key (c_palette cfg)) s else s)
      in append_char_fast CHR '':'' (append_json_trusted_string_n_fast (spec_key spec) s1))"

text \<open>Both prefixes have room for 127 bytes and are left empty when the text is longer.\<close>

definition prepare_spec :: "shared_cfg \<Rightarrow> kvfmt_field_spec \<Rightarrow> est \<Rightarrow> kvfmt_field_spec \<times> est" where
  "prepare_spec cfg spec s =
     (let (console, s1) = with_local_buffer 127 (append_kvfmt_console_prefix cfg spec) s;
          (json, s2) = with_local_buffer 127 (append_kvfmt_json_prefix cfg spec) s1
      in (spec\<lparr>ks_console_prefix := (if length console < 128 then console else []),
               ks_json_color_prefix := (if length json < 128 then json else [])\<rparr>, s2))"

fun prepare_specs :: "shared_cfg \<Rightarrow> kvfmt_field_spec list \<Rightarrow> est \<Rightarrow> kvfmt_field_spec list \<times> est" where
  "prepare_specs cfg [] s = ([], s)"
| "prepare_specs cfg (spec # specs) s =
     (let (spec', s1) = prepare_spec cfg spec s; (specs', s2) = prepare_specs cfg specs s1
      in (spec' # specs', s2))"

definition pslog_prepare_kvfmt_cache_entry ::
  "shared_cfg option \<Rightarrow> kvfmt_cache_entry \<Rightarrow> est \<Rightarrow> kvfmt_cache_entry \<times> est" where
  "pslog_prepare_kvfmt_cache_entry shared entry s =
     (case shared of
        None \<Rightarrow> (entry, s)
      | Some cfg \<Rightarrow> (let (specs, s1) = prepare_specs cfg (ke_fields entry) s in (entry\<lparr>ke_fields := specs\<rparr>, s1)))"

section \<open>The layout cache\<close>

definition entry_text :: "kvfmt_cache_entry \<Rightarrow> cstring" where
  "entry_text e = (case ke_kvfmt e of None \<Rightarrow> [] | Some p \<Rightarrow> snd p)"

text \<open>The probe loop over the slots in turn: a match, or the first free slot met.\<close>

fun kvfmt_probe ::
  "(nat \<Rightarrow> kvfmt_cache_entry option) \<Rightarrow> 64 word \<Rightarrow> cstring \<Rightarrow> nat list \<Rightarrow> nat option \<Rightarrow> nat option \<times> nat option" where
  "kvfmt_probe cache hash t [] selected = (None, selected)"
| "kvfmt_probe cache hash t (i # is) selected =
     (case cache i of
        Some e \<Rightarrow>
          if ke_kvfmt_hash e = hash \<and> ke_kvfmt_len e = length t \<and> take (length t) (entry_text e) = t
          then (Some i, selected) else kvfmt_probe cache hash t is selected
      | None \<Rightarrow> kvfmt_probe cache hash t is (if selected = None then Some i else selected))"

definition kvfmt_slots :: "64 word \<Rightarrow> nat list" where
  "kvfmt_slots hash = map (\<lambda>probe. (unat hash mod 512 + probe) mod 512) [0..<8]"

text \<open>What \<open>*out_entry\<close> points to: nothing, an entry of the shared cache, or the caller's own.\<close>

datatype resolved = R_null | R_cached kvfmt_cache_entry | R_local kvfmt_cache_entry

definition ptr_cache_hit :: "pslog_shared \<Rightarrow> 64 word \<Rightarrow> cstring \<Rightarrow> kvfmt_cache_entry option" where
  "ptr_cache_hit sh addr t =
     (case s_kvfmt_ptr_cache sh of
        None \<Rightarrow> None
      | Some pc \<Rightarrow>
          (case pc (pslog_kvfmt_pointer_slot addr) of
             None \<Rightarrow> None
           | Some (input, i) \<Rightarrow>
               if input = addr
               then (case s_kvfmt_cache sh i of
                       None \<Rightarrow> None
                     | Some e \<Rightarrow> if ke_kvfmt_len e = length t \<and> entry_text e = t then Some e else None)
               else None))"

definition remember_pointer :: "64 word \<Rightarrow> nat \<Rightarrow> est \<Rightarrow> est" where
  "remember_pointer addr i s =
     (let sh = e_shared s in
      case s_kvfmt_ptr_cache sh of
        None \<Rightarrow> s
      | Some pc \<Rightarrow> s\<lparr>e_shared := sh\<lparr>s_kvfmt_ptr_cache := Some (pc(pslog_kvfmt_pointer_slot addr := Some (addr, i)))\<rparr>\<rparr>)"

definition parse_local_entry ::
  "libc \<Rightarrow> shared_cfg option \<Rightarrow> cptr \<Rightarrow> est \<Rightarrow> resolved option \<times> est" where
  "parse_local_entry X shared kvfmt s =
     (case pslog_parse_kvfmt_layout X (Some kvfmt) False (e_world s) of
        (None, w1) \<Rightarrow> (None, s\<lparr>e_world := w1\<rparr>)
      | (Some e, w1) \<Rightarrow>
          (let (e', s1) = pslog_prepare_kvfmt_cache_entry shared e (s\<lparr>e_world := w1\<rparr>)
           in (Some (R_local e'), s1)))"

definition pslog_resolve_kvfmt_entry ::
  "libc \<Rightarrow> shared_cfg option \<Rightarrow> cptr option \<Rightarrow> est \<Rightarrow> resolved option \<times> est" where
  "pslog_resolve_kvfmt_entry X shared kvfmt s =
     (case kvfmt of
        None \<Rightarrow> (Some R_null, s)
      | Some (addr, t) \<Rightarrow>
          (case shared of
             None \<Rightarrow> parse_local_entry X None (addr, t) s
           | Some cfg \<Rightarrow>
               (case ptr_cache_hit (e_shared s) addr t of
                  Some e \<Rightarrow> (Some (R_cached e), s)
                | None \<Rightarrow>
                    (let hash = pslog_kvfmt_hash (Some t);
                         cache = s_kvfmt_cache (e_shared s)
                     in case kvfmt_probe cache hash t (kvfmt_slots hash) None of
                          (Some i, _) \<Rightarrow> (Some (R_cached (the (cache i))), remember_pointer addr i s)
                        | (None, Some i) \<Rightarrow>
                            (case pslog_parse_kvfmt_layout X (Some (addr, t)) True (e_world s) of
                               (None, w1) \<Rightarrow> (None, s\<lparr>e_world := w1\<rparr>)
                             | (Some e, w1) \<Rightarrow>
                                 (let (e', s1) = pslog_prepare_kvfmt_cache_entry shared e (s\<lparr>e_world := w1\<rparr>);
                                      sh = e_shared s1;
                                      s2 = s1\<lparr>e_shared := sh\<lparr>s_kvfmt_cache := (s_kvfmt_cache sh)(i := Some e')\<rparr>\<rparr>
                                  in (Some (R_cached e'), remember_pointer addr i s2)))
                        | (None, None) \<Rightarrow> parse_local_entry X shared (addr, t) s))))"

section \<open>Fields from arguments\<close>

text \<open>
  The variable arguments in order, each with the promoted type it was passed as. Reading one as
  another type, or more than there are, is undefined in C; the model then reads NULL or zero.
\<close>

datatype kvfmt_arg =
    A_string "cstring option" | A_int "32 word" | A_long "64 word" | A_uint "32 word" | A_ulong "64 word"
  | A_double "64 word" | A_pointer "64 word"

fun va_string :: "kvfmt_arg list \<Rightarrow> cstring option" where
  "va_string (A_string t # _) = t"
| "va_string _ = None"

fun va_int :: "kvfmt_arg list \<Rightarrow> 32 word" where
  "va_int (A_int n # _) = n"
| "va_int _ = 0"

fun va_long :: "kvfmt_arg list \<Rightarrow> 64 word" where
  "va_long (A_long n # _) = n"
| "va_long _ = 0"

fun va_uint :: "kvfmt_arg list \<Rightarrow> 32 word" where
  "va_uint (A_uint n # _) = n"
| "va_uint _ = 0"

fun va_ulong :: "kvfmt_arg list \<Rightarrow> 64 word" where
  "va_ulong (A_ulong n # _) = n"
| "va_ulong _ = 0"

fun va_double :: "kvfmt_arg list \<Rightarrow> 64 word" where
  "va_double (A_double n # _) = n"
| "va_double _ = 0"

fun va_pointer :: "kvfmt_arg list \<Rightarrow> 64 word" where
  "va_pointer (A_pointer n # _) = n"
| "va_pointer _ = 0"

definition or_empty :: "cstring option \<Rightarrow> cstring" where
  "or_empty t = (case t of None \<Rightarrow> [] | Some x \<Rightarrow> x)"

text \<open>The value a verb makes of the next argument, and the arguments left (\<open>%m\<close> takes none).\<close>

fun kvfmt_value :: "kvfmt_arg_type \<Rightarrow> 32 word \<Rightarrow> kvfmt_arg list \<Rightarrow> pslog_value" where
  "kvfmt_value ARG_STRING saved_errno ap = V_string (Some (or_empty (va_string ap)))"
| "kvfmt_value ARG_SIGNED_INT saved_errno ap = V_signed (scast (va_int ap))"
| "kvfmt_value ARG_SIGNED_LONG saved_errno ap = V_signed (va_long ap)"
| "kvfmt_value ARG_UNSIGNED_INT saved_errno ap = V_unsigned (ucast (va_uint ap))"
| "kvfmt_value ARG_UNSIGNED_LONG saved_errno ap = V_unsigned (va_ulong ap)"
| "kvfmt_value ARG_DOUBLE saved_errno ap = V_double (va_double ap)"
| "kvfmt_value ARG_POINTER saved_errno ap = V_pointer (va_pointer ap)"
| "kvfmt_value ARG_BOOL saved_errno ap = V_bool (va_int ap \<noteq> 0)"
| "kvfmt_value ARG_ERRNO saved_errno ap = V_errno (scast saved_errno)"

definition va_next :: "kvfmt_arg_type \<Rightarrow> kvfmt_arg list \<Rightarrow> kvfmt_arg list" where
  "va_next ty ap = (if ty = ARG_ERRNO then ap else tl ap)"

definition materialize_spec ::
  "pslog_mode \<Rightarrow> 32 word \<Rightarrow> kvfmt_field_spec \<Rightarrow> kvfmt_arg list \<Rightarrow> pslog_field" where
  "materialize_spec mode saved_errno spec ap =
     (let v = kvfmt_value (ks_arg_type spec) saved_errno ap;
          field = \<lparr>f_key = Some (ks_key spec), f_key_len = ks_key_len spec, f_value_len = 0, f_value = v,
                   f_trusted_key = True, f_trusted_value = False, f_console_simple_value = False\<rparr>
      in case v of
           V_string sv \<Rightarrow>
             (let (trusted, value_len) = pslog_string_is_ascii_trusted_measure sv;
                  simple = (mode = MODE_CONSOLE \<and> fst (pslog_string_is_console_simple_measure sv))
              in field\<lparr>f_trusted_value := trusted, f_value_len := value_len, f_console_simple_value := simple\<rparr>)
         | _ \<Rightarrow> field)"

fun materialize_specs ::
  "pslog_mode \<Rightarrow> 32 word \<Rightarrow> kvfmt_field_spec list \<Rightarrow> kvfmt_arg list \<Rightarrow> pslog_field list" where
  "materialize_specs mode saved_errno [] ap = []"
| "materialize_specs mode saved_errno (spec # specs) ap =
     materialize_spec mode saved_errno spec ap #
     materialize_specs mode saved_errno specs (va_next (ks_arg_type spec) ap)"

definition pslog_materialize_kvfmt_fields ::
  "kvfmt_cache_entry option \<Rightarrow> pslog_mode \<Rightarrow> 32 word \<Rightarrow> kvfmt_arg list \<Rightarrow> pslog_field list option" where
  "pslog_materialize_kvfmt_fields entry mode saved_errno ap =
     (case entry of
        None \<Rightarrow> None
      | Some e \<Rightarrow>
          if length (ke_fields e) > kvfmt_max_fields then None
          else Some (materialize_specs mode saved_errno (ke_fields e) ap))"

definition resolved_entry :: "resolved \<Rightarrow> kvfmt_cache_entry option" where
  "resolved_entry r = (case r of R_null \<Rightarrow> None | R_cached e \<Rightarrow> Some e | R_local e \<Rightarrow> Some e)"

definition pslog_parse_kvfmt ::
  "libc \<Rightarrow> shared_cfg option \<Rightarrow> pslog_mode \<Rightarrow> cptr option \<Rightarrow> 32 word \<Rightarrow> kvfmt_arg list \<Rightarrow> est \<Rightarrow>
     pslog_field list option \<times> est" where
  "pslog_parse_kvfmt X shared mode kvfmt saved_errno ap s =
     (if kvfmt = None then (Some [], s)
      else
        (let lock = (\<lambda>u. if shared \<noteq> None then u\<lparr>e_shared := pslog_state_lock (e_shared u)\<rparr> else u);
             unlock = (\<lambda>u. if shared \<noteq> None then u\<lparr>e_shared := pslog_state_unlock (e_shared u)\<rparr> else u)
         in case pslog_resolve_kvfmt_entry X shared kvfmt (lock s) of
              (None, s1) \<Rightarrow> (None, unlock s1)
            | (Some r, s1) \<Rightarrow>
                (pslog_materialize_kvfmt_fields (resolved_entry r) mode saved_errno ap, unlock s1)))"

section \<open>The language of format strings\<close>

definition key_char :: "char \<Rightarrow> bool" where
  "key_char c = (0x21 \<le> uc c \<and> uc c \<noteq> 34 \<and> uc c \<noteq> 92 \<and> uc c \<noteq> 0x7f)"

text \<open>A key: permitted bytes, without a \<open>=%\<close> inside.\<close>

fun key_text :: "string \<Rightarrow> bool" where
  "key_text [] = True"
| "key_text [c] = key_char c"
| "key_text (c # d # t) = (key_char c \<and> \<not> (c = CHR ''='' \<and> d = CHR ''%'') \<and> key_text (d # t))"

text \<open>The conversions; the length flag is accepted, and ignored, in front of some of them.\<close>

definition verb_type :: "string \<Rightarrow> kvfmt_arg_type option" where
  "verb_type v = map_of [(''s'', ARG_STRING), (''ls'', ARG_STRING), (''d'', ARG_SIGNED_INT), (''ld'', ARG_SIGNED_LONG),
     (''u'', ARG_UNSIGNED_INT), (''lu'', ARG_UNSIGNED_LONG), (''f'', ARG_DOUBLE), (''lf'', ARG_DOUBLE),
     (''p'', ARG_POINTER), (''lp'', ARG_POINTER), (''b'', ARG_BOOL), (''lb'', ARG_BOOL), (''m'', ARG_ERRNO)] v"

text \<open>A layout: for each field the blanks in front of it, its key and its conversion.\<close>

type_synonym layout = "(nat \<times> string \<times> string) list"

fun render_layout :: "layout \<Rightarrow> nat \<Rightarrow> string" where
  "render_layout [] m = replicate m CHR '' ''"
| "render_layout ((n, k, v) # ts) m = replicate n CHR '' '' @ k @ ''=%'' @ v @ render_layout ts m"

definition token_wf :: "nat \<times> string \<times> string \<Rightarrow> bool" where
  "token_wf t = (case t of (n, k, v) \<Rightarrow> k \<noteq> [] \<and> key_text k \<and> verb_type v \<noteq> None)"

definition layout_wf :: "layout \<Rightarrow> bool" where
  "layout_wf ts = (list_all token_wf ts \<and> list_all (\<lambda>t. 0 < fst t) (tl ts))"

definition layout_fields :: "layout \<Rightarrow> (string \<times> kvfmt_arg_type) list" where
  "layout_fields ts = map (\<lambda>(n, k, v). (k, the (verb_type v))) ts"

definition spec_sig :: "kvfmt_field_spec \<Rightarrow> string \<times> kvfmt_arg_type" where
  "spec_sig spec = (spec_key spec, ks_arg_type spec)"

definition kvfmt_signature :: "cstring \<Rightarrow> (string \<times> kvfmt_arg_type) list option" where
  "kvfmt_signature t = map_option (map spec_sig) (kvfmt_loop (0, t) [])"

lemma key_char_simps: "key_char c \<Longrightarrow> \<not> (uc c < 0x21 \<or> uc c = 34 \<or> uc c = 92 \<or> uc c = 0x7f)"
  by (auto simp: key_char_def)

lemma scan_key_text: "key_text k \<Longrightarrow> scan_key (k @ CHR ''='' # CHR ''%'' # r) n = Some (n + length k)"
  by (induction k arbitrary: n rule: key_text.induct) (auto simp: key_char_simps)

lemma scan_key_sound:
  "scan_key t m = Some n \<Longrightarrow> m \<le> n \<and> n - m \<le> length t \<and>
     (cat (drop (n - m) t) 0 = uc CHR ''='' \<longrightarrow> cat (drop (n - m) t) 1 = uc CHR ''%'' \<longrightarrow> key_text (take (n - m) t))"
proof (induction t m rule: scan_key.induct)
  case (1 c d t m)
  show ?case
  proof (cases "c = CHR ''='' \<and> d = CHR ''%''")
    case True
    with 1(2) show ?thesis by simp
  next
    case False
    with 1(2) have ok: "key_char c" and r: "scan_key (d # t) (Suc m) = Some n"
      by (auto simp: key_char_def split: if_splits)
    note IH = 1(1) [OF False _ r]
    have IH: "Suc m \<le> n" "n - Suc m \<le> length (d # t)"
      "cat (drop (n - Suc m) (d # t)) 0 = uc CHR ''='' \<longrightarrow> cat (drop (n - Suc m) (d # t)) 1 = uc CHR ''%'' \<longrightarrow>
        key_text (take (n - Suc m) (d # t))"
      using IH ok by (auto simp: key_char_def)
    have s: "n - m = Suc (n - Suc m)" using IH(1) by simp
    have "key_text (c # take (n - Suc m) (d # t))" if "key_text (take (n - Suc m) (d # t))"
      using that ok False by (cases "n - Suc m") auto
    with IH show ?thesis unfolding s by auto
  qed
qed (auto simp: cat_def)

lemma verb_type_cases:
  "verb_type v = Some ty \<Longrightarrow> (v, ty) \<in> set [(''s'', ARG_STRING), (''ls'', ARG_STRING), (''d'', ARG_SIGNED_INT), (''ld'', ARG_SIGNED_LONG),
     (''u'', ARG_UNSIGNED_INT), (''lu'', ARG_UNSIGNED_LONG), (''f'', ARG_DOUBLE), (''lf'', ARG_DOUBLE),
     (''p'', ARG_POINTER), (''lp'', ARG_POINTER), (''b'', ARG_BOOL), (''lb'', ARG_BOOL), (''m'', ARG_ERRNO)]"
  unfolding verb_type_def by (rule map_of_SomeD)

lemma kvfmt_verb_text:
  "kvfmt_verb l (uc c) = Some ty \<Longrightarrow> verb_type ((if l then ''l'' else []) @ [c]) = Some ty"
  unfolding kvfmt_verb_def uc_eq_iff by (cases l) (auto simp: verb_type_def split: if_splits)

lemma verb_type_text:
  assumes "verb_type v = Some ty"
  obtains l c where "v = (if l then ''l'' else []) @ [c]" "kvfmt_verb l (uc c) = Some ty" "\<not> l \<Longrightarrow> c \<noteq> CHR ''l''"
proof (rule that [of "length v = 2" "last v"])
  note v = verb_type_cases [OF assms]
  show "v = (if length v = 2 then ''l'' else []) @ [last v]" using v by simp (elim disjE; simp)
  show "kvfmt_verb (length v = 2) (uc (last v)) = Some ty"
    using v unfolding kvfmt_verb_def uc_eq_iff by simp (elim disjE; simp)
  show "last v \<noteq> CHR ''l''" using v by simp (elim disjE; simp)
qed

definition ends :: "string \<Rightarrow> bool" where
  "ends r = (r = [] \<or> hd r = CHR '' '')"

lemma ends_cat: "cstr_ok r \<Longrightarrow> (cat r 0 \<noteq> 0 \<and> cat r 0 \<noteq> uc CHR '' '') = (\<not> ends r)"
  by (cases r) (auto simp: ends_def char_eq_uc)

lemma kvfmt_token_complete:
  assumes "k \<noteq> []" "key_text k" "verb_type v = Some ty" "ends r" "cstr_ok r"
  shows "kvfmt_token (a, k @ ''=%'' @ v @ r) =
    Some (\<lparr>ks_key = (a, k @ ''=%'' @ v @ r), ks_key_len = length k, ks_arg_type = ty,
       ks_console_prefix = [], ks_json_color_prefix = []\<rparr>, cptr_add (a, k @ ''=%'' @ v @ r) (length k + 2 + length v))"
proof -
  have scan: "scan_key (k @ CHR ''='' # CHR ''%'' # v @ r) 0 = Some (length k)"
    using scan_key_text [OF assms(2), of "v @ r" 0] by simp
  have e: "cat r 0 = 0 \<or> cat r 0 = 32" using ends_cat [OF assms(5)] assms(4) by auto
  obtain l c where v: "v = (if l then ''l'' else []) @ [c]" "kvfmt_verb l (uc c) = Some ty" "\<not> l \<Longrightarrow> c \<noteq> CHR ''l''"
    by (rule verb_type_text [OF assms(3)]) blast
  show ?thesis
  proof (cases l)
    case True
    with v(1) have v': "v = [CHR ''l'', c]" by simp
    show ?thesis
      using assms(1) e v(2) True scan unfolding v' by (auto simp: kvfmt_token_def cptr_add_def Let_def ac_simps)
  next
    case False
    with v(1) have v': "v = [c]" by simp
    have "uc c \<noteq> 108" using v(3) [OF False] by (simp add: char_eq_uc)
    then show ?thesis
      using assms(1) e v(2) False scan unfolding v' by (auto simp: kvfmt_token_def cptr_add_def Let_def ac_simps)
  qed
qed

lemma kvfmt_token_sound:
  assumes t: "kvfmt_token (a, t) = Some (spec, p)" and ok: "cstr_ok t"
  obtains k v r where "t = k @ ''=%'' @ v @ r" "token_wf (n, k, v)" "ends r" "snd p = r"
    "spec_sig spec = (k, the (verb_type v))"
proof -
  from t obtain m where m: "scan_key t 0 = Some m" "m \<noteq> 0" "cat (drop m t) 0 = uc CHR ''=''" "cat (drop m t) 1 = uc CHR ''%''"
    unfolding kvfmt_token_def cptr_add_def by (auto simp: Let_def split: option.splits if_splits)
  note sc = scan_key_sound [OF m(1), simplified]
  obtain r1 where r1: "drop m t = CHR ''='' # CHR ''%'' # r1"
    using m(3,4) by (cases "drop m t" rule: list.exhaust; cases "tl (drop m t)") (auto simp: char_eq_uc cat_def split: if_splits)
  define k where "k = take m t"
  have tk: "t = k @ CHR ''='' # CHR ''%'' # r1" unfolding k_def r1 [symmetric] by simp
  have k: "key_text k" "k \<noteq> []" "length k = m" using sc m by (auto simp: k_def)
  have okr: "cstr_ok r1" using ok tk by simp
  define l where "l = (cat r1 0 = uc CHR ''l'')"
  define r2 where "r2 = (if l then tl r1 else r1)"
  have d2: "drop 2 (drop m t) = r1" by (simp add: r1)
  obtain ty where ty: "kvfmt_verb l (cat r2 0) = Some ty" and sp: "spec = \<lparr>ks_key = (a, t), ks_key_len = m, ks_arg_type = ty,
      ks_console_prefix = [], ks_json_color_prefix = []\<rparr>" and p: "snd p = tl r2" "\<not> (cat (tl r2) 0 \<noteq> 0 \<and> cat (tl r2) 0 \<noteq> uc CHR '' '')"
    using t m unfolding kvfmt_token_def
    by (auto simp: Let_def cptr_add_def d2 [unfolded drop_drop] l_def r2_def drop_Suc drop_drop r1 split: option.splits if_splits)
  from ty obtain c r where r2: "r2 = c # r" by (cases r2) (auto simp: kvfmt_verb_def)
  define v where "v = (if l then ''l'' else []) @ [c]"
  have "verb_type v = Some ty" using kvfmt_verb_text [of l c ty] ty r2 by (simp add: v_def)
  moreover have "r1 = v @ r"
    using r2 by (cases r1) (auto simp: v_def r2_def l_def char_eq_uc split: if_splits)
  moreover have "ends r" using p(2) r2 ends_cat [of r] okr \<open>r1 = v @ r\<close> by auto
  ultimately show ?thesis
    using that [of k v r] tk k p(1) r2 sp by (simp add: token_wf_def spec_sig_def spec_key_def)
qed

lemma key_text_hd: "k \<noteq> [] \<Longrightarrow> key_text k \<Longrightarrow> key_char (hd k)"
  by (cases k rule: key_text.cases) auto

lemma key_text_all: "key_text k \<Longrightarrow> list_all key_char k"
  by (induction k rule: key_text.induct) auto

lemma key_char_ok: "list_all key_char k \<Longrightarrow> cstr_ok k"
  by (fastforce simp: cstr_ok_def list_all_iff key_char_def)

lemma verb_ok: "verb_type v = Some ty \<Longrightarrow> cstr_ok v"
  using verb_type_cases [of v ty] by simp (elim disjE; simp)

lemma cstr_ok_blanks [simp]: "cstr_ok (replicate n CHR '' '')"
  by (simp add: cstr_ok_def)

lemma render_layout_ok: "list_all token_wf ts \<Longrightarrow> cstr_ok (render_layout ts m)"
  by (induction ts m rule: render_layout.induct)
    (auto simp: token_wf_def key_text_all key_char_ok verb_ok)

lemma takeWhile_blanks:
  "t = [] \<or> hd t \<noteq> CHR '' '' \<Longrightarrow> takeWhile (\<lambda>c. c = CHR '' '') (replicate n CHR '' '' @ t) = replicate n CHR '' ''"
  by (induction n) (cases t, simp_all)

lemma skip_blanks_eq:
  "t = [] \<or> hd t \<noteq> CHR '' '' \<Longrightarrow> skip_blanks (a, replicate n CHR '' '' @ t) = (a + of_nat n, t)"
  by (simp add: skip_blanks_def cptr_add_def takeWhile_blanks)

lemma render_layout_ends: "list_all (\<lambda>t. 0 < fst t) ts \<Longrightarrow> ends (render_layout ts m)"
  by (cases ts; cases m) (auto simp: ends_def gr0_conv_Suc)

lemma kvfmt_loop_complete:
  assumes "list_all token_wf ts" "list_all (\<lambda>t. 0 < fst t) (tl ts)" "length acc + length ts \<le> kvfmt_max_fields"
  shows "\<exists>specs. kvfmt_loop (a, render_layout ts m) acc = Some (acc @ specs) \<and> map spec_sig specs = layout_fields ts"
  using assms
proof (induction ts arbitrary: a acc)
  case Nil
  have "skip_blanks (a, replicate m CHR '' '') = (a + of_nat m, [])" using skip_blanks_eq [of "[]" a m] by simp
  then show ?case by (subst kvfmt_loop.simps) (simp add: layout_fields_def)
next
  case (Cons t ts)
  obtain n k v where t: "t = (n, k, v)" by (cases t)
  with Cons.prems(1) obtain ty where k: "k \<noteq> []" "key_text k" "verb_type v = Some ty" by (auto simp: token_wf_def)
  let ?r = "render_layout ts m" and ?u = "k @ ''=%'' @ v @ render_layout ts m"
  have sk: "skip_blanks (a, render_layout (t # ts) m) = (a + of_nat n, ?u)"
  proof -
    have "hd k \<noteq> CHR '' ''" using key_text_hd [OF k(1,2)] by (auto simp: key_char_def)
    with k(1) skip_blanks_eq [of ?u a n] show ?thesis by (simp add: t)
  qed
  have tok: "kvfmt_token (a + of_nat n, ?u) = Some (\<lparr>ks_key = (a + of_nat n, ?u), ks_key_len = length k, ks_arg_type = ty,
       ks_console_prefix = [], ks_json_color_prefix = []\<rparr>, cptr_add (a + of_nat n, ?u) (length k + 2 + length v))"
    using k Cons.prems by (intro kvfmt_token_complete render_layout_ends render_layout_ok) simp_all
  define spec where "spec = \<lparr>ks_key = (a + of_nat n, ?u), ks_key_len = length k, ks_arg_type = ty,
       ks_console_prefix = [], ks_json_color_prefix = []\<rparr>"
  define b where "b = a + of_nat n + of_nat (length k + 2 + length v)"
  have c: "cptr_add (a + of_nat n, ?u) (length k + 2 + length v) = (b, ?r)"
    by (simp add: cptr_add_def b_def)
  have step: "kvfmt_loop (a, render_layout (t # ts) m) acc = kvfmt_loop (b, ?r) (acc @ [spec])"
    using Cons.prems(3) k(1)
    by (subst kvfmt_loop.simps) (simp only: sk snd_conv Let_def tok c option.case prod.case spec_def [symmetric], simp)
  have tl: "list_all (\<lambda>t. 0 < fst t) (tl ts)" using Cons.prems(2) by (cases ts) simp_all
  obtain specs where "kvfmt_loop (b, ?r) (acc @ [spec]) = Some ((acc @ [spec]) @ specs)" "map spec_sig specs = layout_fields ts"
    using Cons.IH [OF _ tl, of "acc @ [spec]" b] Cons.prems by auto
  moreover have "spec_sig spec = (k, ty)" by (simp add: spec_sig_def spec_key_def spec_def)
  ultimately show ?case unfolding step by (intro exI [where x = "spec # specs"]) (simp add: layout_fields_def t k)
qed

lemma kvfmt_loop_sound:
  assumes "kvfmt_loop p acc = Some specs" "cstr_ok (snd p)" "length acc \<le> kvfmt_max_fields"
  shows "\<exists>ts m ss. snd p = render_layout ts m \<and> layout_wf ts \<and> (ends (snd p) \<longrightarrow> list_all (\<lambda>t. 0 < fst t) ts) \<and>
    specs = acc @ ss \<and> map spec_sig ss = layout_fields ts \<and> length specs \<le> kvfmt_max_fields"
  using assms
proof (induction p acc rule: kvfmt_loop.induct)
  case (1 p acc)
  obtain a t where p: "p = (a, t)" by (cases p)
  define n where "n = length (takeWhile (\<lambda>c. c = CHR '' '') t)"
  define u where "u = drop n t"
  have blanks: "takeWhile (\<lambda>c. c = CHR '' '') t = replicate n CHR '' ''"
    unfolding n_def by (intro replicate_length_same [symmetric]) (auto dest: set_takeWhileD)
  have tu: "t = replicate n CHR '' '' @ u"
    unfolding u_def n_def using blanks takeWhile_dropWhile_id [of "\<lambda>c. c = CHR '' ''" t]
    by (simp add: dropWhile_eq_drop n_def)
  have sk: "skip_blanks p = (a + of_nat n, u)" by (simp add: p skip_blanks_def cptr_add_def n_def u_def)
  have n0: "0 < n" if "ends t" "u \<noteq> []"
  proof -
    have "t \<noteq> []" using that(2) tu by simp
    with that(1) have "takeWhile (\<lambda>c. c = CHR '' '') t \<noteq> []" by (cases t) (auto simp: ends_def)
    then show ?thesis by (simp add: n_def)
  qed
  show ?case
  proof (cases "u = []")
    case True
    with 1(2,4) sk have "specs = acc" by (subst (asm) kvfmt_loop.simps) simp
    with True tu p 1(4) show ?thesis
      by (intro exI [where x = "[]"] exI [where x = n]) (simp add: layout_wf_def layout_fields_def)
  next
    case False
    from 1(2) sk False obtain spec q where q: "kvfmt_token (a + of_nat n, u) = Some (spec, q)"
      "kvfmt_loop q (acc @ [spec]) = Some specs" "length acc < kvfmt_max_fields"
      by (subst (asm) kvfmt_loop.simps) (auto simp: Let_def split: option.splits if_splits)
    have oku: "cstr_ok u" using 1(3) tu p by simp
    obtain k v r where k: "u = k @ ''=%'' @ v @ r" "token_wf (n, k, v)" "ends r" "snd q = r" "spec_sig spec = (k, the (verb_type v))"
      using kvfmt_token_sound [OF q(1) oku] by blast
    have "\<exists>ts m ss. snd q = render_layout ts m \<and> layout_wf ts \<and> (ends (snd q) \<longrightarrow> list_all (\<lambda>t. 0 < fst t) ts) \<and>
      specs = (acc @ [spec]) @ ss \<and> map spec_sig ss = layout_fields ts \<and> length specs \<le> kvfmt_max_fields"
      using 1(1) [OF sk [symmetric] _ _ q(1) refl q(2)] False q(3) k(1,4) oku by simp
    then obtain ts m ss where ts: "r = render_layout ts m" "layout_wf ts" "list_all (\<lambda>t. 0 < fst t) ts"
      "specs = acc @ spec # ss" "map spec_sig ss = layout_fields ts" "length specs \<le> kvfmt_max_fields"
      using k(3,4) by auto
    with k n0 [OF _ False] tu p show ?thesis
      by (intro exI [where x = "(n, k, v) # ts"] exI [where x = m] exI [where x = "spec # ss"])
        (auto simp: layout_wf_def layout_fields_def)
  qed
qed

section \<open>Properties\<close>

text \<open>
  Claim C8. The format parser accepts exactly the documented language: a list of at most 32
  \<open>key=%verb\<close> tokens separated by blanks, keys made of printable bytes without quote and backslash;
  and it returns the key and the argument type of each token, in order.
\<close>

theorem kvfmt_parser_exact:
  assumes "cstr_ok t"
  shows "(\<exists>e. fst (pslog_parse_kvfmt_layout X (Some (a, t)) False w) = Some e \<and> map spec_sig (ke_fields e) = fs) \<longleftrightarrow>
    (\<exists>ts m. t = render_layout ts m \<and> layout_wf ts \<and> length ts \<le> kvfmt_max_fields \<and> layout_fields ts = fs)"
proof -
  have "(\<exists>e. fst (pslog_parse_kvfmt_layout X (Some (a, t)) False w) = Some e \<and> map spec_sig (ke_fields e) = fs) \<longleftrightarrow>
    (\<exists>specs. kvfmt_loop (a, t) [] = Some specs \<and> map spec_sig specs = fs)"
    by (auto simp: pslog_parse_kvfmt_layout_def Let_def split: option.splits)
  also have "\<dots> \<longleftrightarrow> (\<exists>ts m. t = render_layout ts m \<and> layout_wf ts \<and> length ts \<le> kvfmt_max_fields \<and> layout_fields ts = fs)"
  proof
    assume "\<exists>specs. kvfmt_loop (a, t) [] = Some specs \<and> map spec_sig specs = fs"
    then obtain specs where specs: "kvfmt_loop (a, t) [] = Some specs" "map spec_sig specs = fs" by blast
    from kvfmt_loop_sound [OF specs(1)] assms obtain ts m where
      "t = render_layout ts m" "layout_wf ts" "map spec_sig specs = layout_fields ts" "length specs \<le> kvfmt_max_fields"
      by auto
    moreover from this have "length ts = length specs" by (metis layout_fields_def length_map)
    ultimately show "\<exists>ts m. t = render_layout ts m \<and> layout_wf ts \<and> length ts \<le> kvfmt_max_fields \<and> layout_fields ts = fs"
      using specs(2) by auto
  next
    assume "\<exists>ts m. t = render_layout ts m \<and> layout_wf ts \<and> length ts \<le> kvfmt_max_fields \<and> layout_fields ts = fs"
    then show "\<exists>specs. kvfmt_loop (a, t) [] = Some specs \<and> map spec_sig specs = fs"
      using kvfmt_loop_complete [where acc = "[]" and a = a] by (fastforce simp: layout_wf_def)
  qed
  finally show ?thesis .
qed

lemma kvfmt_parser_exact_witness:
  "\<exists>e. fst (pslog_parse_kvfmt_layout demo_libc (Some (0x40, ''user=%s  n=%ld'')) False (demo_world (\<lambda>_. Accept))) = Some e \<and>
     map spec_sig (ke_fields e) = [(''user'', ARG_STRING), (''n'', ARG_SIGNED_LONG)]"
proof -
  have "\<exists>ts m. ''user=%s  n=%ld'' = render_layout ts m \<and> layout_wf ts \<and> length ts \<le> kvfmt_max_fields \<and>
      layout_fields ts = [(''user'', ARG_STRING), (''n'', ARG_SIGNED_LONG)]"
    by (intro exI [where x = "[(0, ''user'', ''s''), (2, ''n'', ''ld'')]"] exI [where x = 0])
      (simp add: layout_wf_def token_wf_def key_char_def verb_type_def kvfmt_max_fields_def layout_fields_def eval_nat_numeral)
  moreover have "cstr_ok ''user=%s  n=%ld''" by (simp add: cstr_ok_def)
  ultimately show ?thesis by (simp only: kvfmt_parser_exact)
qed

end
