(* ===== verification/KvfmtCache.thy ===== *)
theory KvfmtCache
  imports Kvfmt
begin

text \<open>
  Why the cache of parsed format strings can be trusted: a layout does not depend on the address of
  its string, every cached entry is the prepared layout of its own text, and resolving keeps it so.
\<close>

section \<open>Parsing does not depend on where the string lies\<close>

lemma kvfmt_token_moved:
  assumes "snd p = snd q"
  shows "rel_option (rel_prod (\<lambda>a b. spec_sig a = spec_sig b) (\<lambda>c d. snd c = snd d)) (kvfmt_token p) (kvfmt_token q)"
  using assms
  by (auto simp: kvfmt_token_def cptr_add_def Let_def spec_sig_def spec_key_def split: option.split)

lemma kvfmt_loop_moved:
  assumes "snd p = snd q" "map spec_sig acc = map spec_sig acc'"
  shows "map_option (map spec_sig) (kvfmt_loop p acc) = map_option (map spec_sig) (kvfmt_loop q acc')"
  using assms
proof (induction p acc arbitrary: q acc' rule: kvfmt_loop.induct)
  case (1 p acc)
  have sk: "snd (skip_blanks p) = snd (skip_blanks q)" using 1(2) by (simp add: skip_blanks_def cptr_add_def)
  have len: "length acc = length acc'" using 1(3) by (metis length_map)
  note tok = kvfmt_token_moved [OF sk]
  show ?case
  proof (cases "snd (skip_blanks p) = [] \<or> length acc \<ge> kvfmt_max_fields")
    case True
    with sk len 1(3) show ?thesis by (subst (1 2) kvfmt_loop.simps) (auto simp: Let_def)
  next
    case False
    show ?thesis
    proof (cases "kvfmt_token (skip_blanks p)")
      case None
      with tok have "kvfmt_token (skip_blanks q) = None" by simp
      with None False sk len show ?thesis by (subst (1 2) kvfmt_loop.simps) (simp add: Let_def)
    next
      case (Some sp)
      obtain spec p2 where sp: "sp = (spec, p2)" by (cases sp)
      with Some tok obtain spec' q2 where q2: "kvfmt_token (skip_blanks q) = Some (spec', q2)"
        "spec_sig spec = spec_sig spec'" "snd p2 = snd q2"
        by (cases "kvfmt_token (skip_blanks q)") auto
      have "map_option (map spec_sig) (kvfmt_loop p2 (acc @ [spec])) = map_option (map spec_sig) (kvfmt_loop q2 (acc' @ [spec']))"
        using 1(1) [OF refl _ _ Some, of spec p2 q2 "acc' @ [spec']"] False sp q2 1(3) by simp
      with Some sp q2 False sk len show ?thesis by (subst (1 2) kvfmt_loop.simps) (simp add: Let_def)
    qed
  qed
qed

lemma kvfmt_signature_at: "map_option (map spec_sig) (kvfmt_loop (a, t) []) = kvfmt_signature t"
  unfolding kvfmt_signature_def by (rule kvfmt_loop_moved) simp_all

section \<open>Prepared prefixes\<close>

definition kvfmt_console_text :: "shared_cfg \<Rightarrow> kvfmt_field_spec \<Rightarrow> string" where
  "kvfmt_console_text cfg spec =
     (let color = (\<lambda>t. if c_color_enabled cfg then t else []); palette = c_palette cfg
      in color (p_reset palette) @ '' '' @ color (p_key palette) @ spec_key spec @ ''='' @ color (p_reset palette) @
         color (kvfmt_value_color palette (ks_arg_type spec)))"

definition kvfmt_json_text :: "shared_cfg \<Rightarrow> kvfmt_field_spec \<Rightarrow> string" where
  "kvfmt_json_text cfg spec =
     (if c_color_enabled cfg then p_key (c_palette cfg) else []) @ dquote # spec_key spec @ [dquote, CHR '':'']"

definition prepared :: "shared_cfg \<Rightarrow> kvfmt_field_spec \<Rightarrow> kvfmt_field_spec" where
  "prepared cfg spec =
     spec\<lparr>ks_console_prefix := (let t = kvfmt_console_text cfg spec in if length t < 128 then t else []),
          ks_json_color_prefix := (let t = kvfmt_json_text cfg spec in if length t < 128 then t else [])\<rparr>"

text \<open>Strings of a size no process can exceed.\<close>

definition sized :: "string \<Rightarrow> bool" where
  "sized t = (length t \<le> 2 ^ 48)"

definition palette_strings :: "pslog_palette \<Rightarrow> cstring list" where
  "palette_strings p = [p_key p, p_string p, p_number p, p_boolean p, p_null_value p, p_trace p, p_debug p, p_info p,
     p_warn p, p_error p, p_fatal p, p_panic p, p_timestamp p, p_message p, p_message_key p, p_reset p]"

definition palette_sized :: "pslog_palette \<Rightarrow> bool" where
  "palette_sized p = list_all sized (palette_strings p)"

lemma kvfmt_console_prefix_appends [emit_simps]:
  "ready s \<Longrightarrow> append_kvfmt_console_prefix cfg spec s = appends (kvfmt_console_text cfg spec) s"
  by (simp add: append_kvfmt_console_prefix_def kvfmt_console_text_def emit_simps Let_def)

lemma kvfmt_json_prefix_appends [emit_simps]:
  "ready s \<Longrightarrow> append_kvfmt_json_prefix cfg spec s = appends (kvfmt_json_text cfg spec) s"
  by (simp add: append_kvfmt_json_prefix_def kvfmt_json_text_def emit_simps Let_def)

lemma value_color_sized: "palette_sized p \<Longrightarrow> length (kvfmt_value_color p ty) \<le> 2 ^ 48"
  by (cases ty) (simp_all add: palette_sized_def palette_strings_def sized_def)

lemma prefix_texts_sized:
  assumes "palette_sized (c_palette cfg)" "length (spec_key spec) \<le> 2 ^ 48"
  shows "length (kvfmt_console_text cfg spec) \<le> 2 ^ 62" "length (kvfmt_json_text cfg spec) \<le> 2 ^ 62"
  using assms value_color_sized [of "c_palette cfg" "ks_arg_type spec"]
  by (simp_all add: kvfmt_console_text_def kvfmt_json_text_def palette_sized_def palette_strings_def sized_def Let_def)

lemma prepare_spec_prepared:
  assumes "all_alloc (e_world s)" "palette_sized (c_palette cfg)" "length (spec_key spec) \<le> 2 ^ 48"
  shows "\<exists>s'. prepare_spec cfg spec s = (prepared cfg spec, s') \<and> allocs_only s s'"
proof -
  note sz = prefix_texts_sized [OF assms(2,3)]
  obtain s1 where 1: "with_local_buffer 127 (append_kvfmt_console_prefix cfg spec) s = (kvfmt_console_text cfg spec, s1)" "allocs_only s s1"
    using local_buffer_collects [OF assms(1) sz(1) kvfmt_console_prefix_appends] by blast
  have "all_alloc (e_world s1)" using allocs_only_sel [OF 1(2)] assms(1) by blast
  then obtain s2 where 2: "with_local_buffer 127 (append_kvfmt_json_prefix cfg spec) s1 = (kvfmt_json_text cfg spec, s2)" "allocs_only s1 s2"
    using local_buffer_collects [OF _ sz(2) kvfmt_json_prefix_appends] by blast
  with 1 allocs_only_trans [OF 1(2) 2(2)] show ?thesis
    by (simp add: prepare_spec_def prepared_def Let_def)
qed

lemma prepare_specs_prepared:
  assumes "all_alloc (e_world s)" "palette_sized (c_palette cfg)" "\<forall>spec \<in> set specs. length (spec_key spec) \<le> 2 ^ 48"
  shows "\<exists>s'. prepare_specs cfg specs s = (map (prepared cfg) specs, s') \<and> allocs_only s s'"
  using assms
proof (induction specs arbitrary: s)
  case (Cons spec specs)
  obtain s1 where 1: "prepare_spec cfg spec s = (prepared cfg spec, s1)" "allocs_only s s1"
    using prepare_spec_prepared [of s cfg spec] Cons.prems by auto
  then have "all_alloc (e_world s1)" using allocs_only_sel Cons.prems(1) by blast
  with Cons.IH [of s1] Cons.prems obtain s2 where 2: "prepare_specs cfg specs s1 = (map (prepared cfg) specs, s2)" "allocs_only s1 s2"
    by auto
  with 1 allocs_only_trans [OF 1(2) 2(2)] show ?case by simp
qed simp

lemma prepared_sig [simp]: "spec_sig (prepared cfg spec) = spec_sig spec" "ks_key (prepared cfg spec) = ks_key spec"
  "ks_key_len (prepared cfg spec) = ks_key_len spec" "ks_arg_type (prepared cfg spec) = ks_arg_type spec"
  "spec_key (prepared cfg spec) = spec_key spec"
  by (simp_all add: spec_sig_def spec_key_def prepared_def)

lemma prepared_idem [simp]: "prepared cfg (prepared cfg spec) = prepared cfg spec"
  by (simp add: prepared_def kvfmt_console_text_def kvfmt_json_text_def spec_key_def Let_def)

section \<open>The cache is transparent\<close>

definition key_inside :: "nat \<Rightarrow> kvfmt_field_spec \<Rightarrow> bool" where
  "key_inside n spec = (ks_key_len spec \<le> length (snd (ks_key spec)) \<and> length (snd (ks_key spec)) \<le> n)"

definition spec_ok :: "shared_cfg \<Rightarrow> kvfmt_field_spec \<Rightarrow> bool" where
  "spec_ok cfg spec = (prepared cfg spec = spec \<and> ks_key_len spec \<le> length (snd (ks_key spec)))"

definition entry_ok :: "shared_cfg \<Rightarrow> cstring \<Rightarrow> kvfmt_cache_entry \<Rightarrow> bool" where
  "entry_ok cfg t e = (entry_text e = t \<and> ke_kvfmt_len e = length t \<and>
     kvfmt_signature t = Some (map spec_sig (ke_fields e)) \<and> list_all (spec_ok cfg) (ke_fields e))"

definition kvfmt_ok :: "shared_cfg \<Rightarrow> pslog_shared \<Rightarrow> bool" where
  "kvfmt_ok cfg sh = (\<forall>i e. s_kvfmt_cache sh i = Some e \<longrightarrow> entry_ok cfg (entry_text e) e)"

lemma kvfmt_token_inside:
  "kvfmt_token p = Some (spec, q) \<Longrightarrow> length (snd p) \<le> n \<Longrightarrow> key_inside n spec"
  using scan_key_sound [of "snd p" 0]
  by (auto simp: kvfmt_token_def key_inside_def Let_def split: option.splits if_splits)

lemma kvfmt_loop_inside:
  "kvfmt_loop p acc = Some specs \<Longrightarrow> length (snd p) \<le> n \<Longrightarrow> list_all (key_inside n) acc \<Longrightarrow> list_all (key_inside n) specs"
proof (induction p acc rule: kvfmt_loop.induct)
  case (1 p acc)
  show ?case
  proof (cases "snd (skip_blanks p) = []")
    case True
    with 1(2,4) show ?thesis by (subst (asm) kvfmt_loop.simps) simp
  next
    case False
    with 1(2) obtain spec q where q: "kvfmt_token (skip_blanks p) = Some (spec, q)" "kvfmt_loop q (acc @ [spec]) = Some specs"
      "\<not> length acc \<ge> kvfmt_max_fields"
      by (subst (asm) kvfmt_loop.simps) (auto simp: Let_def split: option.splits if_splits)
    have "length (snd (skip_blanks p)) \<le> n" using skip_blanks_length [of p] 1(3) by simp
    with kvfmt_token_length [OF q(1)] kvfmt_token_inside [OF q(1)] 1(1) [OF refl False q(3) q(1) refl q(2)] 1(4)
    show ?thesis by simp
  qed
qed

lemma parse_layout_spec:
  assumes "all_alloc w" "pslog_parse_kvfmt_layout X (Some (a, t)) own w = (r, w')"
  shows "(\<exists>n m. w' = w\<lparr>w_allocs := n, w_frees := m\<rparr> \<and> w_allocs w \<le> n) \<and>
    (case r of None \<Rightarrow> kvfmt_signature t = None
     | Some e \<Rightarrow> entry_text e = t \<and> ke_kvfmt_len e = length t \<and> kvfmt_signature t = Some (map spec_sig (ke_fields e)) \<and>
         list_all (key_inside (length t)) (ke_fields e))"
proof -
  define b where "b = (if own then lc_block X (w_allocs w) else a)"
  define w1 where "w1 = (if own then w\<lparr>w_allocs := Suc (w_allocs w)\<rparr> else w)"
  have w1: "w1 = w\<lparr>w_allocs := w_allocs w1, w_frees := w_frees w\<rparr>" "w_allocs w \<le> w_allocs w1"
    "pslog_free_internal own w1 = w\<lparr>w_allocs := w_allocs w1, w_frees := w_frees w + (if own then 1 else 0)\<rparr>"
    by (simp_all add: w1_def pslog_free_internal_def)
  have ok: "w_alloc_ok w (w_allocs w)" using assms(1) by (simp add: all_alloc_def)
  have eq: "pslog_parse_kvfmt_layout X (Some (a, t)) own w =
    (case kvfmt_loop (b, t) [] of None \<Rightarrow> (None, pslog_free_internal own w1)
     | Some specs \<Rightarrow> (Some \<lparr>ke_kvfmt = Some (b, t), ke_kvfmt_len = length t,
         ke_kvfmt_hash = pslog_kvfmt_hash (Some t), ke_fields = specs\<rparr>, w1))"
    using ok by (cases own) (simp_all add: pslog_parse_kvfmt_layout_def pslog_strdup_local_def
        pslog_malloc_internal_def b_def w1_def Let_def split: option.split)
  note sig = kvfmt_signature_at [of b t]
  show ?thesis
  proof (cases "kvfmt_loop (b, t) []")
    case None
    with assms(2) eq sig have "r = None" "kvfmt_signature t = None" "w' = pslog_free_internal own w1" by simp_all
    with w1(2) show ?thesis unfolding w1(3)
      by (intro conjI exI [where x = "w_allocs w1"] exI [where x = "w_frees w + (if own then 1 else 0)"]) simp_all
  next
    case (Some specs)
    have "list_all (key_inside (length t)) specs" using kvfmt_loop_inside [OF Some, of "length t"] by simp
    moreover have "\<exists>n m. w' = w\<lparr>w_allocs := n, w_frees := m\<rparr> \<and> w_allocs w \<le> n"
    proof -
      have "w' = w1" using assms(2) eq Some by simp
      with w1(1,2) show ?thesis by blast
    qed
    ultimately show ?thesis using assms(2) eq Some sig by (auto simp: entry_text_def)
  qed
qed

lemma prepare_entry_spec:
  assumes "all_alloc (e_world s)" "palette_sized (c_palette cfg)" "length t \<le> 2 ^ 48"
    and "entry_text e = t" "ke_kvfmt_len e = length t" "kvfmt_signature t = Some (map spec_sig (ke_fields e))"
    and "list_all (key_inside (length t)) (ke_fields e)"
  shows "\<exists>e' s'. pslog_prepare_kvfmt_cache_entry (Some cfg) e s = (e', s') \<and> allocs_only s s' \<and> entry_ok cfg t e'"
proof -
  have "\<forall>spec \<in> set (ke_fields e). length (spec_key spec) \<le> 2 ^ 48"
    using assms(3,7) by (fastforce simp: list_all_iff key_inside_def spec_key_def)
  from prepare_specs_prepared [OF assms(1,2) this] obtain s' where
    s': "prepare_specs cfg (ke_fields e) s = (map (prepared cfg) (ke_fields e), s')" "allocs_only s s'" by blast
  have "entry_ok cfg t (e\<lparr>ke_fields := map (prepared cfg) (ke_fields e)\<rparr>)"
    using assms(4-7) by (auto simp: entry_ok_def entry_text_def list_all_iff spec_ok_def key_inside_def comp_def)
  with s' show ?thesis by (simp add: pslog_prepare_kvfmt_cache_entry_def)
qed

lemma kvfmt_probe_found:
  "kvfmt_probe cache h t is sel = (Some i, sel') \<Longrightarrow>
     \<exists>e. cache i = Some e \<and> ke_kvfmt_len e = length t \<and> take (length t) (entry_text e) = t"
  by (induction cache h t "is" sel rule: kvfmt_probe.induct) (auto split: option.splits if_splits)

text \<open>Resolving changes the kvfmt caches and the allocator's counters only.\<close>

definition set_kvfmt :: "(nat \<Rightarrow> kvfmt_cache_entry option) \<Rightarrow> (nat \<Rightarrow> (64 word \<times> nat) option) option \<Rightarrow> pslog_shared \<Rightarrow> pslog_shared" where
  "set_kvfmt c pc sh = sh\<lparr>s_kvfmt_cache := c, s_kvfmt_ptr_cache := pc\<rparr>"

definition kvfmt_only :: "est \<Rightarrow> est \<Rightarrow> bool" where
  "kvfmt_only s s' = (\<exists>c pc. allocs_only (e_shared_update (set_kvfmt c pc) s) s')"

lemma kvfmt_only_allocs: "allocs_only s s' \<Longrightarrow> kvfmt_only s s'"
proof -
  assume "allocs_only s s'"
  moreover have "e_shared_update (set_kvfmt (s_kvfmt_cache (e_shared s)) (s_kvfmt_ptr_cache (e_shared s))) s = s"
    by (cases s) (simp add: set_kvfmt_def)
  ultimately show ?thesis unfolding kvfmt_only_def by metis
qed

lemma kvfmt_only_refl [simp]: "kvfmt_only s s"
  by (simp add: kvfmt_only_allocs)

lemma remember_pointer_sel:
  "s_kvfmt_cache (e_shared (remember_pointer a i s)) = s_kvfmt_cache (e_shared s)"
  by (simp add: remember_pointer_def Let_def split: option.split)

lemma kvfmt_only_remember: "kvfmt_only s s' \<Longrightarrow> kvfmt_only s (remember_pointer a i s')"
proof -
  assume "kvfmt_only s s'"
  then obtain c pc n m where s': "s' = set_allocs n m (e_shared_update (set_kvfmt c pc) s)" "w_allocs (e_world s) \<le> n"
    by (auto simp: kvfmt_only_def allocs_only_def)
  define pc' where "pc' = map_option (\<lambda>f. f(pslog_kvfmt_pointer_slot a := Some (a, i))) pc"
  have "remember_pointer a i s' = set_allocs n m (e_shared_update (set_kvfmt c pc') s)"
    by (cases s; cases pc) (simp_all add: s' remember_pointer_def set_allocs_def set_kvfmt_def pc'_def)
  with s'(2) show ?thesis unfolding kvfmt_only_def allocs_only_def
    by (intro exI [where x = c] exI [where x = pc'] exI [where x = n] exI [where x = m]) simp
qed

lemma kvfmt_only_store:
  "allocs_only s s' \<Longrightarrow> kvfmt_only s (s'\<lparr>e_shared := (e_shared s')\<lparr>s_kvfmt_cache := c\<rparr>\<rparr>)"
proof -
  assume "allocs_only s s'"
  then obtain n m where s': "s' = set_allocs n m s" "w_allocs (e_world s) \<le> n" by (auto simp: allocs_only_def)
  have "s'\<lparr>e_shared := (e_shared s')\<lparr>s_kvfmt_cache := c\<rparr>\<rparr> =
    set_allocs n m (e_shared_update (set_kvfmt c (s_kvfmt_ptr_cache (e_shared s))) s)"
    by (cases s) (simp add: s' set_allocs_def set_kvfmt_def)
  with s'(2) show ?thesis unfolding kvfmt_only_def allocs_only_def
    by (intro exI [where x = c] exI [where x = "s_kvfmt_ptr_cache (e_shared s)"] exI [where x = n] exI [where x = m]) simp
qed

text \<open>
  What resolving a format promises to its callers: with coherent caches they get a layout for
  exactly this format, prepared, or an error just when the format is invalid.
\<close>

definition resolves :: "shared_cfg \<Rightarrow> cstring \<Rightarrow> est \<Rightarrow> resolved option \<times> est \<Rightarrow> bool" where
  "resolves cfg t s res =
     (kvfmt_only s (snd res) \<and> kvfmt_ok cfg (e_shared (snd res)) \<and>
      (case fst res of
         None \<Rightarrow> kvfmt_signature t = None
       | Some r \<Rightarrow> (\<exists>e. resolved_entry r = Some e \<and> entry_ok cfg t e)))"

lemma entry_ok_text: "entry_ok cfg u e \<Longrightarrow> ke_kvfmt_len e = length t \<Longrightarrow> take (length t) (entry_text e) = t \<Longrightarrow> entry_ok cfg t e"
  by (simp add: entry_ok_def)

lemma kvfmt_ok_store:
  "kvfmt_ok cfg sh \<Longrightarrow> entry_ok cfg t e \<Longrightarrow> kvfmt_ok cfg (sh\<lparr>s_kvfmt_cache := (s_kvfmt_cache sh)(i := Some e)\<rparr>)"
  by (auto simp: kvfmt_ok_def entry_ok_def)

lemma kvfmt_ok_cong: "s_kvfmt_cache sh = s_kvfmt_cache sh' \<Longrightarrow> kvfmt_ok cfg sh = kvfmt_ok cfg sh'"
  by (simp add: kvfmt_ok_def)

lemma parse_and_prepare:
  assumes "all_alloc (e_world s)" "palette_sized (c_palette cfg)" "length t \<le> 2 ^ 48"
  obtains (invalid) w1 where "pslog_parse_kvfmt_layout X (Some (a, t)) own (e_world s) = (None, w1)"
      "kvfmt_signature t = None" "allocs_only s (s\<lparr>e_world := w1\<rparr>)"
  | (valid) e w1 e' s' where "pslog_parse_kvfmt_layout X (Some (a, t)) own (e_world s) = (Some e, w1)"
      "pslog_prepare_kvfmt_cache_entry (Some cfg) e (s\<lparr>e_world := w1\<rparr>) = (e', s')" "allocs_only s s'" "entry_ok cfg t e'"
proof -
  obtain r w1 where r: "pslog_parse_kvfmt_layout X (Some (a, t)) own (e_world s) = (r, w1)" by fastforce
  note sp = parse_layout_spec [OF assms(1) r]
  from sp obtain n m where "w1 = (e_world s)\<lparr>w_allocs := n, w_frees := m\<rparr>" "w_allocs (e_world s) \<le> n" by blast
  then have al: "allocs_only s (s\<lparr>e_world := w1\<rparr>)" by (auto simp: allocs_only_def set_allocs_def)
  show ?thesis
  proof (cases r)
    case None
    with r sp al show ?thesis by (intro invalid) auto
  next
    case (Some e)
    have aw: "all_alloc (e_world (s\<lparr>e_world := w1\<rparr>))" using allocs_only_sel [OF al] assms(1) by blast
    from prepare_entry_spec [OF aw assms(2,3), of e] sp Some obtain e' s' where
      e': "pslog_prepare_kvfmt_cache_entry (Some cfg) e (s\<lparr>e_world := w1\<rparr>) = (e', s')"
        "allocs_only (s\<lparr>e_world := w1\<rparr>) s'" "entry_ok cfg t e'" by auto
    from valid [OF r [unfolded Some] e'(1) allocs_only_trans [OF al e'(2)] e'(3)] show ?thesis .
  qed
qed

lemma parse_local_resolves:
  assumes "all_alloc (e_world s)" "palette_sized (c_palette cfg)" "length t \<le> 2 ^ 48" "kvfmt_ok cfg (e_shared s)"
  shows "resolves cfg t s (parse_local_entry X (Some cfg) (a, t) s)"
  using assms(1-3)
proof (cases rule: parse_and_prepare [where X = X and a = a and own = False])
  case (invalid w1)
  with assms(4) show ?thesis by (simp add: resolves_def parse_local_entry_def kvfmt_only_allocs)
next
  case (valid e w1 e' s')
  with assms(4) allocs_only_sel [OF valid(3)] show ?thesis
    by (simp add: resolves_def parse_local_entry_def kvfmt_only_allocs resolved_entry_def)
qed

lemma resolve_correct:
  assumes "all_alloc (e_world s)" "palette_sized (c_palette cfg)" "length t \<le> 2 ^ 48" "kvfmt_ok cfg (e_shared s)"
  shows "resolves cfg t s (pslog_resolve_kvfmt_entry X (Some cfg) (Some (a, t)) s)"
proof (cases "ptr_cache_hit (e_shared s) a t")
  case (Some e)
  then have "entry_ok cfg t e"
    using assms(4) by (auto simp: ptr_cache_hit_def kvfmt_ok_def split: option.splits if_splits)
  with Some assms(4) show ?thesis
    by (simp add: resolves_def pslog_resolve_kvfmt_entry_def resolved_entry_def)
next
  case None
  let ?c = "s_kvfmt_cache (e_shared s)" and ?h = "pslog_kvfmt_hash (Some t)"
  obtain f sel where pr: "kvfmt_probe ?c ?h t (kvfmt_slots ?h) None = (f, sel)" by fastforce
  consider i where "f = Some i" | i where "f = None" "sel = Some i" | "f = None" "sel = None"
    by (cases f; cases sel) auto
  then show ?thesis
  proof cases
    case (1 i)
    with kvfmt_probe_found [of ?c ?h t "kvfmt_slots ?h" None i sel] pr obtain e where
      e: "?c i = Some e" "ke_kvfmt_len e = length t" "take (length t) (entry_text e) = t" by auto
    then have "entry_ok cfg t e" using assms(4) entry_ok_text [OF _ e(2,3)] unfolding kvfmt_ok_def by blast
    with 1 None pr e assms(4) show ?thesis
      by (simp add: resolves_def pslog_resolve_kvfmt_entry_def resolved_entry_def kvfmt_only_remember
          remember_pointer_sel cong: kvfmt_ok_cong)
  next
    case (2 i)
    from assms(1-3) show ?thesis
    proof (cases rule: parse_and_prepare [where X = X and a = a and own = True])
      case (invalid w1)
      with 2 None pr assms(4) show ?thesis
        by (simp add: resolves_def pslog_resolve_kvfmt_entry_def kvfmt_only_allocs)
    next
      case (valid e w1 e' s')
      let ?s2 = "s'\<lparr>e_shared := (e_shared s')\<lparr>s_kvfmt_cache := (s_kvfmt_cache (e_shared s'))(i := Some e')\<rparr>\<rparr>"
      have "pslog_resolve_kvfmt_entry X (Some cfg) (Some (a, t)) s = (Some (R_cached e'), remember_pointer a i ?s2)"
        using 2 None pr valid by (simp add: pslog_resolve_kvfmt_entry_def Let_def)
      moreover have "kvfmt_ok cfg (e_shared ?s2)"
        using kvfmt_ok_store [OF _ valid(4), of "e_shared s'" i] allocs_only_sel [OF valid(3)] assms(4) by simp
      moreover have "kvfmt_only s (remember_pointer a i ?s2)"
        by (intro kvfmt_only_remember kvfmt_only_store valid(3))
      ultimately show ?thesis using valid(4) kvfmt_ok_cong [OF remember_pointer_sel [of a i ?s2], of cfg]
        by (simp add: resolves_def resolved_entry_def)
    qed
  next
    case 3
    then have "pslog_resolve_kvfmt_entry X (Some cfg) (Some (a, t)) s = parse_local_entry X (Some cfg) (a, t) s"
      using None pr by (simp add: pslog_resolve_kvfmt_entry_def)
    with parse_local_resolves [OF assms] show ?thesis by simp
  qed
qed

lemma kvfmt_only_sel:
  "kvfmt_only s t \<Longrightarrow> e_buf t = e_buf s \<and> (all_alloc (e_world s) \<longrightarrow> all_alloc (e_world t))"
  using allocs_only_sel by (fastforce simp: kvfmt_only_def)

text \<open>Format strings resolved one after the other, as the calls of a program do.\<close>

definition resolve_all :: "libc \<Rightarrow> shared_cfg \<Rightarrow> cptr list \<Rightarrow> est \<Rightarrow> est" where
  "resolve_all X cfg reqs s = fold (\<lambda>p u. snd (pslog_resolve_kvfmt_entry X (Some cfg) (Some p) u)) reqs s"

lemma resolve_all_ok:
  assumes "all_alloc (e_world s)" "palette_sized (c_palette cfg)" "kvfmt_ok cfg (e_shared s)"
    and "\<forall>p \<in> set reqs. length (snd p) \<le> 2 ^ 48"
  shows "all_alloc (e_world (resolve_all X cfg reqs s)) \<and> kvfmt_ok cfg (e_shared (resolve_all X cfg reqs s))"
  using assms
proof (induction reqs arbitrary: s)
  case (Cons p reqs)
  have "resolves cfg (snd p) s (pslog_resolve_kvfmt_entry X (Some cfg) (Some p) s)"
    using resolve_correct [of s cfg "snd p" X "fst p"] Cons.prems by simp
  with Cons.IH [of "snd (pslog_resolve_kvfmt_entry X (Some cfg) (Some p) s)"] Cons.prems kvfmt_only_sel
  show ?case by (auto simp: resolve_all_def resolves_def)
qed (simp add: resolve_all_def)

lemma kvfmt_ok_empty: "s_kvfmt_cache sh = (\<lambda>_. None) \<Longrightarrow> kvfmt_ok cfg sh"
  by (simp add: kvfmt_ok_def)

definition demo_palette :: pslog_palette where
  "demo_palette = \<lparr>p_key = ''K'', p_string = ''S'', p_number = ''N'', p_boolean = ''B'', p_null_value = ''Z'',
     p_trace = ''t'', p_debug = ''d'', p_info = ''i'', p_warn = ''w'', p_error = ''e'', p_fatal = ''f'', p_panic = ''p'',
     p_timestamp = ''T'', p_message = ''M'', p_message_key = ''m'', p_reset = ''R''\<rparr>"

definition demo_cfg :: "pslog_mode \<Rightarrow> bool \<Rightarrow> shared_cfg" where
  "demo_cfg mode color = \<lparr>c_mode = mode, c_non_finite_float_policy = NON_FINITE_FLOAT_AS_STRING,
     c_line_buffer_capacity = 64, c_min_level = LEVEL_INFO, c_timestamps = False, c_timestamp_cacheable = True,
     c_utc = True, c_verbose_fields = False, c_color_enabled = color, c_time_format = None, c_palette = demo_palette,
     c_console_level_fragments = (\<lambda>_. ''INF''), c_json_color_level_fields = (\<lambda>_. []),
     c_json_color_min_level_fields = (\<lambda>_. []), c_json_color_message_prefix = [], c_json_color_timestamp_prefix = [],
     c_json_color_timestamp_suffix = [], c_console_message_prefix = '' ''\<rparr>"

lemma demo_palette_sized: "palette_sized (c_palette (demo_cfg mode color))"
  by (simp add: demo_cfg_def demo_palette_def palette_sized_def palette_strings_def sized_def)

section \<open>Properties\<close>

text \<open>
  Claim C9. The layout cache and its pointer shortcut are transparent: whatever formats a program has
  resolved before, even other strings at the same address, resolving a format gives a layout of
  exactly this format with its prepared prefixes, or an error just when the format is invalid; and
  nothing but the caches and the allocator's counters changes.
\<close>

theorem kvfmt_cache_transparent:
  assumes "all_alloc (e_world s)" "palette_sized (c_palette cfg)" "s_kvfmt_cache (e_shared s) = (\<lambda>_. None)"
    and "\<forall>p \<in> set reqs. length (snd p) \<le> 2 ^ 48" "length t \<le> 2 ^ 48"
  shows "let u = resolve_all X cfg reqs s in case pslog_resolve_kvfmt_entry X (Some cfg) (Some (a, t)) u of
      (None, u') \<Rightarrow> kvfmt_signature t = None \<and> kvfmt_only u u'
    | (Some r, u') \<Rightarrow> kvfmt_only u u' \<and> (\<exists>e. resolved_entry r = Some e \<and>
        kvfmt_signature t = Some (map spec_sig (ke_fields e)) \<and> list_all (\<lambda>spec. prepared cfg spec = spec) (ke_fields e))"
proof -
  define u where "u = resolve_all X cfg reqs s"
  have "resolves cfg t u (pslog_resolve_kvfmt_entry X (Some cfg) (Some (a, t)) u)"
    using resolve_all_ok [of s cfg reqs X] assms kvfmt_ok_empty by (intro resolve_correct) (simp_all add: u_def)
  then show ?thesis unfolding u_def [symmetric]
    by (auto simp: Let_def resolves_def entry_ok_def spec_ok_def list_all_iff split: prod.splits option.splits)
qed

lemma kvfmt_cache_transparent_witness:
  "\<exists>r u'. pslog_resolve_kvfmt_entry demo_libc (Some (demo_cfg MODE_JSON True)) (Some (0x40, ''b=%d''))
      (resolve_all demo_libc (demo_cfg MODE_JSON True) [(0x40, ''a=%d'')] (demo_est (S_fd 1 (Some 3)) 64 (\<lambda>_. Accept))) = (Some r, u') \<and>
    (\<exists>e. resolved_entry r = Some e \<and> map spec_sig (ke_fields e) = [(''b'', ARG_SIGNED_INT)])"
proof -
  have sig: "kvfmt_signature ''b=%d'' = Some [(''b'', ARG_SIGNED_INT)]"
    by (simp add: kvfmt_signature_def kvfmt_loop.simps skip_blanks_def cptr_add_def kvfmt_token_def kvfmt_verb_def
        kvfmt_max_fields_def spec_sig_def spec_key_def Let_def)
  let ?s = "demo_est (S_fd 1 (Some 3)) 64 (\<lambda>_. Accept)"
  have "all_alloc (e_world ?s)" "s_kvfmt_cache (e_shared ?s) = (\<lambda>_. None)"
    by (simp_all add: demo_eqs all_alloc_def)
  from kvfmt_cache_transparent [OF this(1) demo_palette_sized [of MODE_JSON True] this(2), where t = "''b=%d''" and a = "0x40" and
      reqs = "[(0x40, ''a=%d'')]" and X = demo_libc] sig
  show ?thesis by (auto simp: Let_def split: prod.splits option.splits)
qed

end
