(* ===== verification/Emission.thy ===== *)
theory Emission
  imports KvfmtCache
begin

text \<open>
  What emission routines do to a line, caches aside. A routine that fills or uses a cache of the
  shared state (rendered doubles, timestamps, console prefixes, parsed formats) is specified by the
  bytes it appends once the caches are forgotten: \<open>view\<close> is that abstraction, defined on the states
  whose caches are coherent.
\<close>

section \<open>Console prefixes\<close>

definition pslog_console_field_value_color :: "pslog_palette \<Rightarrow> pslog_field_type \<Rightarrow> cstring" where
  "pslog_console_field_value_color palette ty =
     (case ty of
        FIELD_NULL \<Rightarrow> p_null_value palette
      | FIELD_STRING \<Rightarrow> p_string palette | FIELD_BYTES \<Rightarrow> p_string palette | FIELD_DURATION \<Rightarrow> p_string palette
      | FIELD_SIGNED \<Rightarrow> p_number palette | FIELD_UNSIGNED \<Rightarrow> p_number palette
      | FIELD_DOUBLE \<Rightarrow> p_number palette | FIELD_POINTER \<Rightarrow> p_number palette
      | FIELD_BOOL \<Rightarrow> p_boolean palette
      | FIELD_TIME \<Rightarrow> p_timestamp palette
      | FIELD_ERRNO \<Rightarrow> p_error palette)"

text \<open>The bytes in front of a console value, as the prefix cache keeps them.\<close>

definition console_prefix_text :: "shared_cfg \<Rightarrow> string \<Rightarrow> pslog_field_type \<Rightarrow> string" where
  "console_prefix_text cfg key ty =
     (let palette = c_palette cfg in
      if c_color_enabled cfg
      then p_reset palette @ '' '' @ p_key palette @ key @ ''='' @ p_reset palette @ pslog_console_field_value_color palette ty
      else '' '' @ key @ ''='')"

section \<open>Lines\<close>

text \<open>
  A line has a buffer of its own: \<open>pslog_buffer_init\<close> with the shared state in front of its bytes,
  \<open>pslog_write_buffer\<close> and \<open>pslog_buffer_destroy\<close> behind them. \<open>outer\<close> is the buffer of the caller.
\<close>

definition open_line :: "shared_cfg \<Rightarrow> est \<Rightarrow> est" where
  "open_line cfg s =
     (let (b, w) = pslog_buffer_init True (c_line_buffer_capacity cfg) (e_world s) in s\<lparr>e_buf := b, e_world := w\<rparr>)"

definition close_line :: "pslog_buffer \<Rightarrow> est \<Rightarrow> est" where
  "close_line outer s =
     (let s1 = pslog_write_buffer True s; (b, w) = pslog_buffer_destroy (e_buf s1) (e_world s1)
      in s1\<lparr>e_buf := outer, e_world := w\<rparr>)"

section \<open>Coherent caches\<close>

definition prefix_cache_ok :: "shared_cfg \<Rightarrow> (nat \<Rightarrow> console_prefix_entry option) \<Rightarrow> bool" where
  "prefix_cache_ok cfg c = (\<forall>i e. c i = Some e \<longrightarrow>
     cp_prefix e = console_prefix_text cfg (cp_key_copy e) (cp_type e) \<and> cp_key_len e = length (cp_key_copy e) \<and>
     length (cp_prefix e) < 128)"

definition timestamp_ok :: "libc \<Rightarrow> shared_cfg \<Rightarrow> pslog_shared \<Rightarrow> bool" where
  "timestamp_ok X cfg sh = (s_cached_timestamp sh \<noteq> [] \<longrightarrow>
     s_cached_timestamp sh = render_text X cfg (s_cached_timestamp_second sh) 0)"

definition caches_ok :: "libc \<Rightarrow> shared_cfg \<Rightarrow> pslog_shared \<Rightarrow> bool" where
  "caches_ok X cfg sh = (mutex_ok (s_state_mutex sh) \<and> double_cache_ok X (s_double_cache sh) \<and>
     prefix_cache_ok cfg (s_console_prefix_cache sh) \<and> timestamp_ok X cfg sh \<and> kvfmt_ok cfg sh)"

definition good :: "libc \<Rightarrow> shared_cfg \<Rightarrow> est \<Rightarrow> bool" where
  "good X cfg s = (ready s \<and> all_alloc (e_world s) \<and> caches_ok X cfg (e_shared s))"

definition forget :: "pslog_shared \<Rightarrow> pslog_shared" where
  "forget sh = sh\<lparr>s_cached_timestamp_second := 0, s_cached_timestamp := [], s_timestamp_cache_hits := 0,
     s_timestamp_cache_misses := 0, s_kvfmt_cache := (\<lambda>_. None), s_kvfmt_ptr_cache := None,
     s_console_prefix_cache := (\<lambda>_. None), s_double_cache := (\<lambda>_. None)\<rparr>"

abbreviation forget_caches :: "est \<Rightarrow> est" where
  "forget_caches \<equiv> e_shared_update forget"

definition view :: "libc \<Rightarrow> shared_cfg \<Rightarrow> est \<Rightarrow> est option" where
  "view X cfg s = (if good X cfg s then Some (forget_caches s) else None)"

interpretation forgetting: cache_change forget
  by unfold_locales (simp_all add: forget_def)

section \<open>Appending bytes\<close>

text \<open>Appending touches the output lock, and nothing else of the shared state.\<close>

definition unlocked :: "pslog_shared \<Rightarrow> pslog_shared" where
  "unlocked sh = sh\<lparr>s_output_mutex := mutex_init\<rparr>"

lemma unlocked_lock [simp]: "unlocked (pslog_output_lock sh) = unlocked sh" "unlocked (pslog_output_unlock sh) = unlocked sh"
  by (simp_all add: unlocked_def pslog_output_lock_def pslog_output_unlock_def)

lemma flush_unlocked: "unlocked (e_shared (pslog_buffer_flush s)) = unlocked (e_shared s)"
  unfolding pslog_buffer_flush_def Let_def
  by (cases "b_data (e_buf s) = []"; cases "b_shared (e_buf s)"; cases "o_sink (s_output (e_shared s)) = S_null";
      cases "b_output_locked (e_buf s)"; cases "s_closed (e_shared s)") (simp_all add: case_prod_beta)

lemma append_char_unlocked: "unlocked (e_shared (pslog_buffer_append_char c s)) = unlocked (e_shared s)"
  using flush_unlocked [of s] by (simp add: pslog_buffer_append_char_def Let_def)

lemma appends_unlocked: "unlocked (e_shared (appends t s)) = unlocked (e_shared s)"
  by (induction t arbitrary: s) (simp_all add: appends_Cons append_char_unlocked)

lemma caches_ok_unlocked: "caches_ok X cfg (unlocked sh) = caches_ok X cfg sh"
  by (simp add: unlocked_def caches_ok_def timestamp_ok_def kvfmt_ok_def)

lemma caches_ok_appends [simp]: "caches_ok X cfg (e_shared (appends t s)) = caches_ok X cfg (e_shared s)"
  using appends_unlocked [of t s] caches_ok_unlocked by metis

lemma good_ready: "good X cfg s \<Longrightarrow> ready s"
  by (simp add: good_def)

lemma good_appends [simp]: "good X cfg s \<Longrightarrow> good X cfg (appends t s)"
proof -
  assume g: "good X cfg s"
  then have r: "ready (appends t s)" by (simp add: good_def)
  have "all_alloc (e_world (appends t s))"
  proof (cases "b_shared (e_buf s)")
    case True
    with g appends_alloc [of s t] show ?thesis by (auto simp: good_def same_alloc_all_alloc)
  next
    case False
    then have "\<not> b_shared (e_buf (appends t s))"
    proof (induction t arbitrary: s)
      case (Cons c t)
      have "\<not> b_shared (e_buf (pslog_buffer_flush s))" if "\<not> b_shared (e_buf s)" for s
        using that by (auto simp: pslog_buffer_flush_def pslog_buffer_reserve_def Let_def split: prod.splits if_splits option.splits)
      with Cons.prems have "\<not> b_shared (e_buf (pslog_buffer_append_char c s))"
        by (simp add: pslog_buffer_append_char_def Let_def)
      with Cons.IH show ?case by (simp add: appends_Cons)
    qed simp
    with r show ?thesis by (simp add: ready_def)
  qed
  with g r show ?thesis by (simp add: good_def)
qed

lemma view_appends [simp]: "good X cfg s \<Longrightarrow> view X cfg (appends t s) = map_option (appends t) (view X cfg s)"
  by (simp add: view_def forgetting.appends_commutes)

lemma map_option_appends [simp]: "map_option (appends b) (map_option (appends a) v) = map_option (appends (a @ b)) v"
  by (cases v) simp_all

lemma map_option_appends_Nil [simp]: "map_option (appends []) v = v"
  by (cases v) simp_all

text \<open>The plain appends, as bytes.\<close>

lemma or_empty_case: "(case t of None \<Rightarrow> [] | Some x \<Rightarrow> x) = or_empty t"
  by (simp add: or_empty_def)

lemma view_ops [simp]:
  assumes "good X cfg s"
  shows
    "view X cfg (append_n_fast t s) = map_option (appends t) (view X cfg s)"
    "view X cfg (append_char_fast c s) = map_option (appends [c]) (view X cfg s)"
    "view X cfg (pslog_buffer_append_char c s) = map_option (appends [c]) (view X cfg s)"
    "view X cfg (append_literal t s) = map_option (appends t) (view X cfg s)"
    "view X cfg (pslog_buffer_append_n t s) = map_option (appends t) (view X cfg s)"
    "view X cfg (apply_color_fast t b s) = map_option (appends (if b then t else [])) (view X cfg s)"
    "view X cfg (append_json_trusted_string_n_fast t s) = map_option (appends (dquote # t @ [dquote])) (view X cfg s)"
    "view X cfg (pslog_buffer_append_json_string_n ot s) = map_option (appends (json_string_bytes (or_empty ot))) (view X cfg s)"
    "view X cfg (pslog_buffer_append_json_string ot s) = map_option (appends (json_string_bytes (or_empty ot))) (view X cfg s)"
    "view X cfg (pslog_buffer_append_console_string ot s) = map_option (appends (console_string_bytes (or_empty ot))) (view X cfg s)"
    "view X cfg (pslog_buffer_append_console_message ot s) = map_option (appends (console_body False (or_empty ot))) (view X cfg s)"
    "view X cfg (pslog_buffer_append_signed v s) = map_option (appends (int_digits (sint v))) (view X cfg s)"
    "view X cfg (pslog_buffer_append_unsigned v s) = map_option (appends (nat_digits (unat v))) (view X cfg s)"
    "view X cfg (pslog_buffer_append_bytes_hex t s) = map_option (appends (hex_bytes t)) (view X cfg s)"
    "view X cfg (pslog_append_level_label cfg' level s) = map_option (appends (c_console_level_fragments cfg' (level_slot level))) (view X cfg s)"
    "view X cfg (pslog_buffer_append_pointer Y v s) = map_option (appends (lc_fmt_pointer Y v)) (view X cfg s)"
    "view X cfg (pslog_buffer_append_time Y tv q s) = map_option (appends (quoted q (time_text Y tv))) (view X cfg s)"
    "view X cfg (pslog_buffer_append_duration Y dv q s) = map_option (appends (quoted q (duration_text Y dv))) (view X cfg s)"
    "view X cfg (pslog_buffer_finish_line s) = map_option (appends [CHR 0x0A]) (view X cfg s)"
  using assms good_ready [OF assms] by (simp_all add: emit_simps or_empty_case)

lemma good_ops [simp]:
  assumes "good X cfg s"
  shows
    "good X cfg (append_n_fast t s)"
    "good X cfg (append_char_fast c s)"
    "good X cfg (pslog_buffer_append_char c s)"
    "good X cfg (append_literal t s)"
    "good X cfg (pslog_buffer_append_n t s)"
    "good X cfg (apply_color_fast t b s)"
    "good X cfg (append_json_trusted_string_n_fast t s)"
    "good X cfg (pslog_buffer_append_json_string_n ot s)"
    "good X cfg (pslog_buffer_append_json_string ot s)"
    "good X cfg (pslog_buffer_append_console_string ot s)"
    "good X cfg (pslog_buffer_append_console_message ot s)"
    "good X cfg (pslog_buffer_append_signed v s)"
    "good X cfg (pslog_buffer_append_unsigned v s)"
    "good X cfg (pslog_buffer_append_bytes_hex t s)"
    "good X cfg (pslog_append_level_label cfg' level s)"
    "good X cfg (pslog_buffer_append_pointer Y v s)"
    "good X cfg (pslog_buffer_append_time Y tv q s)"
    "good X cfg (pslog_buffer_append_duration Y dv q s)"
    "good X cfg (pslog_buffer_finish_line s)"
  using assms good_ready [OF assms] by (simp_all add: emit_simps)

text \<open>A string that is copied if it is safe, and escaped otherwise.\<close>

definition maybe_trusted_bytes :: "cstring \<Rightarrow> string" where
  "maybe_trusted_bytes t = (if safe_text t then dquote # t @ [dquote] else json_string_bytes t)"

lemma maybe_trusted_appends [emit_simps]:
  "ready s \<Longrightarrow> pslog_buffer_append_json_string_maybe_trusted (Some t) s = appends (maybe_trusted_bytes t) s"
proof -
  assume r: "ready s"
  have "fst (pslog_string_is_ascii_trusted_measure (Some t)) \<or> fst (pslog_string_is_trusted_measure (Some t)) \<longleftrightarrow> safe_text t"
    using ascii_safe [of t] by (auto simp: ascii_trusted_measure_spec trusted_measure_spec safe_text_def)
  with r show ?thesis
    by (simp add: pslog_buffer_append_json_string_maybe_trusted_def maybe_trusted_bytes_def emit_simps)
qed

lemma view_maybe_trusted [simp]:
  assumes "good X cfg s"
  shows "view X cfg (pslog_buffer_append_json_string_maybe_trusted (Some t) s) =
      map_option (appends (maybe_trusted_bytes t)) (view X cfg s)"
    and "good X cfg (pslog_buffer_append_json_string_maybe_trusted (Some t) s)"
  using assms good_ready [OF assms] by (simp_all add: emit_simps)

section \<open>Cached doubles\<close>

lemma forget_caches_simps [simp]:
  "forget (s_double_cache_update f sh) = forget sh"
  "forget (s_console_prefix_cache_update g sh) = forget sh"
  "forget (sh\<lparr>s_cached_timestamp := t, s_cached_timestamp_second := n, s_timestamp_cache_hits := h, s_timestamp_cache_misses := m\<rparr>) = forget sh"
  by (simp_all add: forget_def)

lemma view_update:
  assumes "good X cfg s" "\<And>sh. forget (g sh) = forget sh" "caches_ok X cfg (g (e_shared s))"
  shows "good X cfg (e_shared_update g s)" "view X cfg (e_shared_update g s) = view X cfg s"
proof -
  show g: "good X cfg (e_shared_update g s)" using assms by (simp add: good_def ready_def)
  have "forget_caches (e_shared_update g s) = forget_caches s" using assms(2) by (cases s) simp
  with g assms(1) show "view X cfg (e_shared_update g s) = view X cfg s" by (simp add: view_def)
qed

lemma view_double [simp]:
  assumes "good X cfg s"
  shows "view X cfg (pslog_buffer_append_double X v s) = map_option (appends (double_text X v)) (view X cfg s)"
    and "good X cfg (pslog_buffer_append_double X v s)"
proof -
  obtain c where c: "double_cache_ok X c"
    "pslog_buffer_append_double X v s = e_shared_update (s_double_cache_update (\<lambda>_. c)) (appends (double_text X v) s)"
    using append_double_appends [of s X v] assms by (auto simp: good_def caches_ok_def)
  have "caches_ok X cfg (s_double_cache_update (\<lambda>_. c) (e_shared (appends (double_text X v) s)))"
    using good_appends [OF assms, of "double_text X v"] c(1)
    by (simp add: good_def caches_ok_def timestamp_ok_def kvfmt_ok_def)
  note u = view_update [OF good_appends [OF assms, of "double_text X v"], of "s_double_cache_update (\<lambda>_. c)", simplified, OF this]
  show "view X cfg (pslog_buffer_append_double X v s) = map_option (appends (double_text X v)) (view X cfg s)"
    and "good X cfg (pslog_buffer_append_double X v s)"
    using u assms by (simp_all add: c(2))
qed

section \<open>Cached timestamps\<close>

definition set_stamp :: "int \<Rightarrow> string \<Rightarrow> nat \<Rightarrow> nat \<Rightarrow> pslog_shared \<Rightarrow> pslog_shared" where
  "set_stamp sec t h m sh = sh\<lparr>s_cached_timestamp := t, s_cached_timestamp_second := sec,
     s_timestamp_cache_hits := h, s_timestamp_cache_misses := m\<rparr>"

interpretation stamps: cache_change "set_stamp sec t h m" for sec t h m
  by unfold_locales (simp_all add: set_stamp_def)

text \<open>What the clock source answers: whole seconds and the nanoseconds within the second.\<close>

definition clock_ok :: "int \<times> int \<Rightarrow> bool" where
  "clock_ok clock = (0 \<le> snd clock \<and> snd clock < 10 ^ 9)"

definition timestamp_text :: "libc \<Rightarrow> shared_cfg \<Rightarrow> int \<times> int \<Rightarrow> string" where
  "timestamp_text X cfg clock =
     (if \<not> c_timestamps cfg then []
      else render_text X cfg (fst clock) (if c_timestamp_cacheable cfg then 0 else snd clock))"

lemma append_cached_spec:
  assumes "ready s" "mutex_ok (s_state_mutex (e_shared s))" "s_cached_timestamp (e_shared s) = t" "t \<noteq> []" "length t \<le> 63"
  shows "append_cached_timestamp (s\<lparr>e_shared := pslog_state_lock (e_shared s)\<rparr>) =
    appends t (e_shared_update (set_stamp (s_cached_timestamp_second (e_shared s)) t
      (Suc (s_timestamp_cache_hits (e_shared s))) (s_timestamp_cache_misses (e_shared s))) s)"
proof -
  let ?g = "set_stamp (s_cached_timestamp_second (e_shared s)) t
      (Suc (s_timestamp_cache_hits (e_shared s))) (s_timestamp_cache_misses (e_shared s))"
  let ?u = "e_shared_update ?g s"
  have sh: "pslog_state_unlock ((pslog_state_lock (e_shared s))\<lparr>s_timestamp_cache_hits :=
      Suc (s_timestamp_cache_hits (pslog_state_lock (e_shared s)))\<rparr>) = ?g (e_shared s)"
    using assms(2,3) by (cases "e_shared s") (simp add: pslog_state_lock_def pslog_state_unlock_def set_stamp_def)
  have short: "\<not> 64 \<le> length t" using assms(5) by simp
  have ue: "?u = s\<lparr>e_shared := ?g (e_shared s)\<rparr>" by (cases s) simp
  have u: "ready ?u" using assms(1) by (simp add: ready_def)
  have "append_cached_timestamp (s\<lparr>e_shared := pslog_state_lock (e_shared s)\<rparr>) = append_n_fast t ?u"
    using assms(1,3,4) short sh unfolding append_cached_timestamp_def Let_def ue
    by (simp add: append_n_fast_def ready_def)
  with u show ?thesis by (simp add: append_n_fast_appends)
qed

lemma set_stamp_forget [simp]: "forget (set_stamp sec t h m sh) = forget sh"
  by (simp add: set_stamp_def forget_def)

lemma view_stamped:
  assumes "good X cfg s" "t \<noteq> [] \<Longrightarrow> t = render_text X cfg sec 0"
  shows "good X cfg (appends b (e_shared_update (set_stamp sec t h m) s))"
    and "view X cfg (appends b (e_shared_update (set_stamp sec t h m) s)) = map_option (appends b) (view X cfg s)"
proof -
  have "caches_ok X cfg (set_stamp sec t h m (e_shared s))"
    using assms by (simp add: good_def caches_ok_def timestamp_ok_def set_stamp_def kvfmt_ok_def)
  note u = view_update [OF assms(1) set_stamp_forget this]
  show "good X cfg (appends b (e_shared_update (set_stamp sec t h m) s))"
    and "view X cfg (appends b (e_shared_update (set_stamp sec t h m) s)) = map_option (appends b) (view X cfg s)"
    using u by simp_all
qed

lemma append_timestamp_cases:
  assumes "good X cfg s" "zone_ok X" "clock_ok clock"
  obtains (plain) "pslog_append_timestamp X cfg clock s = appends (timestamp_text X cfg clock) s"
  | (stamped) sec t h m where "t \<noteq> [] \<Longrightarrow> t = render_text X cfg sec 0"
      "pslog_append_timestamp X cfg clock s =
         appends (timestamp_text X cfg clock) (e_shared_update (set_stamp sec t h m) s)"
proof -
  obtain now ns where clock: "clock = (now, ns)" by (cases clock)
  have g: "ready s" "all_alloc (e_world s)" "mutex_ok (s_state_mutex (e_shared s))" "timestamp_ok X cfg (e_shared s)"
    using assms(1) by (simp_all add: good_def caches_ok_def)
  have rz: "pslog_render_timestamp_value X cfg now 0 64 s = (render_text X cfg now 0, s)" "length (render_text X cfg now 0) \<le> 63"
    using render_timestamp [OF g(2) assms(2), of 0 cfg now] by simp_all
  have rn: "pslog_render_timestamp_value X cfg now ns 64 s = (render_text X cfg now ns, s)"
    using render_timestamp [OF g(2) assms(2), of ns cfg now] assms(3) by (simp add: clock_ok_def clock)
  show ?thesis
  proof (cases "c_timestamps cfg \<and> c_timestamp_cacheable cfg")
    case False
    with rn g(1) show ?thesis
      by (intro plain) (auto simp: pslog_append_timestamp_def timestamp_text_def clock append_n_fast_appends)
  next
    case True
    let ?sh = "e_shared s"
    have tt: "timestamp_text X cfg clock = render_text X cfg now 0" using True by (simp add: timestamp_text_def clock)
    show ?thesis
    proof (cases "s_cached_timestamp ?sh \<noteq> [] \<and> s_cached_timestamp_second ?sh = now")
      case hit: True
      then have c: "s_cached_timestamp ?sh = render_text X cfg now 0" using g(4) by (simp add: timestamp_ok_def)
      with hit have "pslog_append_timestamp X cfg clock s =
          append_cached_timestamp (s\<lparr>e_shared := pslog_state_lock ?sh\<rparr>)"
        using True by (simp add: pslog_append_timestamp_def clock Let_def)
      with append_cached_spec [OF g(1,3) c] hit c rz(2) tt show ?thesis by (intro stamped) auto
    next
      case miss: False
      have restore: "s\<lparr>e_shared := ?sh\<rparr> = s" by (cases s) simp
      let ?t = "render_text X cfg now 0"
      show ?thesis
      proof (cases "?t = []")
        case True
        with miss \<open>c_timestamps cfg \<and> c_timestamp_cacheable cfg\<close> rz g(3) restore tt show ?thesis
          by (intro plain) (auto simp: pslog_append_timestamp_def clock Let_def)
      next
        case False
        let ?g = "set_stamp now ?t (s_timestamp_cache_hits ?sh) (Suc (s_timestamp_cache_misses ?sh))"
        have sh: "pslog_state_unlock ((pslog_state_lock ?sh)\<lparr>s_cached_timestamp := ?t, s_cached_timestamp_second := now,
            s_timestamp_cache_misses := Suc (s_timestamp_cache_misses (pslog_state_lock ?sh))\<rparr>) = ?g ?sh"
          using g(3) by (cases ?sh) (simp add: pslog_state_lock_def pslog_state_unlock_def set_stamp_def)
        have "pslog_append_timestamp X cfg clock s = append_n_fast ?t (s\<lparr>e_shared := ?g ?sh\<rparr>)"
          using miss True False rz g(3) restore
          by (auto simp: pslog_append_timestamp_def clock Let_def sh)
        also have "\<dots> = appends ?t (e_shared_update ?g s)"
          using g(1) unfolding e_shared_set by (intro append_n_fast_appends) (simp add: ready_def)
        finally show ?thesis using tt by (intro stamped) auto
      qed
    qed
  qed
qed

lemma view_timestamp [simp]:
  assumes "good X cfg s" "zone_ok X" "clock_ok clock"
  shows "view X cfg (pslog_append_timestamp X cfg clock s) = map_option (appends (timestamp_text X cfg clock)) (view X cfg s)"
    and "good X cfg (pslog_append_timestamp X cfg clock s)"
  using assms by (cases rule: append_timestamp_cases; simp add: assms(1) view_stamped)+

section \<open>A line reaches its sink\<close>

lemma buffer_init_flag:
  "pslog_buffer_init h cap w = apfst (\<lambda>b. b\<lparr>b_shared := h\<rparr>) (pslog_buffer_init False cap w)"
  by (simp add: pslog_buffer_init_def Let_def clear_buffer_def split: option.split prod.split)

text \<open>Sinks whose promise does not depend on the allocator.\<close>

locale emitting_sink = line_sink snk acc ok for snk acc ok +
  assumes ok_alloc: "ok (w\<lparr>w_allocs := n, w_frees := m\<rparr>) = ok w"
    and acc_alloc: "acc (w\<lparr>w_allocs := n, w_frees := m\<rparr>) = acc w"
    and not_null: "snk \<noteq> S_null"

text \<open>
  A logger's state between calls: open, its sink in the sink's promise, no lock held and the caches
  coherent.
\<close>

definition serving :: "sink \<Rightarrow> (world \<Rightarrow> bool) \<Rightarrow> libc \<Rightarrow> shared_cfg \<Rightarrow> est \<Rightarrow> bool" where
  "serving snk ok X cfg s = (\<not> s_closed (e_shared s) \<and> o_sink (s_output (e_shared s)) = snk \<and> ok (e_world s) \<and>
     all_alloc (e_world s) \<and> mutex_ok (s_output_mutex (e_shared s)) \<and> caches_ok X cfg (e_shared s))"

lemma write_buffer_forget: "pslog_write_buffer True (forget_caches s) = forget_caches (pslog_write_buffer True s)"
  unfolding pslog_write_buffer_def Let_def
  by (cases "b_data (e_buf s) = []"; cases "b_output_locked (e_buf s)")
    (simp_all add: case_prod_beta forgetting.locks_commute forgetting.write_output_unchanged write_output_lock)

lemma write_buffer_unlocked_eq: "unlocked (e_shared (pslog_write_buffer True s)) = unlocked (e_shared s)"
  by (simp add: pslog_write_buffer_def Let_def case_prod_beta)

lemma write_buffer_alloc: "same_alloc (e_world s) (e_world (pslog_write_buffer True s))"
  using write_output_alloc [of "e_world s" "e_shared s" "b_data (e_buf s)" "b_chunk_capacity (e_buf s)"]
  by (simp add: pslog_write_buffer_def Let_def case_prod_beta write_output_lock)

lemma view_SomeD: "view X cfg t = map_option (appends B) (view X cfg s) \<Longrightarrow> good X cfg s \<Longrightarrow>
    good X cfg t \<and> forget_caches t = appends B (forget_caches s)"
  by (auto simp: view_def split: if_splits)

lemma open_line_spec:
  assumes "all_alloc (e_world s)"
  obtains b n where "open_line cfg s = s\<lparr>e_buf := b, e_world := (e_world s)\<lparr>w_allocs := n\<rparr>\<rparr>"
    "w_allocs (e_world s) \<le> n" "b_shared b" "b_data b = []" "\<not> b_null b" "0 < b_capacity b" "\<not> b_output_locked b"
proof -
  obtain b n where b: "pslog_buffer_init False (c_line_buffer_capacity cfg) (e_world s) = (b, (e_world s)\<lparr>w_allocs := n\<rparr>)"
    "w_allocs (e_world s) \<le> n" "b_data b = []" "\<not> b_null b" "0 < b_capacity b"
    using buffer_init_unshared [OF assms] by blast
  have "\<not> b_output_locked (fst (pslog_buffer_init False c w))" for c w
    by (simp add: pslog_buffer_init_def Let_def split: option.split prod.split)
  from this [of "c_line_buffer_capacity cfg" "e_world s"] b that [of n "b\<lparr>b_shared := True\<rparr>"] show ?thesis
    by (simp add: open_line_def buffer_init_flag [of True])
qed

lemma open_line_good:
  assumes "all_alloc (e_world s)" "caches_ok X cfg (e_shared s)"
  shows "good X cfg (open_line cfg s)"
proof -
  obtain b n where b: "open_line cfg s = s\<lparr>e_buf := b, e_world := (e_world s)\<lparr>w_allocs := n\<rparr>\<rparr>"
    "w_allocs (e_world s) \<le> n" "b_shared b" "b_data b = []" "\<not> b_null b" "0 < b_capacity b"
    by (rule open_line_spec [OF assms(1), of cfg])
  with assms show ?thesis by (auto simp: good_def ready_def all_alloc_def)
qed

lemma unlocked_forget: "unlocked (forget sh) = forget (unlocked sh)"
  by (simp add: unlocked_def forget_def)

lemma forget_sel [simp]: "s_closed (forget sh) = s_closed sh" "s_output (forget sh) = s_output sh"
  "s_output_mutex (forget sh) = s_output_mutex sh"
  by (simp_all add: forget_def)

lemma unlocked_sel: "unlocked a = unlocked b \<Longrightarrow> s_closed a = s_closed b \<and> s_output a = s_output b"
  by (auto simp: unlocked_def dest: arg_cong [where f = s_closed] arg_cong [where f = s_output])

context emitting_sink
begin

text \<open>What the sink has once a line with the bytes \<open>B\<close> is written, and what is left of the logger's state.\<close>

lemma line_written:
  assumes g: "good X cfg s" and on: "online snk ok s" and empty: "b_data (e_buf s) = []" and lw: "lock_wf s" and ne: "B \<noteq> []"
    and body: "view X cfg u = map_option (appends B) (view X cfg s)"
  shows "acc (e_world (pslog_write_buffer True u)) = acc (e_world s) @ B"
    and "serving snk ok X cfg (pslog_write_buffer True u)"
proof -
  define o' where "o' = forget_caches s"
  note u = view_SomeD [OF body g]
  have on': "online snk ok o'" using on by (simp add: online_def o'_def ready_def)
  have lw': "lock_wf o'" using lw by (simp add: lock_wf_def o'_def)
  define w where "w = pslog_write_buffer True u"
  have fw: "forget_caches w = pslog_write_buffer True (appends B o')"
    unfolding w_def write_buffer_forget [symmetric] using u by (simp add: o'_def)
  have ew: "e_world w = e_world (pslog_write_buffer True (appends B o'))"
    using arg_cong [OF fw, of e_world] by simp
  have shw: "forget (e_shared w) = e_shared (pslog_write_buffer True (appends B o'))"
    using arg_cong [OF fw, of e_shared] by simp
  have deliver: "acc (e_world w) = acc (e_world s) @ B" "ok (e_world w)"
    using line_delivers [OF on', of B] empty ew by (simp_all add: o'_def)
  have ne': "b_data (e_buf (appends B o')) \<noteq> []"
    using appends_nonempty [of o' "butlast B" "last B"] ne on' by (simp add: online_def)
  have mx: "mutex_ok (s_output_mutex (e_shared w))"
    using write_buffer_unlocks [OF appends_lock_wf [OF lw'] ne'] shw by (metis forget_sel(3))
  have un: "unlocked (e_shared w) = unlocked (e_shared u)" unfolding w_def by (rule write_buffer_unlocked_eq)
  have cw: "caches_ok X cfg (e_shared w)"
    using u un caches_ok_unlocked by (metis good_def)
  have "unlocked (forget (e_shared w)) = unlocked (e_shared o')"
    using shw write_buffer_unlocked_eq [of "appends B o'"] appends_unlocked [of B o'] by simp
  then have same: "s_closed (e_shared w) = s_closed (e_shared s)" "s_output (e_shared w) = s_output (e_shared s)"
    using unlocked_sel [of "forget (e_shared w)" "e_shared o'"] by (simp_all add: o'_def)
  have al: "all_alloc (e_world w)"
    using u write_buffer_alloc [of u] by (simp add: w_def same_alloc_all_alloc good_def)
  show "acc (e_world (pslog_write_buffer True u)) = acc (e_world s) @ B"
    using deliver(1) by (simp add: w_def)
  show "serving snk ok X cfg (pslog_write_buffer True u)"
    unfolding w_def [symmetric] serving_def using deliver(2) al mx cw same on by (simp add: online_def)
qed

text \<open>The allocator's counters and the buffer of the line are no part of the promise.\<close>

lemma serving_frame:
  "serving snk ok X cfg (s\<lparr>e_buf := b, e_world := (e_world s)\<lparr>w_allocs := n, w_frees := m\<rparr>\<rparr>) =
     (ok (e_world s) \<and> all_alloc ((e_world s)\<lparr>w_allocs := n, w_frees := m\<rparr>) \<and>
      \<not> s_closed (e_shared s) \<and> o_sink (s_output (e_shared s)) = snk \<and> mutex_ok (s_output_mutex (e_shared s)) \<and>
      caches_ok X cfg (e_shared s))"
  using ok_alloc [where w = "e_world s" and n = n and m = m] by (auto simp: serving_def)

lemma open_line_online:
  assumes "serving snk ok X cfg s"
  shows "good X cfg (open_line cfg s)" "online snk ok (open_line cfg s)" "b_data (e_buf (open_line cfg s)) = []"
    "lock_wf (open_line cfg s)" "acc (e_world (open_line cfg s)) = acc (e_world s)"
proof -
  note sv = assms [unfolded serving_def]
  obtain b n where b: "open_line cfg s = s\<lparr>e_buf := b, e_world := (e_world s)\<lparr>w_allocs := n\<rparr>\<rparr>"
    "w_allocs (e_world s) \<le> n" "b_shared b" "b_data b = []" "\<not> b_null b" "0 < b_capacity b" "\<not> b_output_locked b"
    by (rule open_line_spec [of s cfg]) (use sv in blast)
  show g: "good X cfg (open_line cfg s)" using sv by (intro open_line_good) simp_all
  have o_ok: "ok (e_world (open_line cfg s))" and "acc (e_world (open_line cfg s)) = acc (e_world s)"
    using sv ok_alloc [where w = "e_world s" and n = n and m = "w_frees (e_world s)"]
      acc_alloc [where w = "e_world s" and n = n and m = "w_frees (e_world s)"]
    by (simp_all add: b)
  then show "acc (e_world (open_line cfg s)) = acc (e_world s)" by simp
  show "online snk ok (open_line cfg s)" using g sv o_ok not_null b(3)
    by (simp add: online_def good_def ready_def) (simp add: b)
  show "b_data (e_buf (open_line cfg s)) = []" "lock_wf (open_line cfg s)"
    using sv b by (simp_all add: lock_wf_def mutex_ok_def)
qed

lemma destroy_world:
  obtains m where "snd (pslog_buffer_destroy b w) = w\<lparr>w_allocs := w_allocs w, w_frees := m\<rparr>"
    "snd (pslog_buffer_destroy_fast b w) = w\<lparr>w_allocs := w_allocs w, w_frees := m\<rparr>"
  by (rule that [of "if b_heap_owned b \<and> \<not> b_null b then Suc (w_frees w) else w_frees w"])
    (simp_all add: pslog_buffer_destroy_def pslog_buffer_destroy_fast_def pslog_free_internal_def Let_def)

lemma line_left:
  assumes "serving snk ok X cfg w"
  shows "serving snk ok X cfg (w\<lparr>e_buf := b, e_world := (e_world w)\<lparr>w_allocs := w_allocs (e_world w), w_frees := m\<rparr>\<rparr>)"
  using assms unfolding serving_frame by (simp add: serving_def all_alloc_def)

text \<open>A line whose body appends \<open>B\<close> is delivered whole, and the next line can follow.\<close>

lemma line_emitted:
  assumes serve: "serving snk ok X cfg s" and ne: "B \<noteq> []"
    and body: "view X cfg u = map_option (appends B) (view X cfg (open_line cfg s))"
  shows "acc (e_world (close_line outer u)) = acc (e_world s) @ B \<and> serving snk ok X cfg (close_line outer u)"
proof -
  note o = open_line_online [OF serve]
  note w = line_written [OF o(1-4) ne body]
  let ?w = "pslog_write_buffer True u"
  obtain m where m: "snd (pslog_buffer_destroy (e_buf ?w) (e_world ?w)) =
      (e_world ?w)\<lparr>w_allocs := w_allocs (e_world ?w), w_frees := m\<rparr>" by (rule destroy_world)
  have cl: "close_line outer u = ?w\<lparr>e_buf := outer, e_world := (e_world ?w)\<lparr>w_allocs := w_allocs (e_world ?w), w_frees := m\<rparr>\<rparr>"
    by (simp add: close_line_def case_prod_beta Let_def m [simplified])
  show ?thesis unfolding cl
    using w(1) o(5) acc_alloc [where w = "e_world ?w" and n = "w_allocs (e_world ?w)" and m = m] line_left [OF w(2)] by simp
qed

end

interpretation emit_user: emitting_sink "S_user u" "accepted (T_user u)" all_progress for u
  by unfold_locales (simp_all add: all_progress_def accepted_def)

interpretation emit_fd: emitting_sink "S_fd a (Some fd)" "accepted (T_fd fd)" "\<lambda>w. 0 \<le> fd \<and> all_progress w" for a fd
  by unfold_locales (simp_all add: all_progress_def accepted_def)

interpretation emit_stdio: emitting_sink "S_file (Some f)" "accepted (T_file f)" all_accept for f
  by unfold_locales (simp_all add: all_accept_def accepted_def)

interpretation emit_observed: emitting_sink "S_observed i cb (Some (Output (S_fd a (Some fd)) c t n))"
    "accepted (T_fd fd)" "\<lambda>w. 0 \<le> fd \<and> all_progress w" for i cb a fd c t n
  by unfold_locales (simp_all add: all_progress_def accepted_def)

interpretation emit_tee: emitting_sink
    "S_tee a (Some (Output (S_file (Some f)) c1 t1 n1, Output (S_fd b (Some fd)) c2 t2 n2))"
    "accepted (T_fd fd)" "\<lambda>w. 0 \<le> fd \<and> all_accept w" for a f c1 t1 n1 b fd c2 t2 n2
  by unfold_locales (simp_all add: all_accept_def accepted_def)

end
