(* ===== verification/EmitJson.thy ===== *)
theory EmitJson
  imports Emission
begin

text \<open>
  The JSON lines of \<open>src/pslog_emit_json.c\<close>, plain and coloured, for fields and for format strings.
  The caller's clock reading, \<open>errno\<close> and variable arguments are parameters; \<open>X\<close> is the C library.
\<close>

section \<open>Values\<close>

text \<open>The key and value of a field as the emitters read them.\<close>

definition has_key :: "pslog_field \<Rightarrow> bool" where
  "has_key f = (case f_key f of None \<Rightarrow> False | Some (_, k) \<Rightarrow> k \<noteq> [])"

definition key_string :: "pslog_field \<Rightarrow> cstring option" where
  "key_string f = map_option snd (f_key f)"

definition json_string_value :: "pslog_field \<Rightarrow> cstring option \<Rightarrow> est \<Rightarrow> est" where
  "json_string_value field sv s =
     (let t = map_option (take (f_value_len field)) sv
      in if f_trusted_value field then append_json_trusted_string_n_fast (or_empty t) s
         else pslog_buffer_append_json_string_n t s)"

definition inf_text :: "64 word \<Rightarrow> cstring" where
  "inf_text v = (if double_sign v then ''-Inf'' else ''+Inf'')"

definition pslog_append_json_value_plain :: "libc \<Rightarrow> shared_cfg \<Rightarrow> pslog_field \<Rightarrow> est \<Rightarrow> est" where
  "pslog_append_json_value_plain X cfg field s =
     (case f_value field of
        V_null \<Rightarrow> append_literal ''null'' s
      | V_string sv \<Rightarrow> json_string_value field sv s
      | V_signed v \<Rightarrow> pslog_buffer_append_signed v s
      | V_unsigned v \<Rightarrow> pslog_buffer_append_unsigned v s
      | V_double v \<Rightarrow>
          if pslog_double_is_nan v then
            (if c_non_finite_float_policy cfg = NON_FINITE_FLOAT_AS_NULL then append_literal ''null'' s
             else pslog_buffer_append_json_string (Some ''NaN'') s)
          else if pslog_double_is_inf v then
            (if c_non_finite_float_policy cfg = NON_FINITE_FLOAT_AS_NULL then append_literal ''null'' s
             else pslog_buffer_append_json_string (Some (inf_text v)) s)
          else pslog_buffer_append_double X v s
      | V_bool b \<Rightarrow> if b then append_literal ''true'' s else append_literal ''false'' s
      | V_pointer p \<Rightarrow> append_char_fast dquote (pslog_buffer_append_pointer X p (append_char_fast dquote s))
      | V_bytes data \<Rightarrow> append_char_fast dquote (pslog_buffer_append_bytes_hex data (append_char_fast dquote s))
      | V_time t \<Rightarrow> pslog_buffer_append_time X t True s
      | V_duration d \<Rightarrow> pslog_buffer_append_duration X d True s
      | V_errno e \<Rightarrow>
          pslog_buffer_append_json_string_maybe_trusted (Some (pslog_errno_string X (int_of_errno e) 128)) s)"

definition pslog_append_json_value_color :: "libc \<Rightarrow> shared_cfg \<Rightarrow> pslog_field \<Rightarrow> est \<Rightarrow> est" where
  "pslog_append_json_value_color X cfg field s =
     (let palette = c_palette cfg;
          reset = append_n_fast (p_reset palette)
      in case f_value field of
        V_null \<Rightarrow> reset (append_literal ''null'' (append_n_fast (p_null_value palette) s))
      | V_string sv \<Rightarrow> reset (json_string_value field sv (append_n_fast (p_string palette) s))
      | V_signed v \<Rightarrow> reset (pslog_buffer_append_signed v (append_n_fast (p_number palette) s))
      | V_unsigned v \<Rightarrow> reset (pslog_buffer_append_unsigned v (append_n_fast (p_number palette) s))
      | V_double v \<Rightarrow>
          if pslog_double_is_nan v then
            (if c_non_finite_float_policy cfg = NON_FINITE_FLOAT_AS_NULL
             then reset (append_literal ''null'' (append_n_fast (p_null_value palette) s))
             else reset (pslog_buffer_append_json_string_maybe_trusted (Some ''NaN'') (append_n_fast (p_string palette) s)))
          else if pslog_double_is_inf v then
            (if c_non_finite_float_policy cfg = NON_FINITE_FLOAT_AS_NULL
             then reset (append_literal ''null'' (append_n_fast (p_null_value palette) s))
             else reset (pslog_buffer_append_json_string_maybe_trusted (Some (inf_text v)) (append_n_fast (p_string palette) s)))
          else reset (pslog_buffer_append_double X v (append_n_fast (p_number palette) s))
      | V_bool b \<Rightarrow>
          (let s1 = append_n_fast (p_boolean palette) s
           in reset (if b then append_literal ''true'' s1 else append_literal ''false'' s1))
      | V_pointer p \<Rightarrow>
          reset (append_char_fast dquote (pslog_buffer_append_pointer X p
            (append_char_fast dquote (append_n_fast (p_string palette) s))))
      | V_bytes data \<Rightarrow>
          reset (append_char_fast dquote (pslog_buffer_append_bytes_hex data
            (append_char_fast dquote (append_n_fast (p_string palette) s))))
      | V_time t \<Rightarrow> reset (pslog_buffer_append_time X t True (append_n_fast (p_timestamp palette) s))
      | V_duration d \<Rightarrow> reset (pslog_buffer_append_duration X d True (append_n_fast (p_string palette) s))
      | V_errno e \<Rightarrow>
          reset (pslog_buffer_append_json_string_maybe_trusted (Some (pslog_errno_string X (int_of_errno e) 128))
            (append_n_fast (p_error palette) s)))"

section \<open>Members\<close>

definition json_comma :: "bool \<Rightarrow> est \<Rightarrow> est" where
  "json_comma first_field s = (if \<not> first_field then append_char_fast CHR '','' s else s)"

definition pslog_json_message_prefix :: "bool \<Rightarrow> cstring \<times> nat" where
  "pslog_json_message_prefix verbose_fields =
     (if verbose_fields then (dquote # ''message'' @ [dquote, CHR '':''], 10)
      else (dquote # ''msg'' @ [dquote, CHR '':''], 6))"

definition append_prefix_n :: "cstring \<times> nat \<Rightarrow> est \<Rightarrow> est" where
  "append_prefix_n p s = append_n_fast (take (snd p) (fst p)) s"

definition pslog_append_json_message_field_plain :: "shared_cfg \<Rightarrow> cstring \<Rightarrow> bool \<Rightarrow> est \<Rightarrow> est" where
  "pslog_append_json_message_field_plain cfg msg first_field s =
     pslog_buffer_append_json_string_maybe_trusted (Some msg)
       (append_prefix_n (pslog_json_message_prefix (c_verbose_fields cfg)) (json_comma first_field s))"

definition pslog_append_json_color_literal :: "cstring \<Rightarrow> cstring \<Rightarrow> cstring \<Rightarrow> est \<Rightarrow> est" where
  "pslog_append_json_color_literal color text' suffix' s =
     (let s1 = (if length color > 0 then append_n_fast color s else s);
          s2 = (if length text' > 0 then append_n_fast text' s1 else s1)
      in if length suffix' > 0 then append_n_fast suffix' s2 else s2)"

definition pslog_append_json_message_field_color :: "shared_cfg \<Rightarrow> cstring \<Rightarrow> bool \<Rightarrow> est \<Rightarrow> est" where
  "pslog_append_json_message_field_color cfg msg first_field s =
     (let palette = c_palette cfg;
          s1 = json_comma first_field s;
          s2 = (if length (c_json_color_message_prefix cfg) > 0
                then append_n_fast (c_json_color_message_prefix cfg) s1
                else (let (prefix', len) = pslog_json_message_prefix (c_verbose_fields cfg)
                      in append_n_fast (p_message palette)
                           (pslog_append_json_color_literal (p_message_key palette) (take len prefix') [] s1)))
      in append_n_fast (p_reset palette) (pslog_buffer_append_json_string_maybe_trusted (Some msg) s2))"

definition json_key :: "pslog_field \<Rightarrow> est \<Rightarrow> est" where
  "json_key field s =
     (if f_trusted_key field then append_json_trusted_string_n_fast (field_key field) s
      else pslog_buffer_append_json_string (key_string field) s)"

definition pslog_append_json_field_plain :: "libc \<Rightarrow> shared_cfg \<Rightarrow> pslog_field \<Rightarrow> bool \<Rightarrow> est \<Rightarrow> est" where
  "pslog_append_json_field_plain X cfg field first_field s =
     (if \<not> has_key field then s
      else pslog_append_json_value_plain X cfg field
             (append_char_fast CHR '':'' (json_key field (json_comma first_field s))))"

definition pslog_append_json_field_color :: "libc \<Rightarrow> shared_cfg \<Rightarrow> pslog_field \<Rightarrow> bool \<Rightarrow> est \<Rightarrow> est" where
  "pslog_append_json_field_color X cfg field first_field s =
     (if \<not> has_key field then s
      else pslog_append_json_value_color X cfg field
             (append_char_fast CHR '':'' (json_key field
               (append_n_fast (p_key (c_palette cfg)) (json_comma first_field s)))))"

fun pslog_append_json_field_set_plain ::
  "libc \<Rightarrow> shared_cfg \<Rightarrow> pslog_field list \<Rightarrow> bool \<Rightarrow> est \<Rightarrow> bool \<times> est" where
  "pslog_append_json_field_set_plain X cfg [] first_field s = (first_field, s)"
| "pslog_append_json_field_set_plain X cfg (f # fs) first_field s =
     (if has_key f
      then pslog_append_json_field_set_plain X cfg fs False (pslog_append_json_field_plain X cfg f first_field s)
      else pslog_append_json_field_set_plain X cfg fs first_field s)"

fun pslog_append_json_field_set_color ::
  "libc \<Rightarrow> shared_cfg \<Rightarrow> pslog_field list \<Rightarrow> bool \<Rightarrow> est \<Rightarrow> bool \<times> est" where
  "pslog_append_json_field_set_color X cfg [] first_field s = (first_field, s)"
| "pslog_append_json_field_set_color X cfg (f # fs) first_field s =
     (if has_key f
      then pslog_append_json_field_set_color X cfg fs False (pslog_append_json_field_color X cfg f first_field s)
      else pslog_append_json_field_set_color X cfg fs first_field s)"

text \<open>The bytes a derived logger keeps of its fields: every field with a leading comma.\<close>

fun pslog_append_json_field_prefix :: "libc \<Rightarrow> shared_cfg \<Rightarrow> pslog_field list \<Rightarrow> est \<Rightarrow> est" where
  "pslog_append_json_field_prefix X cfg [] s = s"
| "pslog_append_json_field_prefix X cfg (f # fs) s =
     pslog_append_json_field_prefix X cfg fs
       (if c_color_enabled cfg then pslog_append_json_field_color X cfg f False s
        else pslog_append_json_field_plain X cfg f False s)"

section \<open>Levels and timestamps\<close>

fun pslog_json_level_slot :: "pslog_level \<Rightarrow> nat" where
  "pslog_json_level_slot LEVEL_TRACE = 0"
| "pslog_json_level_slot LEVEL_DEBUG = 1"
| "pslog_json_level_slot LEVEL_WARN = 3"
| "pslog_json_level_slot LEVEL_ERROR = 4"
| "pslog_json_level_slot LEVEL_FATAL = 5"
| "pslog_json_level_slot LEVEL_PANIC = 6"
| "pslog_json_level_slot LEVEL_NOLEVEL = 7"
| "pslog_json_level_slot _ = 2"

definition json_pair :: "cstring \<Rightarrow> cstring \<Rightarrow> cstring" where
  "json_pair k v = dquote # k @ [dquote, CHR '':'', dquote] @ v @ [dquote]"

definition pslog_json_level_field_literal :: "pslog_level \<Rightarrow> bool \<Rightarrow> cstring \<times> nat" where
  "pslog_json_level_field_literal level verbose_fields =
     (let names = [''trace'', ''debug'', ''info'', ''warn'', ''error'', ''fatal'', ''panic'', ''nolevel''];
          index = pslog_json_level_slot level
      in if verbose_fields
         then (map (json_pair ''level'') names ! index, [15, 15, 14, 14, 15, 15, 15, 17] ! index)
         else (map (json_pair ''lvl'') names ! index, [13, 13, 12, 12, 13, 13, 13, 15] ! index))"

definition time_key_name :: "shared_cfg \<Rightarrow> cstring" where
  "time_key_name cfg = (if c_verbose_fields cfg then ''time'' else ''ts'')"

definition json_timestamp_plain :: "libc \<Rightarrow> shared_cfg \<Rightarrow> int \<times> int \<Rightarrow> bool \<Rightarrow> est \<Rightarrow> est" where
  "json_timestamp_plain X cfg clock first_field s =
     append_char_fast dquote (pslog_append_timestamp X cfg clock (append_char_fast dquote (append_char_fast CHR '':''
       (append_json_trusted_string_n_fast (time_key_name cfg) (json_comma first_field s)))))"

definition pslog_append_json_timestamp_field_color :: "libc \<Rightarrow> shared_cfg \<Rightarrow> int \<times> int \<Rightarrow> bool \<Rightarrow> est \<Rightarrow> est" where
  "pslog_append_json_timestamp_field_color X cfg clock first_field s =
     (let palette = c_palette cfg; s1 = json_comma first_field s in
      if length (c_json_color_timestamp_prefix cfg) > 0 \<and> length (c_json_color_timestamp_suffix cfg) > 0
      then append_n_fast (c_json_color_timestamp_suffix cfg) (pslog_append_timestamp X cfg clock
             (append_n_fast (c_json_color_timestamp_prefix cfg) s1))
      else
        (let s2 = pslog_append_json_color_literal (p_key palette) (dquote # time_key_name cfg @ [dquote, CHR '':'']) [] s1;
             s3 = append_n_fast (p_timestamp palette) (append_n_fast (p_reset palette) s2)
         in append_n_fast (p_reset palette) (append_char_fast dquote
              (pslog_append_timestamp X cfg clock (append_char_fast dquote s3)))))"

definition pslog_append_json_level_field_color_cached_or_dynamic ::
  "shared_cfg \<Rightarrow> pslog_level \<Rightarrow> bool \<Rightarrow> est \<Rightarrow> est" where
  "pslog_append_json_level_field_color_cached_or_dynamic cfg level min_level_field s =
     (let slot = pslog_json_level_slot level;
          palette = c_palette cfg;
          cached = (if min_level_field then c_json_color_min_level_fields cfg slot else c_json_color_level_fields cfg slot);
          key = (if min_level_field then ''loglevel'' else if c_verbose_fields cfg then ''level'' else ''lvl'')
      in if length cached > 0 then append_n_fast cached s
         else
           (let s1 = pslog_append_json_color_literal (p_key palette) (dquote # key @ [dquote, CHR '':'']) [] s;
                s2 = pslog_append_json_color_literal
                       (take (pslog_level_color_len cfg level) (pslog_level_color palette level)) [dquote] [] s1;
                s3 = append_n_fast (take (pslog_level_string_len level) (pslog_level_string level)) s2
            in append_n_fast (p_reset palette) (append_char_fast dquote s3)))"

definition level_field :: "libc \<Rightarrow> pslog_logger_impl \<Rightarrow> pslog_field" where
  "level_field X impl =
     \<lparr>f_key = Some (lc_literal X ''loglevel'', ''loglevel''), f_key_len = 8,
      f_value_len = pslog_level_string_len (i_min_level impl),
      f_value = V_string (Some (pslog_level_string (i_min_level impl))),
      f_trusted_key = True, f_trusted_value = True, f_console_simple_value = True\<rparr>"

section \<open>Lines\<close>

text \<open>Braces and newline around the members, on a buffer of the line's own.\<close>

definition json_line :: "shared_cfg \<Rightarrow> (est \<Rightarrow> est) \<Rightarrow> est \<Rightarrow> est" where
  "json_line cfg body s =
     close_line (e_buf s) (pslog_buffer_finish_line (append_char_fast CHR ''}''
       (body (append_char_fast CHR ''{'' (open_line cfg s)))))"

text \<open>The prepared text of the logger's own fields if there is one, else the fields.\<close>

definition own_fields_plain :: "libc \<Rightarrow> shared_cfg \<Rightarrow> pslog_logger_impl \<Rightarrow> bool \<Rightarrow> est \<Rightarrow> bool \<times> est" where
  "own_fields_plain X cfg impl first_field s =
     (if length (i_field_prefix impl) > 0 then (False, append_n_fast (i_field_prefix impl) s)
      else pslog_append_json_field_set_plain X cfg (i_fields impl) first_field s)"

definition own_fields_color :: "libc \<Rightarrow> shared_cfg \<Rightarrow> pslog_logger_impl \<Rightarrow> bool \<Rightarrow> est \<Rightarrow> bool \<times> est" where
  "own_fields_color X cfg impl first_field s =
     (if length (i_field_prefix impl) > 0 then (False, append_n_fast (i_field_prefix impl) s)
      else pslog_append_json_field_set_color X cfg (i_fields impl) first_field s)"

text \<open>Timestamp, level, message and the logger's fields, as both plain emitters write them.\<close>

definition json_head_plain ::
  "libc \<Rightarrow> shared_cfg \<Rightarrow> pslog_logger_impl \<Rightarrow> pslog_level \<Rightarrow> cstring option \<Rightarrow> int \<times> int \<Rightarrow> est \<Rightarrow> bool \<times> est" where
  "json_head_plain X cfg impl level msg clock s =
     (let s1 = (if c_timestamps cfg then json_timestamp_plain X cfg clock True s else s);
          s2 = append_prefix_n (pslog_json_level_field_literal level (c_verbose_fields cfg))
                 (json_comma (\<not> c_timestamps cfg) s1);
          s3 = (case msg of None \<Rightarrow> s2
                | Some m \<Rightarrow> if m \<noteq> [] then pslog_append_json_message_field_plain cfg m False s2 else s2)
      in own_fields_plain X cfg impl False s3)"

definition json_head_color ::
  "libc \<Rightarrow> shared_cfg \<Rightarrow> pslog_logger_impl \<Rightarrow> pslog_level \<Rightarrow> cstring option \<Rightarrow> int \<times> int \<Rightarrow> est \<Rightarrow> bool \<times> est" where
  "json_head_color X cfg impl level msg clock s =
     (let s1 = (if c_timestamps cfg then pslog_append_json_timestamp_field_color X cfg clock True s else s);
          s2 = pslog_append_json_level_field_color_cached_or_dynamic cfg level False
                 (json_comma (\<not> c_timestamps cfg) s1);
          s3 = (case msg of None \<Rightarrow> s2
                | Some m \<Rightarrow> if m \<noteq> [] then pslog_append_json_message_field_color cfg m False s2 else s2)
      in own_fields_color X cfg impl False s3)"

definition json_tail_plain :: "libc \<Rightarrow> shared_cfg \<Rightarrow> pslog_logger_impl \<Rightarrow> bool \<times> est \<Rightarrow> est" where
  "json_tail_plain X cfg impl p =
     (let (first_field, s) = p in
      if i_include_level_field impl
      then pslog_append_json_field_plain X cfg (level_field X impl) first_field s else s)"

definition json_tail_color :: "shared_cfg \<Rightarrow> pslog_logger_impl \<Rightarrow> bool \<times> est \<Rightarrow> est" where
  "json_tail_color cfg impl p =
     (let (first_field, s) = p in
      if i_include_level_field impl
      then pslog_append_json_level_field_color_cached_or_dynamic cfg (i_min_level impl) True (json_comma first_field s)
      else s)"

definition pslog_emit_json_plain ::
  "libc \<Rightarrow> shared_cfg \<Rightarrow> pslog_logger_impl \<Rightarrow> pslog_level \<Rightarrow> cstring option \<Rightarrow> pslog_field list \<Rightarrow> int \<times> int \<Rightarrow> est \<Rightarrow> est" where
  "pslog_emit_json_plain X cfg impl level msg flds clock s =
     json_line cfg (\<lambda>s. let (first_field, s1) = json_head_plain X cfg impl level msg clock s
       in json_tail_plain X cfg impl (pslog_append_json_field_set_plain X cfg flds first_field s1)) s"

definition pslog_emit_json_color ::
  "libc \<Rightarrow> shared_cfg \<Rightarrow> pslog_logger_impl \<Rightarrow> pslog_level \<Rightarrow> cstring option \<Rightarrow> pslog_field list \<Rightarrow> int \<times> int \<Rightarrow> est \<Rightarrow> est" where
  "pslog_emit_json_color X cfg impl level msg flds clock s =
     json_line cfg (\<lambda>s. let (first_field, s1) = json_head_color X cfg impl level msg clock s
       in json_tail_color cfg impl (pslog_append_json_field_set_color X cfg flds first_field s1)) s"

definition pslog_emit_json ::
  "libc \<Rightarrow> shared_cfg \<Rightarrow> pslog_logger_impl \<Rightarrow> pslog_level \<Rightarrow> cstring option \<Rightarrow> pslog_field list \<Rightarrow> int \<times> int \<Rightarrow> est \<Rightarrow> est" where
  "pslog_emit_json X cfg impl level msg flds clock s =
     (if c_color_enabled cfg then pslog_emit_json_color X cfg impl level msg flds clock s
      else pslog_emit_json_plain X cfg impl level msg flds clock s)"

section \<open>Lines of format strings\<close>

definition json_kvfmt_double_plain :: "libc \<Rightarrow> shared_cfg \<Rightarrow> 64 word \<Rightarrow> est \<Rightarrow> est" where
  "json_kvfmt_double_plain X cfg v s =
     (if pslog_double_is_nan v then
        (if c_non_finite_float_policy cfg = NON_FINITE_FLOAT_AS_NULL then append_literal ''null'' s
         else pslog_buffer_append_json_string_maybe_trusted (Some ''NaN'') s)
      else if pslog_double_is_inf v then
        (if c_non_finite_float_policy cfg = NON_FINITE_FLOAT_AS_NULL then append_literal ''null'' s
         else pslog_buffer_append_json_string_maybe_trusted (Some (inf_text v)) s)
      else pslog_buffer_append_double X v s)"

definition json_kvfmt_value_plain ::
  "libc \<Rightarrow> shared_cfg \<Rightarrow> kvfmt_arg_type \<Rightarrow> 32 word \<Rightarrow> kvfmt_arg list \<Rightarrow> est \<Rightarrow> est" where
  "json_kvfmt_value_plain X cfg ty saved_errno ap s =
     (case ty of
        ARG_STRING \<Rightarrow> pslog_buffer_append_json_string_maybe_trusted (Some (or_empty (va_string ap))) s
      | ARG_SIGNED_INT \<Rightarrow> pslog_buffer_append_signed (scast (va_int ap)) s
      | ARG_SIGNED_LONG \<Rightarrow> pslog_buffer_append_signed (va_long ap) s
      | ARG_UNSIGNED_INT \<Rightarrow> pslog_buffer_append_unsigned (ucast (va_uint ap)) s
      | ARG_UNSIGNED_LONG \<Rightarrow> pslog_buffer_append_unsigned (va_ulong ap) s
      | ARG_DOUBLE \<Rightarrow> json_kvfmt_double_plain X cfg (va_double ap) s
      | ARG_POINTER \<Rightarrow> append_char_fast dquote (pslog_buffer_append_pointer X (va_pointer ap) (append_char_fast dquote s))
      | ARG_BOOL \<Rightarrow> if va_int ap \<noteq> 0 then append_literal ''true'' s else append_literal ''false'' s
      | ARG_ERRNO \<Rightarrow>
          pslog_buffer_append_json_string_maybe_trusted (Some (pslog_errno_string X (sint saved_errno) 128)) s)"

fun pslog_append_json_kvfmt_fields_plain ::
  "libc \<Rightarrow> shared_cfg \<Rightarrow> kvfmt_field_spec list \<Rightarrow> bool \<Rightarrow> 32 word \<Rightarrow> kvfmt_arg list \<Rightarrow> est \<Rightarrow> bool \<times> est" where
  "pslog_append_json_kvfmt_fields_plain X cfg [] first_field saved_errno ap s = (first_field, s)"
| "pslog_append_json_kvfmt_fields_plain X cfg (spec # specs) first_field saved_errno ap s =
     (let s1 = json_comma first_field s;
          s2 = (if length (ks_json_color_prefix spec) > 0 then append_n_fast (ks_json_color_prefix spec) s1
                else append_char_fast CHR '':'' (append_json_trusted_string_n_fast (spec_key spec) s1));
          s3 = json_kvfmt_value_plain X cfg (ks_arg_type spec) saved_errno ap s2
      in pslog_append_json_kvfmt_fields_plain X cfg specs False saved_errno (va_next (ks_arg_type spec) ap) s3)"

definition pslog_append_json_kvfmt_color_prefix :: "shared_cfg \<Rightarrow> kvfmt_field_spec \<Rightarrow> est \<Rightarrow> est" where
  "pslog_append_json_kvfmt_color_prefix cfg spec s =
     (if length (ks_json_color_prefix spec) > 0 then append_n_fast (ks_json_color_prefix spec) s
      else append_char_fast CHR '':'' (append_json_trusted_string_n_fast (spec_key spec)
             (append_n_fast (p_key (c_palette cfg)) s)))"

definition json_kvfmt_double_color :: "libc \<Rightarrow> shared_cfg \<Rightarrow> 64 word \<Rightarrow> est \<Rightarrow> est" where
  "json_kvfmt_double_color X cfg v s =
     (let palette = c_palette cfg;
          s1 = (if pslog_double_is_nan v then
                  (if c_non_finite_float_policy cfg = NON_FINITE_FLOAT_AS_NULL
                   then append_literal ''null'' (append_n_fast (p_null_value palette) s)
                   else pslog_buffer_append_json_string_maybe_trusted (Some ''NaN'') (append_n_fast (p_string palette) s))
                else if pslog_double_is_inf v then
                  (if c_non_finite_float_policy cfg = NON_FINITE_FLOAT_AS_NULL
                   then append_literal ''null'' (append_n_fast (p_null_value palette) s)
                   else pslog_buffer_append_json_string_maybe_trusted (Some (inf_text v)) (append_n_fast (p_string palette) s))
                else pslog_buffer_append_double X v (append_n_fast (p_number palette) s))
      in append_n_fast (p_reset palette) s1)"

definition json_kvfmt_value_color ::
  "libc \<Rightarrow> shared_cfg \<Rightarrow> kvfmt_arg_type \<Rightarrow> 32 word \<Rightarrow> kvfmt_arg list \<Rightarrow> est \<Rightarrow> est" where
  "json_kvfmt_value_color X cfg ty saved_errno ap s =
     (let palette = c_palette cfg;
          reset = append_n_fast (p_reset palette);
          number = append_n_fast (p_number palette)
      in case ty of
        ARG_STRING \<Rightarrow>
          reset (pslog_buffer_append_json_string_maybe_trusted (Some (or_empty (va_string ap)))
            (append_n_fast (p_string palette) s))
      | ARG_SIGNED_INT \<Rightarrow> reset (pslog_buffer_append_signed (scast (va_int ap)) (number s))
      | ARG_SIGNED_LONG \<Rightarrow> reset (pslog_buffer_append_signed (va_long ap) (number s))
      | ARG_UNSIGNED_INT \<Rightarrow> reset (pslog_buffer_append_unsigned (ucast (va_uint ap)) (number s))
      | ARG_UNSIGNED_LONG \<Rightarrow> reset (pslog_buffer_append_unsigned (va_ulong ap) (number s))
      | ARG_DOUBLE \<Rightarrow> json_kvfmt_double_color X cfg (va_double ap) s
      | ARG_POINTER \<Rightarrow>
          reset (append_char_fast dquote (pslog_buffer_append_pointer X (va_pointer ap)
            (append_char_fast dquote (append_n_fast (p_string palette) s))))
      | ARG_BOOL \<Rightarrow>
          (let s1 = append_n_fast (p_boolean palette) s
           in reset (if va_int ap \<noteq> 0 then append_literal ''true'' s1 else append_literal ''false'' s1))
      | ARG_ERRNO \<Rightarrow>
          reset (pslog_buffer_append_json_string_maybe_trusted (Some (pslog_errno_string X (sint saved_errno) 128))
            (append_n_fast (p_error palette) s)))"

fun pslog_append_json_kvfmt_fields_color ::
  "libc \<Rightarrow> shared_cfg \<Rightarrow> kvfmt_field_spec list \<Rightarrow> bool \<Rightarrow> 32 word \<Rightarrow> kvfmt_arg list \<Rightarrow> est \<Rightarrow> bool \<times> est" where
  "pslog_append_json_kvfmt_fields_color X cfg [] first_field saved_errno ap s = (first_field, s)"
| "pslog_append_json_kvfmt_fields_color X cfg (spec # specs) first_field saved_errno ap s =
     (let s1 = pslog_append_json_kvfmt_color_prefix cfg spec (json_comma first_field s);
          s2 = json_kvfmt_value_color X cfg (ks_arg_type spec) saved_errno ap s1
      in pslog_append_json_kvfmt_fields_color X cfg specs False saved_errno (va_next (ks_arg_type spec) ap) s2)"

text \<open>A NULL entry has no fields.\<close>

definition entry_specs :: "kvfmt_cache_entry option \<Rightarrow> kvfmt_field_spec list" where
  "entry_specs entry = (case entry of None \<Rightarrow> [] | Some e \<Rightarrow> ke_fields e)"

definition pslog_emit_json_kvfmt ::
  "libc \<Rightarrow> shared_cfg \<Rightarrow> pslog_logger_impl \<Rightarrow> pslog_level \<Rightarrow> cstring option \<Rightarrow> kvfmt_cache_entry option \<Rightarrow>
     32 word \<Rightarrow> kvfmt_arg list \<Rightarrow> int \<times> int \<Rightarrow> est \<Rightarrow> est" where
  "pslog_emit_json_kvfmt X cfg impl level msg entry saved_errno ap clock s =
     json_line cfg (\<lambda>s.
       if c_color_enabled cfg
       then (let (first_field, s1) = json_head_color X cfg impl level msg clock s
             in json_tail_color cfg impl
                  (pslog_append_json_kvfmt_fields_color X cfg (entry_specs entry) first_field saved_errno ap s1))
       else (let (first_field, s1) = json_head_plain X cfg impl level msg clock s
             in json_tail_plain X cfg impl
                  (pslog_append_json_kvfmt_fields_plain X cfg (entry_specs entry) first_field saved_errno ap s1))) s"

section \<open>The text of a line\<close>

text \<open>
  One text for both variants: the palette is a parameter, and the plain emitters write the text of
  the empty palette.
\<close>

definition no_palette :: pslog_palette where
  "no_palette = \<lparr>p_key = [], p_string = [], p_number = [], p_boolean = [], p_null_value = [], p_trace = [], p_debug = [],
     p_info = [], p_warn = [], p_error = [], p_fatal = [], p_panic = [], p_timestamp = [], p_message = [],
     p_message_key = [], p_reset = []\<rparr>"

lemma no_palette_sel [simp]:
  "p_key no_palette = []" "p_string no_palette = []" "p_number no_palette = []" "p_boolean no_palette = []"
  "p_null_value no_palette = []" "p_timestamp no_palette = []" "p_message no_palette = []"
  "p_message_key no_palette = []" "p_reset no_palette = []" "p_error no_palette = []"
  "pslog_level_color no_palette level = []"
  by (simp_all add: no_palette_def) (cases level; simp)

definition quote :: "string \<Rightarrow> string" where
  "quote t = dquote # t @ [dquote]"

definition json_double_bytes :: "libc \<Rightarrow> shared_cfg \<Rightarrow> 64 word \<Rightarrow> string" where
  "json_double_bytes X cfg v =
     (if pslog_double_is_nan v \<or> pslog_double_is_inf v
      then (if c_non_finite_float_policy cfg = NON_FINITE_FLOAT_AS_NULL then ''null''
            else quote (if pslog_double_is_nan v then ''NaN'' else inf_text v))
      else double_text X v)"

definition json_value_bytes :: "libc \<Rightarrow> shared_cfg \<Rightarrow> pslog_field \<Rightarrow> string" where
  "json_value_bytes X cfg f =
     (case f_value f of
        V_null \<Rightarrow> ''null''
      | V_string sv \<Rightarrow>
          (let t = or_empty (map_option (take (f_value_len f)) sv)
           in if f_trusted_value f then quote t else json_string_bytes t)
      | V_signed v \<Rightarrow> int_digits (sint v)
      | V_unsigned v \<Rightarrow> nat_digits (unat v)
      | V_double v \<Rightarrow> json_double_bytes X cfg v
      | V_bool b \<Rightarrow> if b then ''true'' else ''false''
      | V_pointer p \<Rightarrow> quote (lc_fmt_pointer X p)
      | V_bytes data \<Rightarrow> quote (hex_bytes data)
      | V_time t \<Rightarrow> quote (time_text X t)
      | V_duration d \<Rightarrow> quote (duration_text X d)
      | V_errno e \<Rightarrow> maybe_trusted_bytes (pslog_errno_string X (int_of_errno e) 128))"

definition json_double_color :: "shared_cfg \<Rightarrow> pslog_palette \<Rightarrow> 64 word \<Rightarrow> string" where
  "json_double_color cfg p v =
     (if pslog_double_is_nan v \<or> pslog_double_is_inf v
      then (if c_non_finite_float_policy cfg = NON_FINITE_FLOAT_AS_NULL then p_null_value p else p_string p)
      else p_number p)"

definition json_value_color :: "shared_cfg \<Rightarrow> pslog_palette \<Rightarrow> pslog_value \<Rightarrow> string" where
  "json_value_color cfg p v =
     (case v of
        V_null \<Rightarrow> p_null_value p | V_string _ \<Rightarrow> p_string p | V_signed _ \<Rightarrow> p_number p | V_unsigned _ \<Rightarrow> p_number p
      | V_double d \<Rightarrow> json_double_color cfg p d
      | V_bool _ \<Rightarrow> p_boolean p | V_pointer _ \<Rightarrow> p_string p | V_bytes _ \<Rightarrow> p_string p | V_time _ \<Rightarrow> p_timestamp p
      | V_duration _ \<Rightarrow> p_string p | V_errno _ \<Rightarrow> p_error p)"

definition json_value_text :: "libc \<Rightarrow> shared_cfg \<Rightarrow> pslog_palette \<Rightarrow> pslog_field \<Rightarrow> string" where
  "json_value_text X cfg p f = json_value_color cfg p (f_value f) @ json_value_bytes X cfg f @ p_reset p"

definition json_key_bytes :: "pslog_field \<Rightarrow> string" where
  "json_key_bytes f = (if f_trusted_key f then quote (field_key f) else json_string_bytes (or_empty (key_string f)))"

definition json_member :: "libc \<Rightarrow> shared_cfg \<Rightarrow> pslog_palette \<Rightarrow> pslog_field \<Rightarrow> string" where
  "json_member X cfg p f = p_key p @ json_key_bytes f @ '':'' @ json_value_text X cfg p f"

definition comma :: "bool \<Rightarrow> string" where
  "comma first_field = (if first_field then [] else '','')"

fun json_members :: "libc \<Rightarrow> shared_cfg \<Rightarrow> pslog_palette \<Rightarrow> pslog_field list \<Rightarrow> bool \<Rightarrow> string" where
  "json_members X cfg p [] first_field = []"
| "json_members X cfg p (f # fs) first_field =
     (if has_key f then comma first_field @ json_member X cfg p f @ json_members X cfg p fs False
      else json_members X cfg p fs first_field)"

definition std_levels :: "pslog_level list" where
  "std_levels = [LEVEL_TRACE, LEVEL_DEBUG, LEVEL_INFO, LEVEL_WARN, LEVEL_ERROR, LEVEL_FATAL, LEVEL_PANIC, LEVEL_NOLEVEL]"

text \<open>Levels that are no enumerator of a message share the slot of \<open>info\<close>.\<close>

definition slot_level :: "pslog_level \<Rightarrow> pslog_level" where
  "slot_level level = std_levels ! pslog_json_level_slot level"

definition level_member :: "pslog_palette \<Rightarrow> string \<Rightarrow> pslog_level \<Rightarrow> string" where
  "level_member p key level =
     p_key p @ quote key @ '':'' @ pslog_level_color p level @ quote (pslog_level_string level) @ p_reset p"

definition level_key :: "shared_cfg \<Rightarrow> string" where
  "level_key cfg = (if c_verbose_fields cfg then ''level'' else ''lvl'')"

definition message_key :: "shared_cfg \<Rightarrow> string" where
  "message_key cfg = (if c_verbose_fields cfg then ''message'' else ''msg'')"

definition message_head :: "shared_cfg \<Rightarrow> pslog_palette \<Rightarrow> string" where
  "message_head cfg p = p_message_key p @ quote (message_key cfg) @ '':'' @ p_message p"

definition timestamp_head :: "shared_cfg \<Rightarrow> pslog_palette \<Rightarrow> string" where
  "timestamp_head cfg p = p_key p @ quote (time_key_name cfg) @ '':'' @ p_reset p @ p_timestamp p @ [dquote]"

definition message_text :: "shared_cfg \<Rightarrow> pslog_palette \<Rightarrow> cstring option \<Rightarrow> string" where
  "message_text cfg p msg =
     (case msg of None \<Rightarrow> []
      | Some m \<Rightarrow> if m = [] then [] else '','' @ message_head cfg p @ maybe_trusted_bytes m @ p_reset p)"

definition json_head_text ::
  "libc \<Rightarrow> shared_cfg \<Rightarrow> pslog_palette \<Rightarrow> pslog_level \<Rightarrow> cstring option \<Rightarrow> int \<times> int \<Rightarrow> string" where
  "json_head_text X cfg p level msg clock =
     (if c_timestamps cfg then timestamp_head cfg p @ timestamp_text X cfg clock @ [dquote] @ p_reset p @ '','' else []) @
     level_member p (level_key cfg) level @ message_text cfg p msg"

definition level_field_text :: "pslog_palette \<Rightarrow> pslog_logger_impl \<Rightarrow> string" where
  "level_field_text p impl =
     (if i_include_level_field impl then '','' @ level_member p ''loglevel'' (i_min_level impl) else [])"

definition json_object_text ::
  "libc \<Rightarrow> shared_cfg \<Rightarrow> pslog_palette \<Rightarrow> pslog_logger_impl \<Rightarrow> pslog_level \<Rightarrow> cstring option \<Rightarrow> string \<Rightarrow>
     int \<times> int \<Rightarrow> string" where
  "json_object_text X cfg p impl level msg members clock =
     ''{'' @ json_head_text X cfg p level msg clock @ json_members X cfg p (i_fields impl) False @
     members @ level_field_text p impl @ ''}'' @ [CHR 0x0A]"

definition json_line_text ::
  "libc \<Rightarrow> shared_cfg \<Rightarrow> pslog_palette \<Rightarrow> pslog_logger_impl \<Rightarrow> pslog_level \<Rightarrow> cstring option \<Rightarrow> pslog_field list \<Rightarrow>
     int \<times> int \<Rightarrow> string" where
  "json_line_text X cfg p impl level msg flds clock =
     json_object_text X cfg p impl level msg (json_members X cfg p flds False) clock"

text \<open>
  The fields of a format string as the emitter writes them: strings are copied when they are safe,
  where \<open>pslog_materialize_kvfmt_fields\<close> looks at ASCII only.
\<close>

definition direct_field :: "32 word \<Rightarrow> kvfmt_field_spec \<Rightarrow> kvfmt_arg list \<Rightarrow> pslog_field" where
  "direct_field saved_errno spec ap =
     (let f = materialize_spec MODE_JSON saved_errno spec ap
      in f\<lparr>f_trusted_value := (case f_value f of V_string sv \<Rightarrow> safe_text (or_empty sv) | _ \<Rightarrow> False)\<rparr>)"

fun json_kvfmt_members ::
  "libc \<Rightarrow> shared_cfg \<Rightarrow> pslog_palette \<Rightarrow> 32 word \<Rightarrow> kvfmt_field_spec list \<Rightarrow> kvfmt_arg list \<Rightarrow> string" where
  "json_kvfmt_members X cfg p saved_errno [] ap = []"
| "json_kvfmt_members X cfg p saved_errno (spec # specs) ap =
     '','' @ json_member X cfg p (direct_field saved_errno spec ap) @
     json_kvfmt_members X cfg p saved_errno specs (va_next (ks_arg_type spec) ap)"

text \<open>The literals that \<open>pslog_new\<close> prepares are the texts above, or were too long and are empty.\<close>

definition literals_ok :: "shared_cfg \<Rightarrow> bool" where
  "literals_ok cfg =
     (let p = c_palette cfg in
      (\<forall>i < 8. c_json_color_level_fields cfg i \<in> {[], level_member p (level_key cfg) (std_levels ! i)}) \<and>
      (\<forall>i < 8. c_json_color_min_level_fields cfg i \<in> {[], level_member p ''loglevel'' (std_levels ! i)}) \<and>
      c_json_color_message_prefix cfg \<in> {[], message_head cfg p} \<and>
      c_json_color_timestamp_prefix cfg \<in> {[], timestamp_head cfg p} \<and>
      c_json_color_timestamp_suffix cfg \<in> {[], dquote # p_reset p})"

text \<open>A derived logger's prepared prefix is the text of its fields.\<close>

definition prefix_ok :: "libc \<Rightarrow> shared_cfg \<Rightarrow> pslog_palette \<Rightarrow> pslog_logger_impl \<Rightarrow> bool" where
  "prefix_ok X cfg p impl = (i_field_prefix impl \<in> {[], json_members X cfg p (i_fields impl) False})"

section \<open>The emitters write that text\<close>

lemma or_empty_simps [simp]: "or_empty (Some t) = t" "or_empty None = []"
  by (simp_all add: or_empty_def)

lemma trusted_names [simp]: "maybe_trusted_bytes ''NaN'' = quote ''NaN''" "maybe_trusted_bytes (inf_text v) = quote (inf_text v)"
  "json_string_bytes ''NaN'' = quote ''NaN''" "json_string_bytes (inf_text v) = quote (inf_text v)"
proof -
  have "safe_text ''NaN''" "safe_text (inf_text v)"
    by (auto intro!: ascii_safe simp: inf_text_def unsafe_byte_def)
  then show "maybe_trusted_bytes ''NaN'' = quote ''NaN''" "maybe_trusted_bytes (inf_text v) = quote (inf_text v)"
    by (simp_all add: maybe_trusted_bytes_def quote_def)
  show "json_string_bytes ''NaN'' = quote ''NaN''" "json_string_bytes (inf_text v) = quote (inf_text v)"
    by (simp_all add: json_string_bytes_def quote_def inf_text_def json_body.simps json_escape_ascii_def)
qed

lemma view_string_value [simp]:
  assumes "good X cfg s"
  shows "view X cfg (json_string_value f sv s) =
      map_option (appends (let t = or_empty (map_option (take (f_value_len f)) sv)
        in if f_trusted_value f then quote t else json_string_bytes t)) (view X cfg s)"
    and "good X cfg (json_string_value f sv s)"
  using assms by (simp_all add: json_string_value_def quote_def Let_def)

lemma view_value_plain [simp]:
  assumes "good X cfg s"
  shows "view X cfg (pslog_append_json_value_plain X cfg' f s) = map_option (appends (json_value_bytes X cfg' f)) (view X cfg s)"
    and "good X cfg (pslog_append_json_value_plain X cfg' f s)"
  using assms
  by (cases "f_value f"; simp add: pslog_append_json_value_plain_def json_value_bytes_def json_double_bytes_def quote_def quoted_def)+

lemma view_value_color [simp]:
  assumes "good X cfg s"
  shows "view X cfg (pslog_append_json_value_color X cfg' f s) =
      map_option (appends (json_value_text X cfg' (c_palette cfg') f)) (view X cfg s)"
    and "good X cfg (pslog_append_json_value_color X cfg' f s)"
  using assms
  by (cases "f_value f"; simp add: pslog_append_json_value_color_def json_value_text_def json_value_color_def
      json_value_bytes_def json_double_bytes_def json_double_color_def quote_def quoted_def Let_def)+

lemma view_comma [simp]:
  assumes "good X cfg s"
  shows "view X cfg (json_comma first s) = map_option (appends (comma first)) (view X cfg s)" "good X cfg (json_comma first s)"
  using assms by (simp_all add: json_comma_def comma_def)

lemma view_key [simp]:
  assumes "good X cfg s"
  shows "view X cfg (json_key f s) = map_option (appends (json_key_bytes f)) (view X cfg s)" "good X cfg (json_key f s)"
  using assms by (simp_all add: json_key_def json_key_bytes_def quote_def)

definition field_text :: "libc \<Rightarrow> shared_cfg \<Rightarrow> pslog_palette \<Rightarrow> pslog_field \<Rightarrow> bool \<Rightarrow> string" where
  "field_text X cfg p f first_field = (if has_key f then comma first_field @ json_member X cfg p f else [])"

lemma json_value_text_plain: "json_value_text X cfg no_palette f = json_value_bytes X cfg f"
  by (cases "f_value f") (simp_all add: json_value_text_def json_value_color_def json_double_color_def)

lemma view_field_plain [simp]:
  assumes "good X cfg s"
  shows "view X cfg (pslog_append_json_field_plain X cfg' f first s) =
      map_option (appends (field_text X cfg' no_palette f first)) (view X cfg s)"
    and "good X cfg (pslog_append_json_field_plain X cfg' f first s)"
  using assms by (simp_all add: pslog_append_json_field_plain_def field_text_def json_member_def json_value_text_plain)

lemma view_field_color [simp]:
  assumes "good X cfg s"
  shows "view X cfg (pslog_append_json_field_color X cfg' f first s) =
      map_option (appends (field_text X cfg' (c_palette cfg') f first)) (view X cfg s)"
    and "good X cfg (pslog_append_json_field_color X cfg' f first s)"
  using assms by (simp_all add: pslog_append_json_field_color_def field_text_def json_member_def)

definition after_fields :: "pslog_field list \<Rightarrow> bool \<Rightarrow> bool" where
  "after_fields fs first_field = (first_field \<and> \<not> list_ex has_key fs)"

lemma view_set_plain [simp]:
  assumes "good X cfg s"
  shows "view X cfg (snd (pslog_append_json_field_set_plain X cfg' fs first s)) =
      map_option (appends (json_members X cfg' no_palette fs first)) (view X cfg s)"
    and "good X cfg (snd (pslog_append_json_field_set_plain X cfg' fs first s))"
  using assms
  by (induction fs arbitrary: s first) (auto simp: field_text_def after_fields_def)

lemma view_set_color [simp]:
  assumes "good X cfg s"
  shows "view X cfg (snd (pslog_append_json_field_set_color X cfg' fs first s)) =
      map_option (appends (json_members X cfg' (c_palette cfg') fs first)) (view X cfg s)"
    and "good X cfg (snd (pslog_append_json_field_set_color X cfg' fs first s))"
  using assms
  by (induction fs arbitrary: s first) (auto simp: field_text_def after_fields_def)

text \<open>The palette a configuration writes with.\<close>

definition used_palette :: "shared_cfg \<Rightarrow> pslog_palette" where
  "used_palette cfg = (if c_color_enabled cfg then c_palette cfg else no_palette)"

lemma view_field_prefix [simp]:
  assumes "good X cfg s"
  shows "view X cfg (pslog_append_json_field_prefix X cfg' fs s) =
      map_option (appends (json_members X cfg' (used_palette cfg') fs False)) (view X cfg s)"
    and "good X cfg (pslog_append_json_field_prefix X cfg' fs s)"
  using assms
  by (induction fs arbitrary: s) (auto simp: field_text_def used_palette_def)

lemma std_level_names:
  "pslog_json_level_field_literal level False =
     (json_pair ''lvl'' (pslog_level_string (slot_level level)), length (json_pair ''lvl'' (pslog_level_string (slot_level level))))"
  "pslog_json_level_field_literal level True =
     (json_pair ''level'' (pslog_level_string (slot_level level)), length (json_pair ''level'' (pslog_level_string (slot_level level))))"
  by (cases level; simp add: pslog_json_level_field_literal_def slot_level_def std_levels_def json_pair_def Let_def)+

lemma level_literal_text:
  "take (snd (pslog_json_level_field_literal level v)) (fst (pslog_json_level_field_literal level v)) =
     level_member no_palette (if v then ''level'' else ''lvl'') (slot_level level)"
  by (cases v) (simp_all add: std_level_names level_member_def json_pair_def quote_def)

lemma message_prefix_text:
  "take (snd (pslog_json_message_prefix v)) (fst (pslog_json_message_prefix v)) =
     quote (if v then ''message'' else ''msg'') @ '':''"
  by (simp add: pslog_json_message_prefix_def quote_def)

lemma view_prefix_n [simp]:
  assumes "good X cfg s"
  shows "view X cfg (append_prefix_n q s) = map_option (appends (take (snd q) (fst q))) (view X cfg s)" "good X cfg (append_prefix_n q s)"
  using assms by (simp_all add: append_prefix_n_def)

lemma view_color_literal [simp]:
  assumes "good X cfg s"
  shows "view X cfg (pslog_append_json_color_literal c t u s) = map_option (appends (c @ t @ u)) (view X cfg s)"
    "good X cfg (pslog_append_json_color_literal c t u s)"
  using assms by (auto simp: pslog_append_json_color_literal_def Let_def)

lemma view_message_plain [simp]:
  assumes "good X cfg s"
  shows "view X cfg (pslog_append_json_message_field_plain cfg' m first s) =
      map_option (appends (comma first @ message_head cfg' no_palette @ maybe_trusted_bytes m)) (view X cfg s)"
    and "good X cfg (pslog_append_json_message_field_plain cfg' m first s)"
  using assms by (simp_all add: pslog_append_json_message_field_plain_def message_prefix_text message_head_def message_key_def)

lemma view_message_color [simp]:
  assumes "good X cfg s" "literals_ok cfg'"
  shows "view X cfg (pslog_append_json_message_field_color cfg' m first s) =
      map_option (appends (comma first @ message_head cfg' (c_palette cfg') @ maybe_trusted_bytes m @ p_reset (c_palette cfg'))) (view X cfg s)"
    and "good X cfg (pslog_append_json_message_field_color cfg' m first s)"
proof -
  have "c_json_color_message_prefix cfg' \<in> {[], message_head cfg' (c_palette cfg')}"
    using assms(2) by (simp add: literals_ok_def Let_def)
  then show "view X cfg (pslog_append_json_message_field_color cfg' m first s) =
      map_option (appends (comma first @ message_head cfg' (c_palette cfg') @ maybe_trusted_bytes m @ p_reset (c_palette cfg'))) (view X cfg s)"
    and "good X cfg (pslog_append_json_message_field_color cfg' m first s)"
    using assms(1) message_prefix_text [of "c_verbose_fields cfg'"]
    by (auto simp: pslog_append_json_message_field_color_def message_head_def message_key_def Let_def case_prod_beta)
qed

lemma view_timestamp_plain [simp]:
  assumes "good X cfg s" "zone_ok X" "clock_ok clock"
  shows "view X cfg (json_timestamp_plain X cfg clock first s) =
      map_option (appends (comma first @ timestamp_head cfg no_palette @ timestamp_text X cfg clock @ [dquote])) (view X cfg s)"
    and "good X cfg (json_timestamp_plain X cfg clock first s)"
  using assms by (simp_all add: json_timestamp_plain_def timestamp_head_def quote_def)

lemma view_timestamp_color [simp]:
  assumes "good X cfg s" "literals_ok cfg" "zone_ok X" "clock_ok clock"
  shows "view X cfg (pslog_append_json_timestamp_field_color X cfg clock first s) =
      map_option (appends (comma first @ timestamp_head cfg (c_palette cfg) @ timestamp_text X cfg clock @
        [dquote] @ p_reset (c_palette cfg))) (view X cfg s)"
    and "good X cfg (pslog_append_json_timestamp_field_color X cfg clock first s)"
proof -
  have "c_json_color_timestamp_prefix cfg \<in> {[], timestamp_head cfg (c_palette cfg)}"
    "c_json_color_timestamp_suffix cfg \<in> {[], dquote # p_reset (c_palette cfg)}"
    using assms(2) by (simp_all add: literals_ok_def Let_def)
  then show "view X cfg (pslog_append_json_timestamp_field_color X cfg clock first s) =
      map_option (appends (comma first @ timestamp_head cfg (c_palette cfg) @ timestamp_text X cfg clock @
        [dquote] @ p_reset (c_palette cfg))) (view X cfg s)"
    and "good X cfg (pslog_append_json_timestamp_field_color X cfg clock first s)"
    using assms by (auto simp: pslog_append_json_timestamp_field_color_def timestamp_head_def quote_def Let_def)
qed

definition std_level :: "pslog_level \<Rightarrow> bool" where
  "std_level level = (slot_level level = level)"

lemma json_slot_less: "pslog_json_level_slot level < 8"
  by (cases level) simp_all

lemma view_level_color [simp]:
  assumes "good X cfg s" "literals_ok cfg'" "std_level level"
  shows "view X cfg (pslog_append_json_level_field_color_cached_or_dynamic cfg' level b s) =
      map_option (appends (level_member (c_palette cfg') (if b then ''loglevel'' else level_key cfg') level)) (view X cfg s)"
    and "good X cfg (pslog_append_json_level_field_color_cached_or_dynamic cfg' level b s)"
proof -
  let ?i = "pslog_json_level_slot level" and ?p = "c_palette cfg'"
  have "c_json_color_level_fields cfg' ?i \<in> {[], level_member ?p (level_key cfg') level}"
    "c_json_color_min_level_fields cfg' ?i \<in> {[], level_member ?p ''loglevel'' level}"
    using assms(2,3) json_slot_less [of level] by (auto simp: literals_ok_def std_level_def slot_level_def Let_def)
  then show "view X cfg (pslog_append_json_level_field_color_cached_or_dynamic cfg' level b s) =
      map_option (appends (level_member ?p (if b then ''loglevel'' else level_key cfg') level)) (view X cfg s)"
    and "good X cfg (pslog_append_json_level_field_color_cached_or_dynamic cfg' level b s)"
    using assms(1)
    by (auto simp: pslog_append_json_level_field_color_cached_or_dynamic_def level_member_def level_key_def quote_def
        level_color_len level_string_len Let_def)
qed

lemma after_fields_False [simp]: "after_fields fs False = False"
  by (simp add: after_fields_def)

lemma fst_set [simp]:
  "fst (pslog_append_json_field_set_plain X cfg fs first s) = after_fields fs first"
  "fst (pslog_append_json_field_set_color X cfg fs first s) = after_fields fs first"
  by (induction fs arbitrary: first s) (auto simp: after_fields_def)

lemma fst_own [simp]:
  "fst (own_fields_plain X cfg impl False s) = False" "fst (own_fields_color X cfg impl False s) = False"
  by (simp_all add: own_fields_plain_def own_fields_color_def)

lemma fst_head [simp]:
  "fst (json_head_plain X cfg impl level msg clock s) = False" "fst (json_head_color X cfg impl level msg clock s) = False"
  by (simp_all add: json_head_plain_def json_head_color_def Let_def)

lemma view_own_plain [simp]:
  assumes "good X cfg s" "prefix_ok X cfg' no_palette impl"
  shows "view X cfg (snd (own_fields_plain X cfg' impl False s)) =
      map_option (appends (json_members X cfg' no_palette (i_fields impl) False)) (view X cfg s)"
    and "good X cfg (snd (own_fields_plain X cfg' impl False s))"
  using assms by (auto simp: own_fields_plain_def prefix_ok_def)

lemma view_own_color [simp]:
  assumes "good X cfg s" "prefix_ok X cfg' (c_palette cfg') impl"
  shows "view X cfg (snd (own_fields_color X cfg' impl False s)) =
      map_option (appends (json_members X cfg' (c_palette cfg') (i_fields impl) False)) (view X cfg s)"
    and "good X cfg (snd (own_fields_color X cfg' impl False s))"
  using assms by (auto simp: own_fields_color_def prefix_ok_def)

lemma view_head_plain [simp]:
  assumes "good X cfg s" "zone_ok X" "clock_ok clock" "prefix_ok X cfg no_palette impl"
  shows "view X cfg (snd (json_head_plain X cfg impl level msg clock s)) =
      map_option (appends (json_head_text X cfg no_palette (slot_level level) msg clock @
        json_members X cfg no_palette (i_fields impl) False)) (view X cfg s)"
    and "good X cfg (snd (json_head_plain X cfg impl level msg clock s))"
  using assms
  by (auto simp: json_head_plain_def json_head_text_def message_text_def level_literal_text level_key_def comma_def Let_def
      split: option.split)

lemma view_head_color [simp]:
  assumes "good X cfg s" "zone_ok X" "clock_ok clock" "prefix_ok X cfg (c_palette cfg) impl" "literals_ok cfg" "std_level level"
  shows "view X cfg (snd (json_head_color X cfg impl level msg clock s)) =
      map_option (appends (json_head_text X cfg (c_palette cfg) level msg clock @
        json_members X cfg (c_palette cfg) (i_fields impl) False)) (view X cfg s)"
    and "good X cfg (snd (json_head_color X cfg impl level msg clock s))"
  using assms
  by (auto simp: json_head_color_def json_head_text_def message_text_def comma_def Let_def split: option.split)

lemma level_field_member: "field_text X cfg no_palette (level_field X impl) False = '','' @ level_member no_palette ''loglevel'' (i_min_level impl)"
  by (simp add: field_text_def level_field_def has_key_def json_member_def json_key_bytes_def field_key_def comma_def
      json_value_text_plain json_value_bytes_def level_member_def level_string_len)

lemma view_tail_plain [simp]:
  assumes "good X cfg (snd q)" "\<not> fst q"
  shows "view X cfg (json_tail_plain X cfg' impl q) = map_option (appends (level_field_text no_palette impl)) (view X cfg (snd q))"
    and "good X cfg (json_tail_plain X cfg' impl q)"
  using assms by (auto simp: json_tail_plain_def level_field_text_def level_field_member case_prod_beta)

lemma view_tail_color [simp]:
  assumes "good X cfg (snd q)" "\<not> fst q" "literals_ok cfg'" "i_include_level_field impl \<longrightarrow> std_level (i_min_level impl)"
  shows "view X cfg (json_tail_color cfg' impl q) =
      map_option (appends (level_field_text (c_palette cfg') impl)) (view X cfg (snd q))"
    and "good X cfg (json_tail_color cfg' impl q)"
  using assms by (auto simp: json_tail_color_def level_field_text_def case_prod_beta comma_def)

text \<open>Arguments of format strings.\<close>

lemma ucast_scast_32: "ucast (scast (e :: 32 word) :: 64 word) = e"
  by (rule bit_word_eqI) (auto simp: bit_ucast_iff bit_signed_iff)

lemma kvfmt_value_json [simp]:
  "json_value_color cfg p (f_value (direct_field e spec ap)) =
     (case ks_arg_type spec of ARG_STRING \<Rightarrow> p_string p | ARG_DOUBLE \<Rightarrow> json_double_color cfg p (va_double ap)
      | ARG_POINTER \<Rightarrow> p_string p | ARG_BOOL \<Rightarrow> p_boolean p | ARG_ERRNO \<Rightarrow> p_error p | _ \<Rightarrow> p_number p)"
  "json_value_bytes X cfg (direct_field e spec ap) =
     (case ks_arg_type spec of ARG_STRING \<Rightarrow> maybe_trusted_bytes (or_empty (va_string ap))
      | ARG_SIGNED_INT \<Rightarrow> int_digits (sint (scast (va_int ap) :: 64 word))
      | ARG_SIGNED_LONG \<Rightarrow> int_digits (sint (va_long ap))
      | ARG_UNSIGNED_INT \<Rightarrow> nat_digits (unat (ucast (va_uint ap) :: 64 word))
      | ARG_UNSIGNED_LONG \<Rightarrow> nat_digits (unat (va_ulong ap))
      | ARG_DOUBLE \<Rightarrow> json_double_bytes X cfg (va_double ap)
      | ARG_POINTER \<Rightarrow> quote (lc_fmt_pointer X (va_pointer ap))
      | ARG_BOOL \<Rightarrow> if va_int ap \<noteq> 0 then ''true'' else ''false''
      | ARG_ERRNO \<Rightarrow> maybe_trusted_bytes (pslog_errno_string X (sint e) 128))"
  by (cases "ks_arg_type spec"; simp add: direct_field_def materialize_spec_def json_value_color_def json_value_bytes_def
      ascii_trusted_measure_spec maybe_trusted_bytes_def quote_def int_of_errno_def Let_def case_prod_beta ucast_scast_32)+

lemma direct_key [simp]: "json_key_bytes (direct_field e spec ap) = quote (spec_key spec)"
  by (cases "kvfmt_value (ks_arg_type spec) e ap"; simp add: direct_field_def materialize_spec_def json_key_bytes_def field_key_def
      spec_key_def Let_def case_prod_beta split: prod.split)

lemma view_kvfmt_value_plain [simp]:
  assumes "good X cfg s"
  shows "view X cfg (json_kvfmt_value_plain X cfg' (ks_arg_type spec) e ap s) =
      map_option (appends (json_value_text X cfg' no_palette (direct_field e spec ap))) (view X cfg s)"
    and "good X cfg (json_kvfmt_value_plain X cfg' (ks_arg_type spec) e ap s)"
  using assms
  by (cases "ks_arg_type spec"; simp add: json_kvfmt_value_plain_def json_kvfmt_double_plain_def json_value_text_plain
      json_double_bytes_def quote_def)+

lemma view_kvfmt_value_color [simp]:
  assumes "good X cfg s"
  shows "view X cfg (json_kvfmt_value_color X cfg' (ks_arg_type spec) e ap s) =
      map_option (appends (json_value_text X cfg' (c_palette cfg') (direct_field e spec ap))) (view X cfg s)"
    and "good X cfg (json_kvfmt_value_color X cfg' (ks_arg_type spec) e ap s)"
  using assms
  by (cases "ks_arg_type spec"; simp add: json_kvfmt_value_color_def json_kvfmt_double_color_def json_value_text_def
      json_double_bytes_def json_double_color_def quote_def Let_def)+

lemma spec_prefix: "prepared cfg spec = spec \<Longrightarrow> ks_json_color_prefix spec \<in> {[], kvfmt_json_text cfg spec}"
proof -
  assume a: "prepared cfg spec = spec"
  have "ks_json_color_prefix (prepared cfg spec) \<in> {[], kvfmt_json_text cfg spec}" by (simp add: prepared_def Let_def)
  with a show ?thesis by simp
qed

lemma view_kvfmt_fields_plain:
  assumes "good X cfg s" "list_all (\<lambda>spec. prepared cfg' spec = spec) specs" "\<not> c_color_enabled cfg'"
  shows "view X cfg (snd (pslog_append_json_kvfmt_fields_plain X cfg' specs False e ap s)) =
      map_option (appends (json_kvfmt_members X cfg' no_palette e specs ap)) (view X cfg s)
    \<and> good X cfg (snd (pslog_append_json_kvfmt_fields_plain X cfg' specs False e ap s))
    \<and> \<not> fst (pslog_append_json_kvfmt_fields_plain X cfg' specs False e ap s)"
  using assms
proof (induction specs arbitrary: ap s)
  case (Cons spec specs)
  have "ks_json_color_prefix spec \<in> {[], quote (spec_key spec) @ '':''}"
    using spec_prefix [of cfg' spec] Cons.prems by (simp add: kvfmt_json_text_def quote_def)
  with Cons.prems Cons.IH show ?case by (auto simp: Let_def json_member_def quote_def comma_def)
qed simp

lemma view_kvfmt_fields_color:
  assumes "good X cfg s" "list_all (\<lambda>spec. prepared cfg' spec = spec) specs" "c_color_enabled cfg'"
  shows "view X cfg (snd (pslog_append_json_kvfmt_fields_color X cfg' specs False e ap s)) =
      map_option (appends (json_kvfmt_members X cfg' (c_palette cfg') e specs ap)) (view X cfg s)
    \<and> good X cfg (snd (pslog_append_json_kvfmt_fields_color X cfg' specs False e ap s))
    \<and> \<not> fst (pslog_append_json_kvfmt_fields_color X cfg' specs False e ap s)"
  using assms
proof (induction specs arbitrary: ap s)
  case (Cons spec specs)
  have "ks_json_color_prefix spec \<in> {[], p_key (c_palette cfg') @ quote (spec_key spec) @ '':''}"
    using spec_prefix [of cfg' spec] Cons.prems by (simp add: kvfmt_json_text_def quote_def)
  with Cons.prems Cons.IH show ?case
    by (auto simp: Let_def json_member_def quote_def comma_def pslog_append_json_kvfmt_color_prefix_def)
qed simp

section \<open>Lines reach the sink\<close>

text \<open>What the emitters rely on: the clock, the zone table, the literals and the prefix of the logger's fields.\<close>

definition emit_ok :: "libc \<Rightarrow> shared_cfg \<Rightarrow> pslog_logger_impl \<Rightarrow> pslog_level \<Rightarrow> int \<times> int \<Rightarrow> bool" where
  "emit_ok X cfg impl level clock =
     (zone_ok X \<and> clock_ok clock \<and> prefix_ok X cfg (used_palette cfg) impl \<and>
      (c_color_enabled cfg \<longrightarrow> literals_ok cfg \<and> std_level level \<and>
         (i_include_level_field impl \<longrightarrow> std_level (i_min_level impl))))"

lemma emit_ok_plain: "emit_ok X cfg impl level clock \<Longrightarrow> \<not> c_color_enabled cfg \<Longrightarrow>
    zone_ok X \<and> clock_ok clock \<and> prefix_ok X cfg no_palette impl"
  by (simp add: emit_ok_def used_palette_def)

lemma emit_ok_color: "emit_ok X cfg impl level clock \<Longrightarrow> c_color_enabled cfg \<Longrightarrow>
    zone_ok X \<and> clock_ok clock \<and> prefix_ok X cfg (c_palette cfg) impl \<and> literals_ok cfg \<and> std_level level \<and>
    (i_include_level_field impl \<longrightarrow> std_level (i_min_level impl)) \<and> slot_level level = level"
  by (simp add: emit_ok_def used_palette_def std_level_def)

context emitting_sink
begin

lemma json_line_emitted:
  assumes serve: "serving snk ok X cfg s"
    and body: "\<And>u. good X cfg u \<Longrightarrow> view X cfg (body u) = map_option (appends B) (view X cfg u) \<and> good X cfg (body u)"
  shows "acc (e_world (json_line cfg body s)) = acc (e_world s) @ ''{'' @ B @ ''}'' @ [CHR 0x0A] \<and>
    serving snk ok X cfg (json_line cfg body s)"
proof -
  have g: "good X cfg (open_line cfg s)" using serve by (intro open_line_good) (simp_all add: serving_def)
  let ?o = "append_char_fast CHR ''{'' (open_line cfg s)"
  have b: "view X cfg (body ?o) = map_option (appends B) (view X cfg ?o)" "good X cfg (body ?o)"
    using body [of ?o] g by simp_all
  have "view X cfg (pslog_buffer_finish_line (append_char_fast CHR ''}'' (body ?o))) =
      map_option (appends (''{'' @ B @ ''}'' @ [CHR 0x0A])) (view X cfg (open_line cfg s))"
    using b g by simp
  from line_emitted [OF serve _ this, of "e_buf s"] show ?thesis by (simp add: json_line_def)
qed

lemma emit_json_text:
  assumes "serving snk ok X cfg s" "emit_ok X cfg impl level clock"
  shows "acc (e_world (pslog_emit_json X cfg impl level msg flds clock s)) =
      acc (e_world s) @ json_line_text X cfg (used_palette cfg) impl (slot_level level) msg flds clock \<and>
    serving snk ok X cfg (pslog_emit_json X cfg impl level msg flds clock s)"
proof (cases "c_color_enabled cfg")
  case False
  note e = emit_ok_plain [OF assms(2) False]
  have "view X cfg (json_tail_plain X cfg impl (pslog_append_json_field_set_plain X cfg flds (fst (json_head_plain X cfg impl level msg clock u))
        (snd (json_head_plain X cfg impl level msg clock u)))) =
      map_option (appends (json_head_text X cfg no_palette (slot_level level) msg clock @
        json_members X cfg no_palette (i_fields impl) False @ json_members X cfg no_palette flds False @ level_field_text no_palette impl))
        (view X cfg u) \<and>
      good X cfg (json_tail_plain X cfg impl (pslog_append_json_field_set_plain X cfg flds (fst (json_head_plain X cfg impl level msg clock u))
        (snd (json_head_plain X cfg impl level msg clock u))))" if "good X cfg u" for u
    using that e by simp
  from json_line_emitted [OF assms(1) this] False show ?thesis
    by (simp add: pslog_emit_json_def pslog_emit_json_plain_def json_line_text_def json_object_text_def used_palette_def case_prod_beta)
next
  case True
  note e = emit_ok_color [OF assms(2) True]
  have "view X cfg (json_tail_color cfg impl (pslog_append_json_field_set_color X cfg flds (fst (json_head_color X cfg impl level msg clock u))
        (snd (json_head_color X cfg impl level msg clock u)))) =
      map_option (appends (json_head_text X cfg (c_palette cfg) level msg clock @
        json_members X cfg (c_palette cfg) (i_fields impl) False @ json_members X cfg (c_palette cfg) flds False @
        level_field_text (c_palette cfg) impl)) (view X cfg u) \<and>
      good X cfg (json_tail_color cfg impl (pslog_append_json_field_set_color X cfg flds (fst (json_head_color X cfg impl level msg clock u))
        (snd (json_head_color X cfg impl level msg clock u))))" if "good X cfg u" for u
    using that e by simp
  from json_line_emitted [OF assms(1) this] True e show ?thesis
    by (simp add: pslog_emit_json_def pslog_emit_json_color_def json_line_text_def json_object_text_def used_palette_def case_prod_beta)
qed

lemma emit_json_kvfmt_text:
  assumes "serving snk ok X cfg s" "emit_ok X cfg impl level clock"
    and specs: "list_all (\<lambda>spec. prepared cfg spec = spec) (entry_specs entry)"
  shows "acc (e_world (pslog_emit_json_kvfmt X cfg impl level msg entry e ap clock s)) =
      acc (e_world s) @ json_object_text X cfg (used_palette cfg) impl (slot_level level) msg
        (json_kvfmt_members X cfg (used_palette cfg) e (entry_specs entry) ap) clock \<and>
    serving snk ok X cfg (pslog_emit_json_kvfmt X cfg impl level msg entry e ap clock s)"
proof (cases "c_color_enabled cfg")
  case False
  note h = emit_ok_plain [OF assms(2) False]
  let ?body = "\<lambda>u. json_tail_plain X cfg impl (pslog_append_json_kvfmt_fields_plain X cfg (entry_specs entry)
      (fst (json_head_plain X cfg impl level msg clock u)) e ap (snd (json_head_plain X cfg impl level msg clock u)))"
  have "view X cfg (?body u) = map_option (appends (json_head_text X cfg no_palette (slot_level level) msg clock @
        json_members X cfg no_palette (i_fields impl) False @ json_kvfmt_members X cfg no_palette e (entry_specs entry) ap @
        level_field_text no_palette impl)) (view X cfg u) \<and> good X cfg (?body u)" if "good X cfg u" for u
    using that h view_kvfmt_fields_plain [OF _ specs False, of X cfg "snd (json_head_plain X cfg impl level msg clock u)" e ap] by simp
  from json_line_emitted [OF assms(1) this] False show ?thesis
    by (simp add: pslog_emit_json_kvfmt_def json_object_text_def used_palette_def case_prod_beta)
next
  case True
  note h = emit_ok_color [OF assms(2) True]
  let ?body = "\<lambda>u. json_tail_color cfg impl (pslog_append_json_kvfmt_fields_color X cfg (entry_specs entry)
      (fst (json_head_color X cfg impl level msg clock u)) e ap (snd (json_head_color X cfg impl level msg clock u)))"
  have "view X cfg (?body u) = map_option (appends (json_head_text X cfg (c_palette cfg) level msg clock @
        json_members X cfg (c_palette cfg) (i_fields impl) False @ json_kvfmt_members X cfg (c_palette cfg) e (entry_specs entry) ap @
        level_field_text (c_palette cfg) impl)) (view X cfg u) \<and> good X cfg (?body u)" if "good X cfg u" for u
    using that h view_kvfmt_fields_color [OF _ specs True, of X cfg "snd (json_head_color X cfg impl level msg clock u)" e ap] by simp
  from json_line_emitted [OF assms(1) this] True h show ?thesis
    by (simp add: pslog_emit_json_kvfmt_def json_object_text_def used_palette_def case_prod_beta)
qed

end

end
