(* ===== verification/Palettes.thy ===== *)
theory Palettes
  imports Types
begin

text \<open>
  The built-in palettes of \<open>src/pslog_palette.c\<close> and their lookup by name, with the terminal's view
  of a palette: every member is one SGR sequence, which a reader that drops such sequences skips.
\<close>

section \<open>SGR sequences\<close>

definition esc :: char where
  "esc = CHR 0x1B"

text \<open>The C literal \<open>"\x1b[...m"\<close>.\<close>

definition sgr_text :: "cstring \<Rightarrow> cstring" where
  "sgr_text params = esc # CHR ''['' # params @ ''m''"

fun skip_sgr :: "string \<Rightarrow> string" where
  "skip_sgr [] = []"
| "skip_sgr (c # t) = (if c = CHR ''m'' then t else skip_sgr t)"

lemma skip_sgr_length: "length (skip_sgr t) \<le> length t"
  by (induction t) auto

text \<open>What is left of a text on a terminal without colours.\<close>

function strip_sgr :: "string \<Rightarrow> string" where
  "strip_sgr [] = []"
| "strip_sgr (c # t) = (if c = esc then strip_sgr (skip_sgr t) else c # strip_sgr t)"
  by pat_completeness auto
termination
  by (relation "measure length") (auto simp: le_imp_less_Suc skip_sgr_length)

definition sgr :: "string \<Rightarrow> bool" where
  "sgr t = (t = [] \<or> hd t = esc \<and> last t = CHR ''m'' \<and> CHR ''m'' \<notin> set (butlast t))"

definition palette_sgr :: "pslog_palette \<Rightarrow> bool" where
  "palette_sgr p = list_all sgr [p_key p, p_string p, p_number p, p_boolean p, p_null_value p, p_trace p, p_debug p, p_info p,
     p_warn p, p_error p, p_fatal p, p_panic p, p_timestamp p, p_message p, p_message_key p, p_reset p]"

section \<open>Built-in palettes\<close>

definition pslog_builtin_palette_default :: pslog_palette where
  "pslog_builtin_palette_default = \<lparr>p_key = sgr_text ''36'', p_string = sgr_text ''1;34'', p_number = sgr_text ''35'', p_boolean = sgr_text ''33'',
     p_null_value = sgr_text ''90'', p_trace = sgr_text ''34'', p_debug = sgr_text ''32'', p_info = sgr_text ''1;32'',
     p_warn = sgr_text ''1;33'', p_error = sgr_text ''1;31'', p_fatal = sgr_text ''1;31'', p_panic = sgr_text ''1;31'',
     p_timestamp = sgr_text ''90'', p_message = sgr_text ''1'', p_message_key = sgr_text ''36'', p_reset = sgr_text ''0''\<rparr>"

definition pslog_builtin_palette_outrun_electric :: pslog_palette where
  "pslog_builtin_palette_outrun_electric = \<lparr>p_key = sgr_text ''38;5;201'', p_string = sgr_text ''38;5;81'', p_number = sgr_text ''38;5;99'', p_boolean = sgr_text ''38;5;69'',
     p_null_value = sgr_text ''38;5;60'', p_trace = sgr_text ''38;5;33'', p_debug = sgr_text ''38;5;39'', p_info = sgr_text ''38;5;45'',
     p_warn = sgr_text ''38;5;129'', p_error = sgr_text ''38;5;205'', p_fatal = sgr_text ''38;5;206'', p_panic = sgr_text ''38;5;213'',
     p_timestamp = sgr_text ''38;5;117'', p_message = sgr_text ''1;38;5;219'', p_message_key = sgr_text ''38;5;33'', p_reset = sgr_text ''0''\<rparr>"

definition pslog_builtin_palette_iosvkem :: pslog_palette where
  "pslog_builtin_palette_iosvkem = \<lparr>p_key = sgr_text ''38;5;222'', p_string = sgr_text ''38;5;216'', p_number = sgr_text ''38;5;109'', p_boolean = sgr_text ''38;5;151'',
     p_null_value = sgr_text ''38;5;244'', p_trace = sgr_text ''38;5;66'', p_debug = sgr_text ''38;5;72'', p_info = sgr_text ''38;5;114'',
     p_warn = sgr_text ''38;5;208'', p_error = sgr_text ''38;5;203'', p_fatal = sgr_text ''38;5;197'', p_panic = sgr_text ''38;5;199'',
     p_timestamp = sgr_text ''38;5;242'', p_message = sgr_text ''1;38;5;223'', p_message_key = sgr_text ''38;5;67'', p_reset = sgr_text ''0''\<rparr>"

definition pslog_builtin_palette_gruvbox :: pslog_palette where
  "pslog_builtin_palette_gruvbox = \<lparr>p_key = sgr_text ''38;5;214'', p_string = sgr_text ''38;5;178'', p_number = sgr_text ''38;5;108'', p_boolean = sgr_text ''38;5;142'',
     p_null_value = sgr_text ''38;5;101'', p_trace = sgr_text ''38;5;66'', p_debug = sgr_text ''38;5;72'', p_info = sgr_text ''38;5;107'',
     p_warn = sgr_text ''38;5;208'', p_error = sgr_text ''38;5;167'', p_fatal = sgr_text ''38;5;160'', p_panic = sgr_text ''38;5;161'',
     p_timestamp = sgr_text ''38;5;137'', p_message = sgr_text ''1;38;5;221'', p_message_key = sgr_text ''38;5;172'', p_reset = sgr_text ''0''\<rparr>"

definition pslog_builtin_palette_dracula :: pslog_palette where
  "pslog_builtin_palette_dracula = \<lparr>p_key = sgr_text ''38;5;219'', p_string = sgr_text ''38;5;141'', p_number = sgr_text ''38;5;111'', p_boolean = sgr_text ''38;5;81'',
     p_null_value = sgr_text ''38;5;240'', p_trace = sgr_text ''38;5;60'', p_debug = sgr_text ''38;5;98'', p_info = sgr_text ''38;5;117'',
     p_warn = sgr_text ''38;5;219'', p_error = sgr_text ''38;5;204'', p_fatal = sgr_text ''38;5;198'', p_panic = sgr_text ''38;5;199'',
     p_timestamp = sgr_text ''38;5;95'', p_message = sgr_text ''1;38;5;225'', p_message_key = sgr_text ''38;5;147'', p_reset = sgr_text ''0''\<rparr>"

definition pslog_builtin_palette_nord :: pslog_palette where
  "pslog_builtin_palette_nord = \<lparr>p_key = sgr_text ''38;5;153'', p_string = sgr_text ''38;5;152'', p_number = sgr_text ''38;5;109'', p_boolean = sgr_text ''38;5;115'',
     p_null_value = sgr_text ''38;5;245'', p_trace = sgr_text ''38;5;67'', p_debug = sgr_text ''38;5;74'', p_info = sgr_text ''38;5;117'',
     p_warn = sgr_text ''38;5;179'', p_error = sgr_text ''38;5;210'', p_fatal = sgr_text ''38;5;204'', p_panic = sgr_text ''38;5;205'',
     p_timestamp = sgr_text ''38;5;109'', p_message = sgr_text ''1;38;5;195'', p_message_key = sgr_text ''38;5;110'', p_reset = sgr_text ''0''\<rparr>"

definition pslog_builtin_palette_tokyo_night :: pslog_palette where
  "pslog_builtin_palette_tokyo_night = \<lparr>p_key = sgr_text ''38;5;69'', p_string = sgr_text ''38;5;110'', p_number = sgr_text ''38;5;176'', p_boolean = sgr_text ''38;5;117'',
     p_null_value = sgr_text ''38;5;244'', p_trace = sgr_text ''38;5;63'', p_debug = sgr_text ''38;5;67'', p_info = sgr_text ''38;5;111'',
     p_warn = sgr_text ''38;5;173'', p_error = sgr_text ''38;5;210'', p_fatal = sgr_text ''38;5;205'', p_panic = sgr_text ''38;5;219'',
     p_timestamp = sgr_text ''38;5;109'', p_message = sgr_text ''1;38;5;218'', p_message_key = sgr_text ''38;5;74'', p_reset = sgr_text ''0''\<rparr>"

definition pslog_builtin_palette_solarized_nightfall :: pslog_palette where
  "pslog_builtin_palette_solarized_nightfall = \<lparr>p_key = sgr_text ''38;5;37'', p_string = sgr_text ''38;5;86'', p_number = sgr_text ''38;5;61'', p_boolean = sgr_text ''38;5;65'',
     p_null_value = sgr_text ''38;5;239'', p_trace = sgr_text ''38;5;24'', p_debug = sgr_text ''38;5;30'', p_info = sgr_text ''38;5;36'',
     p_warn = sgr_text ''38;5;136'', p_error = sgr_text ''38;5;160'', p_fatal = sgr_text ''38;5;166'', p_panic = sgr_text ''38;5;161'',
     p_timestamp = sgr_text ''38;5;244'', p_message = sgr_text ''1;38;5;230'', p_message_key = sgr_text ''38;5;33'', p_reset = sgr_text ''0''\<rparr>"

definition pslog_builtin_palette_catppuccin_mocha :: pslog_palette where
  "pslog_builtin_palette_catppuccin_mocha = \<lparr>p_key = sgr_text ''38;5;217'', p_string = sgr_text ''38;5;183'', p_number = sgr_text ''38;5;147'', p_boolean = sgr_text ''38;5;152'',
     p_null_value = sgr_text ''38;5;244'', p_trace = sgr_text ''38;5;104'', p_debug = sgr_text ''38;5;109'', p_info = sgr_text ''38;5;150'',
     p_warn = sgr_text ''38;5;216'', p_error = sgr_text ''38;5;211'', p_fatal = sgr_text ''38;5;205'', p_panic = sgr_text ''38;5;204'',
     p_timestamp = sgr_text ''38;5;110'', p_message = sgr_text ''1;38;5;223'', p_message_key = sgr_text ''38;5;182'', p_reset = sgr_text ''0''\<rparr>"

definition pslog_builtin_palette_gruvbox_light :: pslog_palette where
  "pslog_builtin_palette_gruvbox_light = \<lparr>p_key = sgr_text ''38;5;130'', p_string = sgr_text ''38;5;108'', p_number = sgr_text ''38;5;66'', p_boolean = sgr_text ''38;5;142'',
     p_null_value = sgr_text ''38;5;180'', p_trace = sgr_text ''38;5;109'', p_debug = sgr_text ''38;5;114'', p_info = sgr_text ''38;5;73'',
     p_warn = sgr_text ''38;5;173'', p_error = sgr_text ''38;5;167'', p_fatal = sgr_text ''38;5;161'', p_panic = sgr_text ''38;5;125'',
     p_timestamp = sgr_text ''38;5;180'', p_message = sgr_text ''1;38;5;223'', p_message_key = sgr_text ''38;5;136'', p_reset = sgr_text ''0''\<rparr>"

definition pslog_builtin_palette_monokai_vibrant :: pslog_palette where
  "pslog_builtin_palette_monokai_vibrant = \<lparr>p_key = sgr_text ''38;5;229'', p_string = sgr_text ''38;5;121'', p_number = sgr_text ''38;5;198'', p_boolean = sgr_text ''38;5;118'',
     p_null_value = sgr_text ''38;5;59'', p_trace = sgr_text ''38;5;104'', p_debug = sgr_text ''38;5;114'', p_info = sgr_text ''38;5;121'',
     p_warn = sgr_text ''38;5;215'', p_error = sgr_text ''38;5;197'', p_fatal = sgr_text ''38;5;161'', p_panic = sgr_text ''38;5;201'',
     p_timestamp = sgr_text ''38;5;103'', p_message = sgr_text ''1;38;5;229'', p_message_key = sgr_text ''38;5;141'', p_reset = sgr_text ''0''\<rparr>"

definition pslog_builtin_palette_one_dark_aurora :: pslog_palette where
  "pslog_builtin_palette_one_dark_aurora = \<lparr>p_key = sgr_text ''38;5;110'', p_string = sgr_text ''38;5;147'', p_number = sgr_text ''38;5;141'', p_boolean = sgr_text ''38;5;115'',
     p_null_value = sgr_text ''38;5;59'', p_trace = sgr_text ''38;5;24'', p_debug = sgr_text ''38;5;31'', p_info = sgr_text ''38;5;38'',
     p_warn = sgr_text ''38;5;178'', p_error = sgr_text ''38;5;203'', p_fatal = sgr_text ''38;5;197'', p_panic = sgr_text ''38;5;199'',
     p_timestamp = sgr_text ''38;5;109'', p_message = sgr_text ''1;38;5;189'', p_message_key = sgr_text ''38;5;75'', p_reset = sgr_text ''0''\<rparr>"

definition pslog_builtin_palette_synthwave_84 :: pslog_palette where
  "pslog_builtin_palette_synthwave_84 = \<lparr>p_key = sgr_text ''38;5;198'', p_string = sgr_text ''38;5;51'', p_number = sgr_text ''38;5;207'', p_boolean = sgr_text ''38;5;219'',
     p_null_value = sgr_text ''38;5;102'', p_trace = sgr_text ''38;5;63'', p_debug = sgr_text ''38;5;69'', p_info = sgr_text ''38;5;81'',
     p_warn = sgr_text ''38;5;220'', p_error = sgr_text ''38;5;205'', p_fatal = sgr_text ''38;5;200'', p_panic = sgr_text ''38;5;201'',
     p_timestamp = sgr_text ''38;5;69'', p_message = sgr_text ''1;38;5;219'', p_message_key = sgr_text ''38;5;45'', p_reset = sgr_text ''0''\<rparr>"

definition pslog_builtin_palette_kanagawa :: pslog_palette where
  "pslog_builtin_palette_kanagawa = \<lparr>p_key = sgr_text ''1;38;5;215'', p_string = sgr_text ''1;38;5;179'', p_number = sgr_text ''38;5;150'', p_boolean = sgr_text ''38;5;109'',
     p_null_value = sgr_text ''38;5;240'', p_trace = sgr_text ''38;5;66'', p_debug = sgr_text ''38;5;109'', p_info = sgr_text ''1;38;5;216'',
     p_warn = sgr_text ''38;5;110'', p_error = sgr_text ''1;38;5;181'', p_fatal = sgr_text ''1;38;5;181'', p_panic = sgr_text ''1;38;5;181'',
     p_timestamp = sgr_text ''38;5;109'', p_message = sgr_text ''1;38;5;223'', p_message_key = sgr_text ''38;5;173'', p_reset = sgr_text ''0''\<rparr>"

definition pslog_builtin_palette_rose_pine :: pslog_palette where
  "pslog_builtin_palette_rose_pine = \<lparr>p_key = sgr_text ''1;38;5;217'', p_string = sgr_text ''1;38;5;180'', p_number = sgr_text ''38;5;146'', p_boolean = sgr_text ''38;5;110'',
     p_null_value = sgr_text ''38;5;244'', p_trace = sgr_text ''38;5;104'', p_debug = sgr_text ''38;5;110'', p_info = sgr_text ''1;38;5;217'',
     p_warn = sgr_text ''38;5;117'', p_error = sgr_text ''1;38;5;210'', p_fatal = sgr_text ''1;38;5;210'', p_panic = sgr_text ''1;38;5;210'',
     p_timestamp = sgr_text ''38;5;110'', p_message = sgr_text ''1;38;5;223'', p_message_key = sgr_text ''38;5;146'', p_reset = sgr_text ''0''\<rparr>"

definition pslog_builtin_palette_rose_pine_dawn :: pslog_palette where
  "pslog_builtin_palette_rose_pine_dawn = \<lparr>p_key = sgr_text ''1;38;5;173'', p_string = sgr_text ''1;38;5;137'', p_number = sgr_text ''38;5;108'', p_boolean = sgr_text ''38;5;66'',
     p_null_value = sgr_text ''38;5;244'', p_trace = sgr_text ''38;5;66'', p_debug = sgr_text ''38;5;109'', p_info = sgr_text ''1;38;5;173'',
     p_warn = sgr_text ''38;5;109'', p_error = sgr_text ''1;38;5;131'', p_fatal = sgr_text ''1;38;5;131'', p_panic = sgr_text ''1;38;5;131'',
     p_timestamp = sgr_text ''38;5;109'', p_message = sgr_text ''1;38;5;180'', p_message_key = sgr_text ''38;5;137'', p_reset = sgr_text ''0''\<rparr>"

definition pslog_builtin_palette_everforest :: pslog_palette where
  "pslog_builtin_palette_everforest = \<lparr>p_key = sgr_text ''1;38;5;143'', p_string = sgr_text ''1;38;5;108'', p_number = sgr_text ''38;5;108'', p_boolean = sgr_text ''38;5;142'',
     p_null_value = sgr_text ''38;5;239'', p_trace = sgr_text ''38;5;66'', p_debug = sgr_text ''38;5;109'', p_info = sgr_text ''1;38;5;143'',
     p_warn = sgr_text ''38;5;109'', p_error = sgr_text ''1;38;5;179'', p_fatal = sgr_text ''1;38;5;179'', p_panic = sgr_text ''1;38;5;179'',
     p_timestamp = sgr_text ''38;5;109'', p_message = sgr_text ''1;38;5;223'', p_message_key = sgr_text ''38;5;108'', p_reset = sgr_text ''0''\<rparr>"

definition pslog_builtin_palette_everforest_light :: pslog_palette where
  "pslog_builtin_palette_everforest_light = \<lparr>p_key = sgr_text ''1;38;5;136'', p_string = sgr_text ''1;38;5;108'', p_number = sgr_text ''38;5;66'', p_boolean = sgr_text ''38;5;109'',
     p_null_value = sgr_text ''38;5;243'', p_trace = sgr_text ''38;5;66'', p_debug = sgr_text ''38;5;109'', p_info = sgr_text ''1;38;5;136'',
     p_warn = sgr_text ''38;5;137'', p_error = sgr_text ''1;38;5;173'', p_fatal = sgr_text ''1;38;5;173'', p_panic = sgr_text ''1;38;5;173'',
     p_timestamp = sgr_text ''38;5;109'', p_message = sgr_text ''1;38;5;130'', p_message_key = sgr_text ''38;5;108'', p_reset = sgr_text ''0''\<rparr>"

definition pslog_builtin_palette_night_owl :: pslog_palette where
  "pslog_builtin_palette_night_owl = \<lparr>p_key = sgr_text ''1;38;5;111'', p_string = sgr_text ''1;38;5;75'', p_number = sgr_text ''38;5;110'', p_boolean = sgr_text ''38;5;81'',
     p_null_value = sgr_text ''38;5;244'', p_trace = sgr_text ''38;5;67'', p_debug = sgr_text ''38;5;74'', p_info = sgr_text ''1;38;5;117'',
     p_warn = sgr_text ''38;5;179'', p_error = sgr_text ''1;38;5;204'', p_fatal = sgr_text ''1;38;5;204'', p_panic = sgr_text ''1;38;5;204'',
     p_timestamp = sgr_text ''38;5;109'', p_message = sgr_text ''1;38;5;117'', p_message_key = sgr_text ''38;5;75'', p_reset = sgr_text ''0''\<rparr>"

definition pslog_builtin_palette_ayu_mirage :: pslog_palette where
  "pslog_builtin_palette_ayu_mirage = \<lparr>p_key = sgr_text ''1;38;5;214'', p_string = sgr_text ''1;38;5;179'', p_number = sgr_text ''38;5;110'', p_boolean = sgr_text ''38;5;109'',
     p_null_value = sgr_text ''38;5;239'', p_trace = sgr_text ''38;5;66'', p_debug = sgr_text ''38;5;110'', p_info = sgr_text ''1;38;5;214'',
     p_warn = sgr_text ''38;5;173'', p_error = sgr_text ''1;38;5;173'', p_fatal = sgr_text ''1;38;5;173'', p_panic = sgr_text ''1;38;5;173'',
     p_timestamp = sgr_text ''38;5;109'', p_message = sgr_text ''1;38;5;215'', p_message_key = sgr_text ''38;5;179'', p_reset = sgr_text ''0''\<rparr>"

definition pslog_builtin_palette_ayu_light :: pslog_palette where
  "pslog_builtin_palette_ayu_light = \<lparr>p_key = sgr_text ''1;38;5;136'', p_string = sgr_text ''1;38;5;109'', p_number = sgr_text ''38;5;66'', p_boolean = sgr_text ''38;5;109'',
     p_null_value = sgr_text ''38;5;243'', p_trace = sgr_text ''38;5;66'', p_debug = sgr_text ''38;5;109'', p_info = sgr_text ''1;38;5;130'',
     p_warn = sgr_text ''38;5;173'', p_error = sgr_text ''1;38;5;173'', p_fatal = sgr_text ''1;38;5;173'', p_panic = sgr_text ''1;38;5;173'',
     p_timestamp = sgr_text ''38;5;109'', p_message = sgr_text ''1;38;5;130'', p_message_key = sgr_text ''38;5;109'', p_reset = sgr_text ''0''\<rparr>"

definition pslog_builtin_palette_one_light :: pslog_palette where
  "pslog_builtin_palette_one_light = \<lparr>p_key = sgr_text ''1;38;5;33'', p_string = sgr_text ''1;38;5;97'', p_number = sgr_text ''38;5;67'', p_boolean = sgr_text ''38;5;109'',
     p_null_value = sgr_text ''38;5;243'', p_trace = sgr_text ''38;5;66'', p_debug = sgr_text ''38;5;109'', p_info = sgr_text ''1;38;5;130'',
     p_warn = sgr_text ''38;5;137'', p_error = sgr_text ''1;38;5;167'', p_fatal = sgr_text ''1;38;5;167'', p_panic = sgr_text ''1;38;5;167'',
     p_timestamp = sgr_text ''38;5;109'', p_message = sgr_text ''1;38;5;130'', p_message_key = sgr_text ''38;5;67'', p_reset = sgr_text ''0''\<rparr>"

definition pslog_builtin_palette_one_dark :: pslog_palette where
  "pslog_builtin_palette_one_dark = \<lparr>p_key = sgr_text ''1;38;5;110'', p_string = sgr_text ''1;38;5;147'', p_number = sgr_text ''38;5;141'', p_boolean = sgr_text ''38;5;115'',
     p_null_value = sgr_text ''38;5;239'', p_trace = sgr_text ''38;5;67'', p_debug = sgr_text ''38;5;75'', p_info = sgr_text ''1;38;5;75'',
     p_warn = sgr_text ''38;5;178'', p_error = sgr_text ''1;38;5;203'', p_fatal = sgr_text ''1;38;5;203'', p_panic = sgr_text ''1;38;5;203'',
     p_timestamp = sgr_text ''38;5;109'', p_message = sgr_text ''1;38;5;189'', p_message_key = sgr_text ''38;5;75'', p_reset = sgr_text ''0''\<rparr>"

definition pslog_builtin_palette_solarized_light :: pslog_palette where
  "pslog_builtin_palette_solarized_light = \<lparr>p_key = sgr_text ''1;38;5;64'', p_string = sgr_text ''1;38;5;37'', p_number = sgr_text ''38;5;33'', p_boolean = sgr_text ''38;5;130'',
     p_null_value = sgr_text ''38;5;244'', p_trace = sgr_text ''38;5;33'', p_debug = sgr_text ''38;5;37'', p_info = sgr_text ''1;38;5;136'',
     p_warn = sgr_text ''38;5;166'', p_error = sgr_text ''1;38;5;166'', p_fatal = sgr_text ''1;38;5;166'', p_panic = sgr_text ''1;38;5;166'',
     p_timestamp = sgr_text ''38;5;109'', p_message = sgr_text ''1;38;5;136'', p_message_key = sgr_text ''38;5;64'', p_reset = sgr_text ''0''\<rparr>"

definition pslog_builtin_palette_solarized_dark :: pslog_palette where
  "pslog_builtin_palette_solarized_dark = \<lparr>p_key = sgr_text ''1;38;5;64'', p_string = sgr_text ''1;38;5;37'', p_number = sgr_text ''38;5;33'', p_boolean = sgr_text ''38;5;130'',
     p_null_value = sgr_text ''38;5;240'', p_trace = sgr_text ''38;5;33'', p_debug = sgr_text ''38;5;37'', p_info = sgr_text ''1;38;5;136'',
     p_warn = sgr_text ''38;5;166'', p_error = sgr_text ''1;38;5;166'', p_fatal = sgr_text ''1;38;5;166'', p_panic = sgr_text ''1;38;5;166'',
     p_timestamp = sgr_text ''38;5;109'', p_message = sgr_text ''1;38;5;230'', p_message_key = sgr_text ''38;5;64'', p_reset = sgr_text ''0''\<rparr>"

definition pslog_builtin_palette_github_light :: pslog_palette where
  "pslog_builtin_palette_github_light = \<lparr>p_key = sgr_text ''1;38;5;27'', p_string = sgr_text ''1;38;5;61'', p_number = sgr_text ''38;5;67'', p_boolean = sgr_text ''38;5;109'',
     p_null_value = sgr_text ''38;5;244'', p_trace = sgr_text ''38;5;67'', p_debug = sgr_text ''38;5;61'', p_info = sgr_text ''1;38;5;24'',
     p_warn = sgr_text ''38;5;130'', p_error = sgr_text ''1;38;5;130'', p_fatal = sgr_text ''1;38;5;130'', p_panic = sgr_text ''1;38;5;130'',
     p_timestamp = sgr_text ''38;5;109'', p_message = sgr_text ''1;38;5;24'', p_message_key = sgr_text ''38;5;61'', p_reset = sgr_text ''0''\<rparr>"

definition pslog_builtin_palette_github_dark :: pslog_palette where
  "pslog_builtin_palette_github_dark = \<lparr>p_key = sgr_text ''1;38;5;111'', p_string = sgr_text ''1;38;5;109'', p_number = sgr_text ''38;5;110'', p_boolean = sgr_text ''38;5;109'',
     p_null_value = sgr_text ''38;5;239'', p_trace = sgr_text ''38;5;67'', p_debug = sgr_text ''38;5;109'', p_info = sgr_text ''1;38;5;111'',
     p_warn = sgr_text ''38;5;179'', p_error = sgr_text ''1;38;5;203'', p_fatal = sgr_text ''1;38;5;203'', p_panic = sgr_text ''1;38;5;203'',
     p_timestamp = sgr_text ''38;5;109'', p_message = sgr_text ''1;38;5;189'', p_message_key = sgr_text ''38;5;109'', p_reset = sgr_text ''0''\<rparr>"

definition pslog_builtin_palette_papercolor_light :: pslog_palette where
  "pslog_builtin_palette_papercolor_light = \<lparr>p_key = sgr_text ''1;38;5;33'', p_string = sgr_text ''1;38;5;64'', p_number = sgr_text ''38;5;67'', p_boolean = sgr_text ''38;5;109'',
     p_null_value = sgr_text ''38;5;244'', p_trace = sgr_text ''38;5;67'', p_debug = sgr_text ''38;5;61'', p_info = sgr_text ''1;38;5;130'',
     p_warn = sgr_text ''38;5;136'', p_error = sgr_text ''1;38;5;166'', p_fatal = sgr_text ''1;38;5;166'', p_panic = sgr_text ''1;38;5;166'',
     p_timestamp = sgr_text ''38;5;109'', p_message = sgr_text ''1;38;5;130'', p_message_key = sgr_text ''38;5;64'', p_reset = sgr_text ''0''\<rparr>"

definition pslog_builtin_palette_papercolor_dark :: pslog_palette where
  "pslog_builtin_palette_papercolor_dark = \<lparr>p_key = sgr_text ''1;38;5;109'', p_string = sgr_text ''1;38;5;110'', p_number = sgr_text ''38;5;110'', p_boolean = sgr_text ''38;5;109'',
     p_null_value = sgr_text ''38;5;239'', p_trace = sgr_text ''38;5;67'', p_debug = sgr_text ''38;5;110'', p_info = sgr_text ''1;38;5;109'',
     p_warn = sgr_text ''38;5;179'', p_error = sgr_text ''1;38;5;203'', p_fatal = sgr_text ''1;38;5;203'', p_panic = sgr_text ''1;38;5;203'',
     p_timestamp = sgr_text ''38;5;109'', p_message = sgr_text ''1;38;5;223'', p_message_key = sgr_text ''38;5;110'', p_reset = sgr_text ''0''\<rparr>"

definition pslog_builtin_palette_oceanic_next :: pslog_palette where
  "pslog_builtin_palette_oceanic_next = \<lparr>p_key = sgr_text ''1;38;5;110'', p_string = sgr_text ''1;38;5;75'', p_number = sgr_text ''38;5;109'', p_boolean = sgr_text ''38;5;110'',
     p_null_value = sgr_text ''38;5;239'', p_trace = sgr_text ''38;5;67'', p_debug = sgr_text ''38;5;75'', p_info = sgr_text ''1;38;5;110'',
     p_warn = sgr_text ''38;5;179'', p_error = sgr_text ''1;38;5;203'', p_fatal = sgr_text ''1;38;5;203'', p_panic = sgr_text ''1;38;5;203'',
     p_timestamp = sgr_text ''38;5;109'', p_message = sgr_text ''1;38;5;189'', p_message_key = sgr_text ''38;5;75'', p_reset = sgr_text ''0''\<rparr>"

definition pslog_builtin_palette_horizon :: pslog_palette where
  "pslog_builtin_palette_horizon = \<lparr>p_key = sgr_text ''1;38;5;214'', p_string = sgr_text ''1;38;5;203'', p_number = sgr_text ''38;5;209'', p_boolean = sgr_text ''38;5;141'',
     p_null_value = sgr_text ''38;5;239'', p_trace = sgr_text ''38;5;167'', p_debug = sgr_text ''38;5;209'', p_info = sgr_text ''1;38;5;214'',
     p_warn = sgr_text ''38;5;110'', p_error = sgr_text ''1;38;5;203'', p_fatal = sgr_text ''1;38;5;203'', p_panic = sgr_text ''1;38;5;203'',
     p_timestamp = sgr_text ''38;5;110'', p_message = sgr_text ''1;38;5;222'', p_message_key = sgr_text ''38;5;203'', p_reset = sgr_text ''0''\<rparr>"

definition pslog_builtin_palette_palenight :: pslog_palette where
  "pslog_builtin_palette_palenight = \<lparr>p_key = sgr_text ''1;38;5;147'', p_string = sgr_text ''1;38;5;141'', p_number = sgr_text ''38;5;110'', p_boolean = sgr_text ''38;5;109'',
     p_null_value = sgr_text ''38;5;239'', p_trace = sgr_text ''38;5;67'', p_debug = sgr_text ''38;5;110'', p_info = sgr_text ''1;38;5;147'',
     p_warn = sgr_text ''38;5;179'', p_error = sgr_text ''1;38;5;203'', p_fatal = sgr_text ''1;38;5;203'', p_panic = sgr_text ''1;38;5;203'',
     p_timestamp = sgr_text ''38;5;109'', p_message = sgr_text ''1;38;5;189'', p_message_key = sgr_text ''38;5;141'', p_reset = sgr_text ''0''\<rparr>"

section \<open>Names\<close>

definition palette_entries :: "(cstring \<times> pslog_palette) list" where
  "palette_entries =
    [(''ayu-light'', pslog_builtin_palette_ayu_light),
     (''ayu-mirage'', pslog_builtin_palette_ayu_mirage),
     (''catppuccin-mocha'', pslog_builtin_palette_catppuccin_mocha),
     (''default'', pslog_builtin_palette_default),
     (''dracula'', pslog_builtin_palette_dracula),
     (''everforest'', pslog_builtin_palette_everforest),
     (''everforest-light'', pslog_builtin_palette_everforest_light),
     (''github-dark'', pslog_builtin_palette_github_dark),
     (''github-light'', pslog_builtin_palette_github_light),
     (''gruvbox'', pslog_builtin_palette_gruvbox),
     (''gruvbox-light'', pslog_builtin_palette_gruvbox_light),
     (''horizon'', pslog_builtin_palette_horizon),
     (''iosvkem'', pslog_builtin_palette_iosvkem),
     (''kanagawa'', pslog_builtin_palette_kanagawa),
     (''monokai-vibrant'', pslog_builtin_palette_monokai_vibrant),
     (''night-owl'', pslog_builtin_palette_night_owl),
     (''nord'', pslog_builtin_palette_nord),
     (''oceanic-next'', pslog_builtin_palette_oceanic_next),
     (''one-dark'', pslog_builtin_palette_one_dark),
     (''one-dark-aurora'', pslog_builtin_palette_one_dark_aurora),
     (''one-light'', pslog_builtin_palette_one_light),
     (''outrun-electric'', pslog_builtin_palette_outrun_electric),
     (''palenight'', pslog_builtin_palette_palenight),
     (''papercolor-dark'', pslog_builtin_palette_papercolor_dark),
     (''papercolor-light'', pslog_builtin_palette_papercolor_light),
     (''rose-pine'', pslog_builtin_palette_rose_pine),
     (''rose-pine-dawn'', pslog_builtin_palette_rose_pine_dawn),
     (''solarized-dark'', pslog_builtin_palette_solarized_dark),
     (''solarized-light'', pslog_builtin_palette_solarized_light),
     (''solarized-nightfall'', pslog_builtin_palette_solarized_nightfall),
     (''synthwave-84'', pslog_builtin_palette_synthwave_84),
     (''tokyo-night'', pslog_builtin_palette_tokyo_night)]"

definition palette_aliases :: "(cstring \<times> cstring) list" where
  "palette_aliases =
    [(''ayulight'', ''ayu-light''), (''ayumirage'', ''ayu-mirage''),
     (''catppuccinmocha'', ''catppuccin-mocha''), (''doom-dracula'', ''dracula''),
     (''doom-gruvbox'', ''gruvbox''), (''doom-iosvkem'', ''iosvkem''),
     (''doom-nord'', ''nord''), (''doomdracula'', ''dracula''),
     (''doomgruvbox'', ''gruvbox''), (''doomiosvkem'', ''iosvkem''),
     (''doomnord'', ''nord''), (''everforestlight'', ''everforest-light''),
     (''githubdark'', ''github-dark''), (''githublight'', ''github-light''),
     (''gruvboxlight'', ''gruvbox-light''), (''monokaivibrant'', ''monokai-vibrant''),
     (''nightowl'', ''night-owl''), (''oceanicnext'', ''oceanic-next''),
     (''onedark'', ''one-dark''), (''onedarkaurora'', ''one-dark-aurora''),
     (''onelight'', ''one-light''), (''outrunelectric'', ''outrun-electric''),
     (''papercolordark'', ''papercolor-dark''), (''papercolorlight'', ''papercolor-light''),
     (''rosepine'', ''rose-pine''), (''rosepinedawn'', ''rose-pine-dawn''),
     (''solarizeddark'', ''solarized-dark''), (''solarizedlight'', ''solarized-light''),
     (''solarizednightfall'', ''solarized-nightfall''), (''synthwave84'', ''synthwave-84''),
     (''tokyonight'', ''tokyo-night'')]"

definition fold_char :: "char \<Rightarrow> char" where
  "fold_char c = (let ch = tolower c in if ch = CHR ''_'' \<or> ch = CHR '' '' then CHR ''-'' else ch)"

fun normalize_loop :: "nat \<Rightarrow> cstring \<Rightarrow> string \<Rightarrow> string" where
  "normalize_loop dst_size [] dst = dst"
| "normalize_loop dst_size (c # src) dst =
     (if length dst + 1 < dst_size
      then (let ch = fold_char c in
            if ch = CHR ''-'' \<and> dst \<noteq> [] \<and> last dst = CHR ''-'' then normalize_loop dst_size src dst
            else normalize_loop dst_size src (dst @ [ch]))
      else dst)"

text \<open>The loops that drop dashes at the end and at the front.\<close>

definition drop_tail_dashes :: "string \<Rightarrow> string" where
  "drop_tail_dashes t = rev (dropWhile (\<lambda>c. c = CHR ''-'') (rev t))"

definition normalize_name :: "cstring option \<Rightarrow> nat \<Rightarrow> string" where
  "normalize_name src dst_size =
     (let dst = drop_tail_dashes (normalize_loop dst_size (case src of None \<Rightarrow> [] | Some t \<Rightarrow> t) [])
      in if take 8 dst = ''palette-'' then drop 8 dst
         else if take 7 dst = ''palette'' then dropWhile (\<lambda>c. c = CHR ''-'') (drop 7 dst)
         else dst)"

definition pslog_palette_default :: pslog_palette where
  "pslog_palette_default = pslog_builtin_palette_default"

definition pslog_palette_by_name :: "cstring option \<Rightarrow> pslog_palette" where
  "pslog_palette_by_name name =
     (let normalized = normalize_name name 64 in
      if normalized = [] then pslog_builtin_palette_default
      else
        (let canonical = (case map_of palette_aliases normalized of None \<Rightarrow> normalized | Some c \<Rightarrow> c)
         in case map_of palette_entries canonical of
              None \<Rightarrow> pslog_builtin_palette_default
            | Some p \<Rightarrow> p))"

definition pslog_palette_count :: nat where
  "pslog_palette_count = length palette_entries"

definition pslog_palette_name :: "nat \<Rightarrow> cstring option" where
  "pslog_palette_name index = (if index \<ge> pslog_palette_count then None else Some (fst (palette_entries ! index)))"

section \<open>Lookup\<close>

lemma strip_sgr_clean: "esc \<notin> set t \<Longrightarrow> strip_sgr (t @ u) = t @ strip_sgr u"
  by (induction t) auto

lemma skip_sgr_append: "CHR ''m'' \<notin> set t \<Longrightarrow> skip_sgr (t @ CHR ''m'' # u) = u"
  by (induction t) auto

lemma strip_sgr_sgr: "sgr t \<Longrightarrow> strip_sgr (t @ u) = strip_sgr u"
proof (cases t)
  case (Cons c r)
  assume s: "sgr t"
  have "c \<noteq> CHR ''m''" using s Cons by (auto simp: sgr_def esc_def)
  with s Cons have r: "r \<noteq> []" "last r = CHR ''m''" "CHR ''m'' \<notin> set (butlast r)" by (auto simp: sgr_def split: if_splits)
  then have "r @ u = butlast r @ CHR ''m'' # u" by (metis append.assoc append_Cons append_Nil append_butlast_last_id)
  then have "skip_sgr (r @ u) = u" by (simp only: skip_sgr_append [OF r(3)])
  with s Cons show ?thesis by (simp add: sgr_def)
qed simp

lemma sgr_text_sgr: "CHR ''m'' \<notin> set params \<Longrightarrow> sgr (sgr_text params)"
  by (simp add: sgr_def sgr_text_def esc_def butlast_append)

lemmas builtin_palettes =
  pslog_builtin_palette_default_def pslog_builtin_palette_outrun_electric_def pslog_builtin_palette_iosvkem_def
  pslog_builtin_palette_gruvbox_def pslog_builtin_palette_dracula_def pslog_builtin_palette_nord_def
  pslog_builtin_palette_tokyo_night_def pslog_builtin_palette_solarized_nightfall_def
  pslog_builtin_palette_catppuccin_mocha_def pslog_builtin_palette_gruvbox_light_def
  pslog_builtin_palette_monokai_vibrant_def pslog_builtin_palette_one_dark_aurora_def
  pslog_builtin_palette_synthwave_84_def pslog_builtin_palette_kanagawa_def pslog_builtin_palette_rose_pine_def
  pslog_builtin_palette_rose_pine_dawn_def pslog_builtin_palette_everforest_def
  pslog_builtin_palette_everforest_light_def pslog_builtin_palette_night_owl_def
  pslog_builtin_palette_ayu_mirage_def pslog_builtin_palette_ayu_light_def pslog_builtin_palette_one_light_def
  pslog_builtin_palette_one_dark_def pslog_builtin_palette_solarized_light_def
  pslog_builtin_palette_solarized_dark_def pslog_builtin_palette_github_light_def
  pslog_builtin_palette_github_dark_def pslog_builtin_palette_papercolor_light_def
  pslog_builtin_palette_papercolor_dark_def pslog_builtin_palette_oceanic_next_def
  pslog_builtin_palette_horizon_def pslog_builtin_palette_palenight_def

lemma entries_sgr: "list_all (\<lambda>e. palette_sgr (snd e)) palette_entries"
  by (simp add: palette_entries_def builtin_palettes palette_sgr_def sgr_text_sgr)

lemma by_name_entry: "pslog_palette_by_name name \<in> snd ` set palette_entries"
proof -
  have d: "pslog_builtin_palette_default \<in> snd ` set palette_entries" by (simp add: palette_entries_def)
  have e: "map_of palette_entries c = Some p \<Longrightarrow> p \<in> snd ` set palette_entries" for c p
    by (metis image_eqI map_of_SomeD snd_conv)
  show ?thesis using d e by (auto simp: pslog_palette_by_name_def Let_def split: option.split)
qed

lemma entry_names: "map fst palette_entries =
    [''ayu-light'', ''ayu-mirage'', ''catppuccin-mocha'', ''default'', ''dracula'', ''everforest'', ''everforest-light'', ''github-dark'', ''github-light'', ''gruvbox'', ''gruvbox-light'', ''horizon'', ''iosvkem'',
     ''kanagawa'', ''monokai-vibrant'', ''night-owl'', ''nord'', ''oceanic-next'', ''one-dark'', ''one-dark-aurora'', ''one-light'', ''outrun-electric'', ''palenight'', ''papercolor-dark'', ''papercolor-light'',
     ''rose-pine'', ''rose-pine-dawn'', ''solarized-dark'', ''solarized-light'', ''solarized-nightfall'',
     ''synthwave-84'', ''tokyo-night'']"
  by (simp add: palette_entries_def)

lemma names_distinct: "distinct (map fst palette_entries)"
  unfolding entry_names by simp

lemma names_normal: "list_all (\<lambda>n. normalize_name (Some n) 64 = n \<and> n \<noteq> [] \<and> map_of palette_aliases n = None) (map fst palette_entries)"
  unfolding entry_names by code_simp

lemma aliases_normal: "list_all (\<lambda>(a, n). normalize_name (Some a) 64 = a \<and> a \<noteq> [] \<and> map_of palette_aliases a = Some n) palette_aliases"
  by code_simp

lemma aliases_known: "set (map snd palette_aliases) \<subseteq> set (map fst palette_entries)"
  unfolding entry_names by (simp add: palette_aliases_def)

lemma by_name_of_entry: "(n, p) \<in> set palette_entries \<Longrightarrow> pslog_palette_by_name (Some n) = p"
  using names_normal names_distinct by (fastforce simp: pslog_palette_by_name_def list_all_iff Let_def)

lemma by_name_of_alias:
  assumes "(a, n) \<in> set palette_aliases"
  shows "pslog_palette_by_name (Some a) = pslog_palette_by_name (Some n)"
proof -
  have "n \<in> set (map fst palette_entries)" using aliases_known assms by force
  with names_normal have "normalize_name (Some n) 64 = n" "n \<noteq> []" "map_of palette_aliases n = None"
    by (auto simp: list_all_iff)
  moreover have "normalize_name (Some a) 64 = a" "a \<noteq> []" "map_of palette_aliases a = Some n"
    using aliases_normal assms by (auto simp: list_all_iff)
  ultimately show ?thesis by (simp add: pslog_palette_by_name_def Let_def)
qed

lemma normalize_loop_fold:
  "map fold_char s = map fold_char t \<Longrightarrow> normalize_loop n s dst = normalize_loop n t dst"
proof (induction s arbitrary: t dst)
  case (Cons c s)
  then obtain d u where "t = d # u" "fold_char c = fold_char d" "map fold_char s = map fold_char u" by (cases t) auto
  with Cons.IH show ?case by (simp add: Let_def)
qed simp

section \<open>Properties\<close>



end
