(* ===== verification/JsonLine.thy ===== *)
theory JsonLine
  imports EmitJson Palettes
begin

text \<open>
  What a consumer gets from a JSON line: a reader of RFC 8259 objects with scalar members, and the
  proof that the emitted lines are objects with exactly the members of the log call.
\<close>

section \<open>A reader of flat objects\<close>

datatype json_value = J_null | J_bool bool | J_number string | J_string "nat list"

definition json_int :: "string \<Rightarrow> bool" where
  "json_int t = (t = ''0'' \<or> t \<noteq> [] \<and> hd t \<noteq> CHR ''0'' \<and> list_all is_digit t)"

definition json_frac :: "string \<Rightarrow> bool" where
  "json_frac t = (case t of [] \<Rightarrow> True | c # d \<Rightarrow> c = CHR ''.'' \<and> d \<noteq> [] \<and> list_all is_digit d)"

definition exp_mark :: "char \<Rightarrow> bool" where
  "exp_mark c = (c = CHR ''e'' \<or> c = CHR ''E'')"

definition json_exp :: "string \<Rightarrow> bool" where
  "json_exp t = (case t of [] \<Rightarrow> True | c # d \<Rightarrow> exp_mark c \<and>
     (case d of [] \<Rightarrow> False | s # e \<Rightarrow>
        if s = CHR ''+'' \<or> s = CHR ''-'' then e \<noteq> [] \<and> list_all is_digit e else list_all is_digit d))"

definition json_number :: "string \<Rightarrow> bool" where
  "json_number t =
     (let u = (if t \<noteq> [] \<and> hd t = CHR ''-'' then tl t else t); r = dropWhile is_digit u
      in json_int (takeWhile is_digit u) \<and> json_frac (takeWhile (\<lambda>c. \<not> exp_mark c) r) \<and>
         json_exp (dropWhile (\<lambda>c. \<not> exp_mark c) r))"

definition number_char :: "char \<Rightarrow> bool" where
  "number_char c = (is_digit c \<or> exp_mark c \<or> c = CHR ''.'' \<or> c = CHR ''+'' \<or> c = CHR ''-'')"

definition json_read_value :: "string \<Rightarrow> (json_value \<times> string) option" where
  "json_read_value t =
     (if t \<noteq> [] \<and> hd t = dquote then map_option (apfst J_string) (json_read_string (tl t))
      else if take 4 t = ''null'' then Some (J_null, drop 4 t)
      else if take 4 t = ''true'' then Some (J_bool True, drop 4 t)
      else if take 5 t = ''false'' then Some (J_bool False, drop 5 t)
      else if json_number (takeWhile number_char t)
      then Some (J_number (takeWhile number_char t), dropWhile number_char t)
      else None)"

text \<open>Members up to the closing brace, started behind the opening one.\<close>

function json_read_members :: "string \<Rightarrow> ((nat list \<times> json_value) list \<times> string) option" where
  "json_read_members t =
     (if t = [] \<or> hd t \<noteq> dquote then None
      else case json_read_string (tl t) of
        None \<Rightarrow> None
      | Some (k, u) \<Rightarrow>
          if u = [] \<or> hd u \<noteq> CHR '':'' then None
          else case json_read_value (tl u) of
            None \<Rightarrow> None
          | Some (v, w) \<Rightarrow>
              if w = [] then None
              else if hd w = CHR ''}'' then Some ([(k, v)], tl w)
              else if hd w = CHR '','' \<and> length w < length t
              then map_option (apfst ((#) (k, v))) (json_read_members (tl w))
              else None)"
  by pat_completeness auto
termination
  by (relation "measure length") auto

declare json_read_members.simps [simp del]

definition json_read_object :: "string \<Rightarrow> ((nat list \<times> json_value) list \<times> string) option" where
  "json_read_object t =
     (case t of [] \<Rightarrow> None
      | c # r \<Rightarrow> if c \<noteq> CHR ''{'' then None
          else if r \<noteq> [] \<and> hd r = CHR ''}'' then Some ([], tl r) else json_read_members r)"

section \<open>Numbers\<close>

lemma json_frac_chars: "json_frac t \<Longrightarrow> c \<in> set t \<Longrightarrow> number_char c"
  by (auto simp: json_frac_def number_char_def list_all_iff split: list.splits)

lemma json_exp_chars: "json_exp t \<Longrightarrow> c \<in> set t \<Longrightarrow> number_char c"
  by (auto simp: json_exp_def number_char_def list_all_iff split: list.splits if_splits)

lemma json_number_chars: "json_number t \<Longrightarrow> c \<in> set t \<Longrightarrow> number_char c"
proof -
  assume a: "json_number t" "c \<in> set t"
  define u where "u = (if t \<noteq> [] \<and> hd t = CHR ''-'' then tl t else t)"
  define r where "r = dropWhile is_digit u"
  have "c = CHR ''-'' \<or> c \<in> set u" using a(2) by (cases t) (auto simp: u_def)
  then consider "c = CHR ''-''" | "c \<in> set (takeWhile is_digit u)" | "c \<in> set r"
    unfolding r_def by (metis Un_iff set_append takeWhile_dropWhile_id)
  then show "number_char c"
  proof cases
    case 3
    then have "c \<in> set (takeWhile (\<lambda>c. \<not> exp_mark c) r) \<or> c \<in> set (dropWhile (\<lambda>c. \<not> exp_mark c) r)"
      by (metis Un_iff set_append takeWhile_dropWhile_id)
    with a(1) json_frac_chars json_exp_chars show ?thesis
      unfolding json_number_def Let_def u_def r_def by blast
  qed (auto simp: number_char_def dest: set_takeWhileD)
qed

lemma json_number_head: "json_number t \<Longrightarrow> t \<noteq> [] \<and> (hd t = CHR ''-'' \<or> is_digit (hd t))"
  by (cases t) (auto simp: json_number_def json_int_def Let_def split: if_splits)

lemma json_number_read:
  assumes "json_number n" "r \<noteq> []" "\<not> number_char (hd r)"
  shows "json_read_value (n @ r) = Some (J_number n, r)"
proof -
  have tw: "takeWhile number_char (n @ r) = n" "dropWhile number_char (n @ r) = r"
    using assms json_number_chars [OF assms(1)] by (cases r; simp add: takeWhile_append2 dropWhile_append2)+
  obtain c m where n: "n = c # m" "c = CHR ''-'' \<or> is_digit c" using json_number_head [OF assms(1)] by (cases n) auto
  then have "c \<noteq> dquote" "c \<noteq> CHR ''n''" "c \<noteq> CHR ''t''" "c \<noteq> CHR ''f''" by (auto simp: is_digit_def)
  with n tw assms(1) show ?thesis by (simp add: json_read_value_def)
qed

lemma nat_digits_head: "hd (nat_digits n) = CHR ''0'' \<Longrightarrow> n = 0"
proof (induction n rule: nat_digits.induct)
  case (1 n)
  show ?case
  proof (cases "n < 10")
    case True
    with 1(2) have "uc (digit_char n) = 48" by (subst (asm) nat_digits.simps) simp
    with True show ?thesis by (simp add: uc_digit_char)
  next
    case False
    with 1(2) have "hd (nat_digits (n div 10)) = CHR ''0''" by (subst (asm) nat_digits.simps) (simp add: hd_append)
    with 1(1) False show ?thesis by simp
  qed
qed

lemma nat_digits_0: "nat_digits 0 = ''0''"
  by code_simp

lemma json_int_digits: "json_int (nat_digits n)"
  using nat_digits_head [of n] nat_digits_all [of _ n] nat_digits_0 by (cases "n = 0") (auto simp: json_int_def list_all_iff)

lemma json_number_digits [simp]: "json_number (nat_digits n)"
proof -
  have "\<not> is_digit CHR ''-''" by (simp add: is_digit_def)
  then have "hd (nat_digits n) \<noteq> CHR ''-''" using nat_digits_all [of "hd (nat_digits n)" n] by auto
  then show ?thesis using nat_digits_all [of _ n] json_int_digits [of n]
    by (simp add: json_number_def json_frac_def json_exp_def takeWhile_eq_all_conv [THEN iffD2] dropWhile_eq_Nil_conv [THEN iffD2])
qed

lemma json_number_int_digits [simp]: "json_number (int_digits i)"
proof (cases "i < 0")
  case True
  have "\<not> is_digit CHR ''-''" by (simp add: is_digit_def)
  then have "hd (nat_digits n) \<noteq> CHR ''-''" for n using nat_digits_all [of "hd (nat_digits n)" n] by auto
  with True json_number_digits [of "nat (- i)"] show ?thesis by (simp add: int_digits_def json_number_def)
qed (simp add: int_digits_def)

section \<open>Members\<close>

definition closes :: "string \<Rightarrow> bool" where
  "closes r = (r \<noteq> [] \<and> hd r \<in> {CHR '','', CHR ''}''})"

lemma closes_simps [simp]: "closes (CHR '','' # r)" "closes (CHR ''}'' # r)" "closes r \<Longrightarrow> r \<noteq> []" "closes r \<Longrightarrow> \<not> number_char (hd r)"
  by (auto simp: closes_def number_char_def is_digit_def exp_mark_def)

definition value_reads :: "string \<Rightarrow> json_value \<Rightarrow> bool" where
  "value_reads b v = (\<forall>r. closes r \<longrightarrow> json_read_value (b @ r) = Some (v, r))"

definition member_reads :: "string \<Rightarrow> nat list \<times> json_value \<Rightarrow> bool" where
  "member_reads b m = (\<exists>kb vb. b = dquote # kb @ '':'' @ vb \<and>
     (\<forall>r. json_read_string (kb @ r) = Some (fst m, r)) \<and> value_reads vb (snd m))"

lemma quote_reads: "safe_text t \<Longrightarrow> json_read_string ((t @ [dquote]) @ r) = Some (text_codepoints t, r)"
  using json_read_trusted [of t r] by (simp add: safe_text_def)

lemma value_reads_simps [intro]:
  "safe_text t \<Longrightarrow> value_reads (quote t) (J_string (text_codepoints t))"
  "value_reads (json_string_bytes t) (J_string (text_codepoints t))"
  "value_reads (maybe_trusted_bytes t) (J_string (text_codepoints t))"
  "json_number n \<Longrightarrow> value_reads n (J_number n)"
  "value_reads ''null'' J_null" "value_reads ''true'' (J_bool True)" "value_reads ''false'' (J_bool False)"
proof -
  show q: "value_reads (quote t) (J_string (text_codepoints t))" if "safe_text t"
    using quote_reads [OF that] by (simp add: value_reads_def quote_def json_read_value_def)
  show j: "value_reads (json_string_bytes t) (J_string (text_codepoints t))"
    using json_read_body [of t] by (simp add: value_reads_def json_string_bytes_def json_read_value_def)
  show "value_reads (maybe_trusted_bytes t) (J_string (text_codepoints t))"
    using q j by (simp add: maybe_trusted_bytes_def quote_def)
  show "json_number n \<Longrightarrow> value_reads n (J_number n)"
    by (simp add: value_reads_def json_number_read)
  show "value_reads ''null'' J_null" "value_reads ''true'' (J_bool True)" "value_reads ''false'' (J_bool False)"
    by (simp_all add: value_reads_def json_read_value_def)
qed

lemma member_reads_quote:
  "safe_text k \<Longrightarrow> value_reads vb v \<Longrightarrow> member_reads (quote k @ '':'' @ vb) (text_codepoints k, v)"
  unfolding member_reads_def using quote_reads by (intro exI [where x = "k @ [dquote]"] exI [where x = vb]) (simp add: quote_def)

lemma member_reads_escaped:
  "value_reads vb v \<Longrightarrow> member_reads (json_string_bytes k @ '':'' @ vb) (text_codepoints k, v)"
  unfolding member_reads_def using json_read_body
  by (intro exI [where x = "json_body k @ [dquote]"] exI [where x = vb]) (simp add: json_string_bytes_def)

lemma read_member:
  assumes "member_reads b m" "closes r"
  shows "json_read_members (b @ r) =
    (if hd r = CHR ''}'' then Some ([m], tl r) else map_option (apfst ((#) m)) (json_read_members (tl r)))"
proof -
  obtain kb vb where b: "b = dquote # kb @ '':'' @ vb" "\<And>r. json_read_string (kb @ r) = Some (fst m, r)"
    "\<And>r. closes r \<Longrightarrow> json_read_value (vb @ r) = Some (snd m, r)"
    using assms(1) by (auto simp: member_reads_def value_reads_def)
  show ?thesis
    using b assms(2) by (subst json_read_members.simps) (auto simp: closes_def)
qed

text \<open>The members of an object, every one but the first behind a comma.\<close>

definition comma_all :: "string list \<Rightarrow> string" where
  "comma_all bs = concat (map ((#) CHR '','') bs)"

lemma comma_all_simps [simp]: "comma_all [] = []" "comma_all (b # bs) = CHR '','' # b @ comma_all bs"
  "comma_all (bs @ cs) = comma_all bs @ comma_all cs"
  by (simp_all add: comma_all_def)

lemma read_members:
  assumes "member_reads b m" "list_all2 member_reads bs ms"
  shows "json_read_members (b @ comma_all bs @ CHR ''}'' # rest) = Some (m # ms, rest)"
  using assms(2,1)
proof (induction bs ms arbitrary: b m rule: list_all2_induct)
  case Nil
  then show ?case using read_member [of b m "CHR ''}'' # rest"] by simp
next
  case (Cons b' bs m' ms)
  with read_member [of b m "CHR '','' # b' @ comma_all bs @ CHR ''}'' # rest"] show ?case by simp
qed

lemma read_object:
  assumes "member_reads b m" "list_all2 member_reads bs ms"
  shows "json_read_object (''{'' @ b @ comma_all bs @ ''}'' @ rest) = Some (m # ms, rest)"
proof -
  have "hd b \<noteq> CHR ''}''" "b \<noteq> []" using assms(1) by (auto simp: member_reads_def)
  with read_members [OF assms, of rest] show ?thesis by (simp add: json_read_object_def)
qed

section \<open>What a field means\<close>

definition json_value_of :: "libc \<Rightarrow> shared_cfg \<Rightarrow> pslog_value \<Rightarrow> json_value" where
  "json_value_of X cfg v =
     (case v of
        V_null \<Rightarrow> J_null
      | V_string sv \<Rightarrow> J_string (text_codepoints (or_empty sv))
      | V_signed n \<Rightarrow> J_number (int_digits (sint n))
      | V_unsigned n \<Rightarrow> J_number (nat_digits (unat n))
      | V_double d \<Rightarrow>
          if pslog_double_is_nan d \<or> pslog_double_is_inf d
          then (if c_non_finite_float_policy cfg = NON_FINITE_FLOAT_AS_NULL then J_null
                else J_string (text_codepoints (if pslog_double_is_nan d then ''NaN'' else inf_text d)))
          else J_number (double_text X d)
      | V_bool b \<Rightarrow> J_bool b
      | V_pointer a \<Rightarrow> J_string (text_codepoints (lc_fmt_pointer X a))
      | V_bytes data \<Rightarrow> J_string (text_codepoints (hex_bytes data))
      | V_time t \<Rightarrow> J_string (text_codepoints (time_text X t))
      | V_duration d \<Rightarrow> J_string (text_codepoints (duration_text X d))
      | V_errno e \<Rightarrow> J_string (text_codepoints (pslog_errno_string X (int_of_errno e) 128)))"

text \<open>
  What the C library promises of its number formats: \<open>%.17g\<close> of a finite value is a short decimal
  number up to the decimal separator of the locale, and \<open>%.3f\<close> and \<open>%p\<close> print plain ASCII.
\<close>

definition plain_ascii :: "string \<Rightarrow> bool" where
  "plain_ascii t = (\<forall>c \<in> set t. uc c < 0x80 \<and> \<not> unsafe_byte (uc c))"

definition formats_ok :: "libc \<Rightarrow> bool" where
  "formats_ok X =
     ((\<forall>v. \<not> pslog_double_is_nan v \<and> \<not> pslog_double_is_inf v \<longrightarrow>
        json_number (replace_first_comma (lc_fmt_g17 X v)) \<and> length (lc_fmt_g17 X v) < 64) \<and>
      (\<forall>a b c. plain_ascii (lc_fmt_f3 X a b c)) \<and> (\<forall>p. plain_ascii (lc_fmt_pointer X p)))"

lemma plain_ascii_safe: "plain_ascii t \<Longrightarrow> safe_text t"
  by (simp add: plain_ascii_def ascii_safe)

lemma plain_ascii_append [simp]: "plain_ascii (a @ b) = (plain_ascii a \<and> plain_ascii b)"
  "plain_ascii (c # t) = ((uc c < 0x80 \<and> \<not> unsafe_byte (uc c)) \<and> plain_ascii t)" "plain_ascii []"
  by (auto simp: plain_ascii_def)

lemma plain_ascii_digits [simp]: "plain_ascii (nat_digits n)" "plain_ascii (int_digits i)"
proof -
  show n: "plain_ascii (nat_digits n)" for n
    unfolding plain_ascii_def
  proof
    fix c assume "c \<in> set (nat_digits n)"
    from nat_digits_all [OF this] show "uc c < 0x80 \<and> \<not> unsafe_byte (uc c)" by (simp add: is_digit_def unsafe_byte_def)
  qed
  show "plain_ascii (int_digits i)" by (simp add: int_digits_def n unsafe_byte_def)
qed

lemma plain_ascii_zpad [simp]: "plain_ascii (zpad w t) = plain_ascii t" "plain_ascii (two_digits i)"
proof -
  show z: "plain_ascii (zpad w t) = plain_ascii t" for w t by (auto simp: zpad_def plain_ascii_def unsafe_byte_def)
  show "plain_ascii (two_digits i)" by (simp add: two_digits_def z)
qed

lemma plain_ascii_hex [simp]: "plain_ascii (hex_bytes data)"
proof (induction data)
  case (Cons c data)
  then show ?case using uc_hex_hi [of c] uc_hex_lo [of c] by (auto simp: hex_bytes_def unsafe_byte_def)
qed (simp add: hex_bytes_def)

lemma plain_ascii_strip: "plain_ascii t \<Longrightarrow> plain_ascii (strip_zeros t)"
proof (induction t rule: strip_zeros.induct)
  case (1 t)
  have "plain_ascii (butlast t)" using 1(2) by (auto simp: plain_ascii_def dest: in_set_butlastD)
  with 1 show ?case by (subst strip_zeros.simps) simp
qed

lemma plain_ascii_time: "plain_ascii (time_text X t)"
  by (auto simp: time_text_def c_strftime_def iso_text_def frac_text_def offset_text_def unsafe_byte_def plain_ascii_strip Let_def
      split: option.split)

lemma safe_append_ascii: "plain_ascii a \<Longrightarrow> safe_text b \<Longrightarrow> safe_text (a @ b)"
proof (induction a)
  case (Cons c a)
  then have "valid_utf8 (a @ b)" "uc c < 0x80" by (simp_all add: safe_text_def)
  then have "valid_utf8 ((c # a) @ b)" using valid_utf8_step [of "(c # a) @ b"] by (simp add: seq_len_ascii)
  with Cons show ?case by (auto simp: safe_text_def)
qed simp

lemma micro_safe: "safe_text micro_suffix"
proof -
  have "valid_utf8 micro_suffix"
  proof -
    have "micro_suffix = concat (map utf8_encode [0xB5, 0x73])" by code_simp
    then show ?thesis unfolding valid_utf8_def
      by (intro exI [where x = "[0xB5, 0x73]"]) (simp add: scalar_value_def)
  qed
  then show ?thesis by (simp add: safe_text_def micro_suffix_def unsafe_byte_def)
qed

lemma duration_safe: "formats_ok X \<Longrightarrow> safe_text (duration_text X d)"
proof -
  assume X: "formats_ok X"
  obtain neg sec ns where d: "duration_split d = (neg, sec, ns)" by (cases "duration_split d")
  have f: "plain_ascii (lc_fmt_f3 X a b c)" for a b c using X by (simp add: formats_ok_def)
  let ?m = "if neg then ''-'' else []"
  have m: "plain_ascii ?m" by (simp add: unsafe_byte_def)
  have "safe_text ((?m @ lc_fmt_f3 X 0 ns 1000) @ micro_suffix)"
    using m f micro_safe by (intro safe_append_ascii) simp_all
  then show ?thesis
    using m f by (auto simp: duration_text_def d Let_def unsafe_byte_def intro!: plain_ascii_safe)
qed

lemma double_number:
  assumes "formats_ok X" "\<not> pslog_double_is_nan v" "\<not> pslog_double_is_inf v"
  shows "json_number (double_text X v)"
proof -
  have n: "json_number (replace_first_comma (lc_fmt_g17 X v))" "length (lc_fmt_g17 X v) < 64"
    using assms by (simp_all add: formats_ok_def)
  then have "lc_fmt_g17 X v \<noteq> []" using json_number_head by fastforce
  with n assms show ?thesis by (simp add: double_text_def pslog_format_double_ascii_def)
qed

lemma value_reads_field:
  assumes "formats_ok X" "value_ok f"
  shows "value_reads (json_value_bytes X cfg f) (json_value_of X cfg (f_value f))"
proof (cases "f_value f")
  case (V_string sv)
  then have "or_empty (map_option (take (f_value_len f)) sv) = or_empty sv" "f_trusted_value f \<Longrightarrow> safe_text (or_empty sv)"
    using assms(2) by (cases sv; simp add: value_ok_def)+
  with V_string show ?thesis by (auto simp: json_value_bytes_def json_value_of_def Let_def)
next
  case (V_double d)
  have "safe_text ''NaN''" "safe_text (inf_text d)" by (auto intro!: ascii_safe simp: inf_text_def unsafe_byte_def)
  with V_double double_number [OF assms(1), of d] show ?thesis
    by (auto simp: json_value_bytes_def json_value_of_def json_double_bytes_def)
next
  case (V_pointer a)
  have "safe_text (lc_fmt_pointer X a)" using assms(1) by (intro plain_ascii_safe) (simp add: formats_ok_def)
  with V_pointer show ?thesis by (auto simp: json_value_bytes_def json_value_of_def)
next
  case (V_time t)
  with plain_ascii_safe [OF plain_ascii_time] show ?thesis by (auto simp: json_value_bytes_def json_value_of_def)
next
  case (V_bytes data)
  with plain_ascii_safe [OF plain_ascii_hex] show ?thesis by (auto simp: json_value_bytes_def json_value_of_def)
qed (use duration_safe [OF assms(1)] in \<open>auto simp: json_value_bytes_def json_value_of_def\<close>)

definition field_member :: "libc \<Rightarrow> shared_cfg \<Rightarrow> pslog_field \<Rightarrow> nat list \<times> json_value" where
  "field_member X cfg f = (text_codepoints (field_key f), json_value_of X cfg (f_value f))"

lemma member_reads_field:
  assumes "formats_ok X" "field_ok f" "has_key f"
  shows "member_reads (json_member X cfg no_palette f) (field_member X cfg f)"
proof -
  have v: "value_reads (json_value_bytes X cfg f) (json_value_of X cfg (f_value f))"
    using assms(1,2) by (intro value_reads_field) (simp_all add: field_ok_def)
  obtain a k where k: "f_key f = Some (a, k)" using assms(3) by (auto simp: has_key_def split: option.splits)
  show ?thesis
  proof (cases "f_trusted_key f")
    case True
    then have "safe_text (field_key f)" using assms(2) k by (simp add: field_ok_def key_ok_def field_key_def)
    from member_reads_quote [OF this v] True show ?thesis
      by (simp add: json_member_def json_key_bytes_def json_value_text_plain field_member_def)
  next
    case False
    then have "field_key f = k" using assms(2) k by (simp add: field_ok_def key_ok_def field_key_def)
    with member_reads_escaped [OF v, of k] False k show ?thesis
      by (simp add: json_member_def json_key_bytes_def json_value_text_plain field_member_def key_string_def)
  qed
qed

lemma json_members_commas:
  "json_members X cfg p fs False = comma_all (map (json_member X cfg p) (filter has_key fs))"
  by (induction fs) (simp_all add: comma_def)

lemma members_read:
  assumes "formats_ok X" "list_all field_ok fs"
  shows "list_all2 member_reads (map (json_member X cfg no_palette) (filter has_key fs))
    (map (field_member X cfg) (filter has_key fs))"
  using assms by (induction fs) (simp_all add: member_reads_field)

section \<open>What a line means\<close>

definition name_member :: "string \<Rightarrow> string \<Rightarrow> nat list \<times> json_value" where
  "name_member k t = (text_codepoints k, J_string (text_codepoints t))"

definition stamp_members :: "libc \<Rightarrow> shared_cfg \<Rightarrow> int \<times> int \<Rightarrow> (nat list \<times> json_value) list" where
  "stamp_members X cfg clock = (if c_timestamps cfg then [name_member (time_key_name cfg) (timestamp_text X cfg clock)] else [])"

definition message_members :: "shared_cfg \<Rightarrow> cstring option \<Rightarrow> (nat list \<times> json_value) list" where
  "message_members cfg msg = (if or_empty msg = [] then [] else [name_member (message_key cfg) (or_empty msg)])"

definition level_members :: "pslog_logger_impl \<Rightarrow> (nat list \<times> json_value) list" where
  "level_members impl =
     (if i_include_level_field impl then [name_member ''loglevel'' (pslog_level_string (i_min_level impl))] else [])"

text \<open>The members a call promises, in this order.\<close>

definition call_members ::
  "libc \<Rightarrow> shared_cfg \<Rightarrow> pslog_logger_impl \<Rightarrow> pslog_level \<Rightarrow> cstring option \<Rightarrow> pslog_field list \<Rightarrow> int \<times> int \<Rightarrow>
     (nat list \<times> json_value) list" where
  "call_members X cfg impl level msg flds clock =
     stamp_members X cfg clock @ [name_member (level_key cfg) (pslog_level_string (slot_level level))] @
     message_members cfg msg @ map (field_member X cfg) (filter has_key (i_fields impl @ flds)) @ level_members impl"

lemma level_string_ascii: "plain_ascii (pslog_level_string level)"
  by (cases level) (simp_all add: unsafe_byte_def)

lemma key_names_ascii: "plain_ascii (time_key_name cfg)" "plain_ascii (level_key cfg)" "plain_ascii (message_key cfg)"
  by (simp_all add: time_key_name_def level_key_def message_key_def unsafe_byte_def)

lemma name_member_reads:
  assumes "plain_ascii k"
  shows "value_reads b (J_string (text_codepoints t)) \<Longrightarrow> member_reads (quote k @ '':'' @ b) (name_member k t)"
    and "plain_ascii t \<Longrightarrow> member_reads (quote k @ '':'' @ quote t) (name_member k t)"
    and "safe_text t \<Longrightarrow> member_reads (quote k @ '':'' @ quote t) (name_member k t)"
  using member_reads_quote [OF plain_ascii_safe [OF assms]] plain_ascii_safe [of t] value_reads_simps(1) [of t]
  by (auto simp: name_member_def)

lemma object_reads:
  assumes X: "formats_ok X" and stamp: "c_timestamps cfg \<longrightarrow> safe_text (timestamp_text X cfg clock)"
    and own: "list_all field_ok (i_fields impl)" and bs: "list_all2 member_reads bs ms"
  shows "json_read_object (json_object_text X cfg no_palette impl level msg (comma_all bs) clock) =
    Some (stamp_members X cfg clock @ [name_member (level_key cfg) (pslog_level_string level)] @
      message_members cfg msg @ map (field_member X cfg) (filter has_key (i_fields impl)) @ ms @ level_members impl, [CHR 0x0A])"
proof -
  let ?level = "quote (level_key cfg) @ '':'' @ quote (pslog_level_string level)"
  let ?stamp = "quote (time_key_name cfg) @ '':'' @ quote (timestamp_text X cfg clock)"
  define mb where "mb = (if or_empty msg = [] then [] else [quote (message_key cfg) @ '':'' @ maybe_trusted_bytes (or_empty msg)])"
  define lb where "lb = (if i_include_level_field impl then [quote ''loglevel'' @ '':'' @ quote (pslog_level_string (i_min_level impl))] else [])"
  define ob where "ob = map (json_member X cfg no_palette) (filter has_key (i_fields impl))"
  have l: "member_reads ?level (name_member (level_key cfg) (pslog_level_string level))"
    by (rule name_member_reads(2) [OF key_names_ascii(2) level_string_ascii])
  have m: "list_all2 member_reads mb (message_members cfg msg)"
    using name_member_reads(1) [OF key_names_ascii(3)] by (auto simp: mb_def message_members_def)
  have lv: "list_all2 member_reads lb (level_members impl)"
    using name_member_reads(2) [of "''loglevel''", OF _ level_string_ascii] by (auto simp: lb_def level_members_def unsafe_byte_def)
  have o: "list_all2 member_reads ob (map (field_member X cfg) (filter has_key (i_fields impl)))"
    unfolding ob_def by (rule members_read [OF X own])
  note tail = list_all2_appendI [OF m list_all2_appendI [OF o list_all2_appendI [OF bs lv]]]
  have text_eq: "json_object_text X cfg no_palette impl level msg (comma_all bs) clock =
      ''{'' @ (if c_timestamps cfg then ?stamp @ '','' else []) @ ?level @ comma_all (mb @ ob @ bs @ lb) @ ''}'' @ [CHR 0x0A]"
    by (auto simp: json_object_text_def json_head_text_def timestamp_head_def level_member_def message_text_def message_head_def
        level_field_text_def json_members_commas mb_def ob_def lb_def quote_def split: option.split)
  show ?thesis
  proof (cases "c_timestamps cfg")
    case True
    have "member_reads ?stamp (name_member (time_key_name cfg) (timestamp_text X cfg clock))"
      using stamp True by (intro name_member_reads(3) [OF key_names_ascii(1)]) simp
    from read_object [OF this list_all2_Cons [THEN iffD2, OF conjI [OF l tail]]] True show ?thesis
      by (simp add: text_eq stamp_members_def)
  next
    case False
    from read_object [OF l tail] False show ?thesis by (simp add: text_eq stamp_members_def)
  qed
qed

section \<open>One call, one line\<close>

text \<open>Whatever an RFC 8259 reader accepts, it has consumed no control byte.\<close>

definition consumes :: "string \<Rightarrow> string \<Rightarrow> bool" where
  "consumes t r = (\<exists>p. t = p @ r \<and> (\<forall>c \<in> set p. 32 \<le> uc c))"

lemma consumes_step: "consumes t r \<Longrightarrow> (\<forall>c \<in> set p. 32 \<le> uc c) \<Longrightarrow> consumes (p @ t) r"
  by (auto simp: consumes_def)

lemma consumes_Cons: "consumes t r \<Longrightarrow> 32 \<le> uc c \<Longrightarrow> consumes (c # t) r"
  using consumes_step [of t r "[c]"] by simp

lemma consumes_refl: "consumes t t"
  by (simp add: consumes_def)

lemma consumes_trans: "consumes a b \<Longrightarrow> consumes b c \<Longrightarrow> consumes a c"
  by (auto simp: consumes_def)

lemma hex4_consumes: "hex4 t = Some (n, r) \<Longrightarrow> consumes t r"
proof -
  have h: "32 \<le> uc c" if "hex_value c = Some v" for c v
    using that by (auto simp: hex_value_def split: if_splits)
  assume "hex4 t = Some (n, r)"
  then obtain a b c d where "t = [a, b, c, d] @ r" "\<forall>x \<in> set [a, b, c, d]. 32 \<le> uc x"
    by (auto simp: hex4_def split: list.splits option.splits dest: h)
  then show ?thesis unfolding consumes_def by blast
qed

lemma sequence_clean:
  assumes "pslog_utf8_sequence_len_n (c # t) = n" "n \<noteq> 0" "32 \<le> uc c" "x \<in> set (take n (c # t))"
  shows "32 \<le> uc x"
proof (rule ccontr)
  assume "\<not> 32 \<le> uc x"
  then have u: "unsafe_byte (uc x)" by (simp add: unsafe_byte_def)
  obtain cp where cp: "scalar_value cp" "utf8_encode cp = take n (c # t)" using seq_len_scalar [OF assms(1,2)] by blast
  with utf8_encode_unsafe [OF cp(1) _ u] assms(4) have "take n (c # t) = [x]" by simp
  with assms(2) have "x = c" by (cases n) auto
  with assms(3) \<open>\<not> 32 \<le> uc x\<close> show False by simp
qed

lemma read_string_consumes: "json_read_string t = Some (k, r) \<Longrightarrow> consumes t r"
proof (induction t arbitrary: k rule: json_read_string.induct)
  case (2 c t)
  show ?case
  proof (cases "uc c = 34 \<or> uc c = 92")
    case True
    show ?thesis
    proof (cases "uc c = 34")
      case True
      with 2(4) show ?thesis by (simp add: json_read_string.simps(2) consumes_Cons consumes_refl)
    next
      case False
      with True have c: "uc c = 92" by simp
      obtain e t' where t: "t = e # t'" using 2(4) c by (cases t) (auto simp: json_read_string.simps(2))
      show ?thesis
      proof (cases "uc e = 117")
        case True
        obtain n u where h: "hex4 t' = Some (n, u)" using 2(4) c t True by (auto simp: json_read_string.simps(2) split: option.splits)
        with 2(4) c t True obtain k' where "json_read_string u = Some (k', r)" by (auto simp: json_read_string.simps(2))
        from 2(1) [OF False c t True h refl this] hex4_consumes [OF h] have "consumes t' r" by (rule consumes_trans [rotated])
        then show ?thesis using c t True by (auto intro!: consumes_Cons)
      next
        case nu: False
        obtain n where e: "simple_escape e = Some n" using 2(4) c t nu by (auto simp: json_read_string.simps(2) split: option.splits)
        with 2(4) c t nu obtain k' where "json_read_string t' = Some (k', r)" by (auto simp: json_read_string.simps(2))
        from 2(2) [OF False c t nu e this] have "consumes t' r" .
        moreover have "32 \<le> uc e" using e by (auto simp: simple_escape_def split: if_splits)
        ultimately show ?thesis using c t by (auto intro!: consumes_Cons)
      qed
    qed
  next
    case False
    define n where "n = pslog_utf8_sequence_len_n (c # t)"
    have c: "32 \<le> uc c" "n \<noteq> 0" using 2(4) False
      by (auto simp: json_read_string.simps(2) n_def Let_def split: if_splits)
    obtain k' where "json_read_string (drop n (c # t)) = Some (k', r)"
      using 2(4) False c by (auto simp: json_read_string.simps(2) n_def [symmetric] Let_def)
    from 2(3) [OF _ _ _ n_def c(2) this] False c have "consumes (drop n (c # t)) r" by simp
    from consumes_step [OF this, of "take n (c # t)"] sequence_clean [OF n_def [symmetric] c(2,1)] show ?thesis by simp
  qed
qed simp

lemma number_char_clean: "number_char c \<Longrightarrow> 32 \<le> uc c"
  by (auto simp: number_char_def is_digit_def exp_mark_def)

lemma read_value_consumes: "json_read_value t = Some (v, r) \<Longrightarrow> consumes t r"
proof -
  assume a: "json_read_value t = Some (v, r)"
  have k: "consumes t (drop n t)" if "take n t = w" "\<forall>c \<in> set w. 32 \<le> uc c" for n w
    using that consumes_step [OF consumes_refl, of w "drop n t"] append_take_drop_id [of n t] by simp
  have n: "consumes t (dropWhile number_char t)"
    using consumes_step [OF consumes_refl, of "takeWhile number_char t" "dropWhile number_char t"] number_char_clean
    by (auto dest: set_takeWhileD)
  show ?thesis
  proof (cases "t \<noteq> [] \<and> hd t = dquote")
    case True
    then obtain u where t: "t = dquote # u" by (cases t) auto
    with a obtain k where "json_read_string u = Some (k, r)" by (auto simp: json_read_value_def)
    from read_string_consumes [OF this] t show ?thesis by (simp add: consumes_Cons)
  next
    case False
    with a n k [of 4 "''null''"] k [of 4 "''true''"] k [of 5 "''false''"] show ?thesis
      by (auto simp: json_read_value_def split: if_splits)
  qed
qed

lemma read_members_consumes: "json_read_members t = Some (ms, r) \<Longrightarrow> consumes t r"
proof (induction t arbitrary: ms rule: json_read_members.induct)
  case (1 t)
  note m = 1(2) [unfolded json_read_members.simps [of t]]
  from m obtain t' where t: "t = dquote # t'" by (cases t) (auto split: if_splits)
  with m obtain k u where k: "json_read_string t' = Some (k, u)" by (auto split: option.splits)
  with m t obtain u' where u: "u = CHR '':'' # u'" by (cases u) (auto split: if_splits)
  with m t k obtain v w where v: "json_read_value u' = Some (v, w)" by (auto split: option.splits)
  with m t k u obtain d w' where w: "w = d # w'" by (cases w) auto
  have "consumes w r"
  proof (cases "d = CHR ''}''")
    case True
    with m t k u v w show ?thesis by (auto simp: consumes_Cons consumes_refl)
  next
    case False
    with m t k u v w have d: "d = CHR '',''" "length w < length t" by (auto split: if_splits)
    with m t k u v w obtain ms' where "json_read_members w' = Some (ms', r)" by auto
    with 1(1) [of "(k, u)" k u "(v, w)" v w ms'] t k u v w d have "consumes w' r" by simp
    with w d show ?thesis by (simp add: consumes_Cons)
  qed
  with read_value_consumes [OF v] have "consumes u' r" by (rule consumes_trans)
  then have "consumes u r" using u by (simp add: consumes_Cons)
  with read_string_consumes [OF k] have "consumes t' r" by (rule consumes_trans)
  then show ?case using t by (simp add: consumes_Cons)
qed

lemma read_object_consumes: "json_read_object t = Some (ms, r) \<Longrightarrow> consumes t r"
proof -
  assume a: "json_read_object t = Some (ms, r)"
  then obtain u where t: "t = CHR ''{'' # u" by (cases t) (auto simp: json_read_object_def split: if_splits)
  have "consumes u r"
  proof (cases "u \<noteq> [] \<and> hd u = CHR ''}''")
    case True
    with a t show ?thesis by (cases u) (auto simp: json_read_object_def intro!: consumes_Cons consumes_refl)
  next
    case False
    with a t show ?thesis by (intro read_members_consumes) (auto simp: json_read_object_def)
  qed
  with t show ?thesis by (simp add: consumes_Cons)
qed

section \<open>Colours are decoration\<close>

lemma clean_value: "value_reads b v \<Longrightarrow> \<forall>c \<in> set b. 32 \<le> uc c"
proof -
  assume "value_reads b v"
  then have "json_read_value (b @ ''}'') = Some (v, ''}'')" by (simp add: value_reads_def closes_def)
  from read_value_consumes [OF this] obtain p where "b @ ''}'' = p @ ''}''" "\<forall>c \<in> set p. 32 \<le> uc c"
    unfolding consumes_def by blast
  then show ?thesis by simp
qed

lemma strip_clean: "\<forall>c \<in> set b. 32 \<le> uc c \<Longrightarrow> strip_sgr (b @ u) = b @ strip_sgr u"
proof (rule strip_sgr_clean)
  assume "\<forall>c \<in> set b. 32 \<le> uc c"
  then show "esc \<notin> set b" by (auto simp: esc_def)
qed

lemma strip_value: "value_reads b v \<Longrightarrow> strip_sgr (b @ u) = b @ strip_sgr u"
  by (rule strip_clean [OF clean_value])

lemma strip_quote: "safe_text t \<Longrightarrow> strip_sgr (quote t @ u) = quote t @ strip_sgr u"
  by (rule strip_value [OF value_reads_simps(1)])

lemma strip_palette:
  assumes "palette_sgr p"
  shows "strip_sgr (p_key p @ u) = strip_sgr u" "strip_sgr (p_reset p @ u) = strip_sgr u"
    "strip_sgr (p_message p @ u) = strip_sgr u" "strip_sgr (p_message_key p @ u) = strip_sgr u"
    "strip_sgr (p_timestamp p @ u) = strip_sgr u"
    "strip_sgr (pslog_level_color p level @ u) = strip_sgr u" "strip_sgr (json_value_color cfg p v @ u) = strip_sgr u"
  using assms by (auto simp: palette_sgr_def json_value_color_def json_double_color_def intro!: strip_sgr_sgr
      split: pslog_value.split) (cases level; auto intro!: strip_sgr_sgr simp: sgr_def)

lemma strip_char: "c \<noteq> esc \<Longrightarrow> strip_sgr (c # u) = c # strip_sgr u"
  by simp

lemma no_value_color: "json_value_color cfg no_palette v = []"
  by (cases v) (simp_all add: json_value_color_def json_double_color_def)

lemma strip_member:
  assumes "formats_ok X" "field_ok f" "has_key f" "palette_sgr p"
  shows "strip_sgr (json_member X cfg p f @ u) = json_member X cfg no_palette f @ strip_sgr u"
proof -
  have v: "value_reads (json_value_bytes X cfg f) (json_value_of X cfg (f_value f))"
    using assms(1,2) by (intro value_reads_field) (simp_all add: field_ok_def)
  have k: "\<exists>w. value_reads (json_key_bytes f) w"
  proof (cases "f_trusted_key f")
    case True
    with assms(2,3) have "safe_text (field_key f)" by (auto simp: field_ok_def key_ok_def field_key_def has_key_def split: option.splits)
    with True show ?thesis by (auto simp: json_key_bytes_def)
  qed (auto simp: json_key_bytes_def)
  then obtain w where k: "value_reads (json_key_bytes f) w" ..
  show ?thesis
    by (simp add: json_member_def json_value_text_def strip_palette [OF assms(4)] strip_value [OF v] strip_value [OF k]
        strip_char esc_def no_value_color)
qed

lemma strip_members:
  assumes "formats_ok X" "list_all field_ok fs" "palette_sgr p"
  shows "strip_sgr (json_members X cfg p fs False @ u) = json_members X cfg no_palette fs False @ strip_sgr u"
  using assms by (induction fs) (simp_all add: strip_member comma_def strip_char esc_def)

lemma strip_level_member:
  "palette_sgr p \<Longrightarrow> plain_ascii k \<Longrightarrow> strip_sgr (level_member p k level @ u) = level_member no_palette k level @ strip_sgr u"
  by (simp add: level_member_def strip_palette strip_quote plain_ascii_safe level_string_ascii strip_char esc_def)

lemma strip_head:
  assumes "palette_sgr p" "c_timestamps cfg \<longrightarrow> safe_text (timestamp_text X cfg clock)"
  shows "strip_sgr (json_head_text X cfg p level msg clock @ u) = json_head_text X cfg no_palette level msg clock @ strip_sgr u"
proof -
  have m: "strip_sgr (message_text cfg p msg @ w) = message_text cfg no_palette msg @ strip_sgr w" for w
    using strip_value [OF value_reads_simps(3)]
    by (auto simp: message_text_def message_head_def strip_palette [OF assms(1)] strip_quote plain_ascii_safe key_names_ascii
        strip_char esc_def split: option.split)
  have t: "strip_sgr (timestamp_text X cfg clock @ dquote # w) = timestamp_text X cfg clock @ dquote # strip_sgr w"
    if "c_timestamps cfg" for w
    using strip_quote [of "timestamp_text X cfg clock" w] assms(2) that by (simp add: quote_def esc_def)
  show ?thesis
    by (auto simp: json_head_text_def timestamp_head_def strip_palette [OF assms(1)] strip_quote plain_ascii_safe key_names_ascii
        strip_level_member [OF assms(1)] m t strip_char esc_def)
qed

lemma strip_object:
  assumes "formats_ok X" "palette_sgr p" "c_timestamps cfg \<longrightarrow> safe_text (timestamp_text X cfg clock)"
    "list_all field_ok (i_fields impl)" "\<And>u. strip_sgr (members @ u) = plain @ strip_sgr u"
  shows "strip_sgr (json_object_text X cfg p impl level msg members clock) =
    json_object_text X cfg no_palette impl level msg plain clock"
proof -
  have l: "strip_sgr (level_field_text p impl @ u) = level_field_text no_palette impl @ strip_sgr u" for u
    by (simp add: level_field_text_def strip_level_member [OF assms(2)] strip_char esc_def unsafe_byte_def)
  show ?thesis
    by (simp add: json_object_text_def strip_head [OF assms(2,3)] strip_members [OF assms(1,4,2)] assms(5) l
        strip_char esc_def)
qed

lemma palette_sgr_none [simp]: "palette_sgr no_palette"
  by (simp add: palette_sgr_def no_palette_def sgr_def)

text \<open>The line of a log call with fields, with or without colours.\<close>

lemma line_reads:
  assumes "formats_ok X" "palette_sgr p" "c_timestamps cfg \<longrightarrow> safe_text (timestamp_text X cfg clock)"
    "list_all field_ok (i_fields impl)" "list_all field_ok flds"
  shows "json_read_object (strip_sgr (json_line_text X cfg p impl (slot_level level) msg flds clock)) =
    Some (call_members X cfg impl level msg flds clock, [CHR 0x0A])"
proof -
  have "strip_sgr (json_line_text X cfg p impl (slot_level level) msg flds clock) =
      json_line_text X cfg no_palette impl (slot_level level) msg flds clock"
    unfolding json_line_text_def using assms by (intro strip_object strip_members) simp_all
  with object_reads [OF assms(1,3,4) members_read [OF assms(1,5)], of "slot_level level" msg] show ?thesis
    by (simp add: json_line_text_def json_members_commas call_members_def)
qed

lemma line_strip:
  assumes "formats_ok X" "palette_sgr p" "c_timestamps cfg \<longrightarrow> safe_text (timestamp_text X cfg clock)"
    "list_all field_ok (i_fields impl)" "list_all field_ok flds"
  shows "strip_sgr (json_line_text X cfg p impl level msg flds clock) = json_line_text X cfg no_palette impl level msg flds clock"
  unfolding json_line_text_def using assms by (intro strip_object strip_members) simp_all

lemma used_palette_sgr: "palette_sgr (c_palette cfg) \<Longrightarrow> palette_sgr (used_palette cfg)"
  by (simp add: used_palette_def)

lemma object_text_ends: "\<exists>t. json_object_text X cfg p impl level msg ms clock = t @ [CHR 0x0A]"
  by (simp add: json_object_text_def)

lemma reads_one_line: "json_read_object (t @ [CHR 0x0A]) = Some (ms, [CHR 0x0A]) \<Longrightarrow> \<forall>c \<in> set t. 32 \<le> uc c"
  using read_object_consumes by (fastforce simp: consumes_def)

text \<open>Fields from a format string.\<close>

definition spec_keys_ok :: "kvfmt_field_spec list \<Rightarrow> bool" where
  "spec_keys_ok = list_all (\<lambda>spec. spec_key spec \<noteq> [] \<and> safe_text (spec_key spec) \<and> ks_key_len spec \<le> length (snd (ks_key spec)))"

lemma direct_field_sel [simp]:
  "f_value (direct_field e spec ap) = kvfmt_value (ks_arg_type spec) e ap" "field_key (direct_field e spec ap) = spec_key spec"
  "f_value (materialize_spec mode e spec ap) = kvfmt_value (ks_arg_type spec) e ap"
  "field_key (materialize_spec mode e spec ap) = spec_key spec"
  "has_key (direct_field e spec ap) = (snd (ks_key spec) \<noteq> [])" "has_key (materialize_spec mode e spec ap) = (snd (ks_key spec) \<noteq> [])"
  by (cases "kvfmt_value (ks_arg_type spec) e ap"; cases "ks_key spec"; simp add: direct_field_def materialize_spec_def field_key_def
      spec_key_def has_key_def Let_def case_prod_beta)+

lemma kvfmt_string: "kvfmt_value ty e ap = V_string sv \<Longrightarrow> \<exists>t. sv = Some t"
  by (cases ty) auto

lemma materialize_sel [simp]:
  "f_key (materialize_spec mode e spec ap) = Some (ks_key spec)" "f_key_len (materialize_spec mode e spec ap) = ks_key_len spec"
  "f_trusted_key (materialize_spec mode e spec ap) = True"
  by (cases "kvfmt_value (ks_arg_type spec) e ap"; simp add: materialize_spec_def Let_def case_prod_beta)+

lemma materialize_string:
  assumes "kvfmt_value (ks_arg_type spec) e ap = V_string (Some t)"
  shows "f_value_len (materialize_spec MODE_JSON e spec ap) = length t"
    "f_trusted_value (materialize_spec MODE_JSON e spec ap) \<Longrightarrow> safe_text t"
    "f_console_simple_value (materialize_spec MODE_JSON e spec ap) = False"
  using assms by (auto simp: materialize_spec_def ascii_trusted_measure_spec ascii_safe Let_def)

lemma direct_fields_ok:
  assumes "spec_keys_ok [spec]"
  shows "field_ok (direct_field e spec ap)" "field_ok (materialize_spec MODE_JSON e spec ap)"
proof -
  let ?f = "materialize_spec MODE_JSON e spec ap"
  obtain a k where k: "ks_key spec = (a, k)" by (cases "ks_key spec")
  have key: "key_ok ?f" using assms by (auto simp: key_ok_def k spec_keys_ok_def spec_key_def)
  then have "key_ok (direct_field e spec ap)" by (simp add: direct_field_def key_ok_def Let_def k)
  moreover have "value_ok ?f" "value_ok (direct_field e spec ap)"
  proof -
    consider (str) t where "kvfmt_value (ks_arg_type spec) e ap = V_string (Some t)" | (other) "\<forall>sv. kvfmt_value (ks_arg_type spec) e ap \<noteq> V_string sv"
      using kvfmt_string by (metis not_None_eq)
    then have "value_ok ?f \<and> value_ok (direct_field e spec ap)"
    proof cases
      case str
      with materialize_string [OF str] show ?thesis by (simp add: value_ok_def direct_field_def Let_def)
    next
      case other
      then show ?thesis
        by (cases "kvfmt_value (ks_arg_type spec) e ap") (simp_all add: value_ok_def direct_field_def Let_def)
    qed
    then show "value_ok ?f" "value_ok (direct_field e spec ap)" by simp_all
  qed
  ultimately show "field_ok (direct_field e spec ap)" "field_ok ?f" using key by (simp_all add: field_ok_def)
qed

lemma kvfmt_members_read:
  assumes "formats_ok X" "spec_keys_ok specs" "palette_sgr p"
  shows "\<exists>bs. json_kvfmt_members X cfg no_palette e specs ap = comma_all bs \<and>
    list_all2 member_reads bs (map (field_member X cfg) (filter has_key (materialize_specs MODE_JSON e specs ap)))
    \<and> list_all field_ok (materialize_specs MODE_JSON e specs ap) \<and>
    (\<forall>u. strip_sgr (json_kvfmt_members X cfg p e specs ap @ u) = json_kvfmt_members X cfg no_palette e specs ap @ strip_sgr u)"
  using assms
proof (induction specs arbitrary: ap)
  case (Cons spec specs)
  have k: "spec_keys_ok [spec]" "spec_keys_ok specs" using Cons.prems by (simp_all add: spec_keys_ok_def)
  let ?ap = "va_next (ks_arg_type spec) ap"
  obtain bs where bs: "json_kvfmt_members X cfg no_palette e specs ?ap = comma_all bs"
    "list_all2 member_reads bs (map (field_member X cfg) (filter has_key (materialize_specs MODE_JSON e specs ?ap)))"
    "list_all field_ok (materialize_specs MODE_JSON e specs ?ap)"
    "\<And>u. strip_sgr (json_kvfmt_members X cfg p e specs ?ap @ u) = json_kvfmt_members X cfg no_palette e specs ?ap @ strip_sgr u"
    using Cons.IH [OF Cons.prems(1) k(2) Cons.prems(3), of ?ap] by blast
  have h: "has_key (direct_field e spec ap)" "snd (ks_key spec) \<noteq> []"
    using k(1) by (auto simp: spec_keys_ok_def spec_key_def)
  note f = direct_fields_ok [OF k(1), of e ap]
  have m: "member_reads (json_member X cfg no_palette (direct_field e spec ap)) (field_member X cfg (materialize_spec MODE_JSON e spec ap))"
    using member_reads_field [OF Cons.prems(1) f(1) h(1)] by (simp add: field_member_def)
  show ?case
    using bs m h f strip_member [OF Cons.prems(1) f(1) h(1) Cons.prems(3), of cfg]
    by (intro exI [where x = "json_member X cfg no_palette (direct_field e spec ap) # bs"]) (simp add: strip_char esc_def)
qed (simp add: exI [where x = "[]"])

section \<open>A concrete logger\<close>

definition demo_impl :: pslog_logger_impl where
  "demo_impl = \<lparr>i_fields = demo_fields, i_field_prefix = [], i_min_level = LEVEL_INFO, i_include_level_field = True,
     i_can_close_shared = True\<rparr>"

abbreviation fd_serving :: "64 word \<Rightarrow> int \<Rightarrow> libc \<Rightarrow> shared_cfg \<Rightarrow> est \<Rightarrow> bool" where
  "fd_serving a fd \<equiv> serving (S_fd a (Some fd)) (\<lambda>w. 0 \<le> fd \<and> all_progress w)"

lemma demo_zone: "zone_ok demo_libc"
  by (simp add: zone_ok_def pslog_local_offset_minutes_def demo_libc_def quot_def Let_def split: option.split)

lemma demo_formats: "formats_ok demo_libc"
  by (simp add: formats_ok_def demo_libc_def plain_ascii_def unsafe_byte_def json_number_def json_int_def json_frac_def
      json_exp_def is_digit_def exp_mark_def)

lemma demo_fields_ok: "list_all field_ok demo_fields"
  by (simp add: demo_fields_def pslog_str_ok make_field_ok pslog_i64_def)

definition color_cfg :: "pslog_mode \<Rightarrow> bool \<Rightarrow> shared_cfg" where
  "color_cfg mode color = (demo_cfg mode color)\<lparr>c_palette := pslog_palette_default\<rparr>"

lemma default_sgr: "palette_sgr pslog_palette_default"
  by (simp add: pslog_palette_default_def pslog_builtin_palette_default_def palette_sgr_def sgr_text_sgr)

lemma color_cfg_sel [simp]: "c_palette (color_cfg mode color) = pslog_palette_default" "c_timestamps (color_cfg mode color) = False"
  "c_color_enabled (color_cfg mode color) = color"
  by (simp_all add: color_cfg_def demo_cfg_def)

lemma demo_emit: "emit_ok demo_libc (color_cfg mode color) demo_impl LEVEL_INFO (0, 0)"
  by (simp add: emit_ok_def demo_zone clock_ok_def prefix_ok_def demo_impl_def color_cfg_def demo_cfg_def literals_ok_def
      std_level_def slot_level_def std_levels_def Let_def)

lemma demo_serving: "fd_serving 1 3 demo_libc cfg (demo_est (S_fd 1 (Some 3)) 64 (\<lambda>k. Short (k + 1)))"
  by (simp add: serving_def demo_eqs all_alloc_def all_progress_def caches_ok_def prefix_cache_ok_def timestamp_ok_def
      kvfmt_ok_def mutex_ok_def mutex_init_def)

section \<open>Properties\<close>

text \<open>
  Claim C2. A JSON log call delivers one line of JSON: on an open logger the descriptor receives, after
  what it had, a line that is free of control bytes up to its newline and that an RFC 8259 reader
  takes for one object with exactly the promised members, in order: timestamp, level, message, the
  logger's fields, the call's fields, log level. In colour the same holds of the line without its SGR
  sequences. The logger then serves the next call.
\<close>

theorem json_line_readable:
  assumes "fd_serving a fd X cfg s" "emit_ok X cfg impl level clock" "formats_ok X" "palette_sgr (c_palette cfg)"
    and "c_timestamps cfg \<longrightarrow> safe_text (timestamp_text X cfg clock)"
    and "list_all field_ok (i_fields impl)" "list_all field_ok flds"
  shows "\<exists>line t. accepted (T_fd fd) (e_world (pslog_emit_json X cfg impl level msg flds clock s)) =
        accepted (T_fd fd) (e_world s) @ line \<and>
      strip_sgr line = t @ [CHR 0x0A] \<and> (\<not> c_color_enabled cfg \<longrightarrow> line = t @ [CHR 0x0A]) \<and> (\<forall>c \<in> set t. 32 \<le> uc c) \<and>
      json_read_object (t @ [CHR 0x0A]) = Some (call_members X cfg impl level msg flds clock, [CHR 0x0A]) \<and>
      fd_serving a fd X cfg (pslog_emit_json X cfg impl level msg flds clock s)"
proof -
  let ?line = "\<lambda>p. json_line_text X cfg p impl (slot_level level) msg flds clock"
  note strip = line_strip [OF assms(3) used_palette_sgr [OF assms(4)] assms(5,6,7), of "slot_level level" msg]
  obtain t where t: "?line no_palette = t @ [CHR 0x0A]" using object_text_ends unfolding json_line_text_def by blast
  have read: "json_read_object (t @ [CHR 0x0A]) = Some (call_members X cfg impl level msg flds clock, [CHR 0x0A])"
    using line_reads [OF assms(3) used_palette_sgr [OF assms(4)] assms(5,6,7), of level msg] strip t by simp
  show ?thesis
    using emit_fd.emit_json_text [OF assms(1,2), of msg flds] strip t read reads_one_line [OF read]
    by (intro exI [where x = "?line (used_palette cfg)"] exI [where x = t]) (simp add: used_palette_def)
qed

lemma json_line_readable_witness:
  "\<exists>t. strip_sgr (accepted (T_fd 3) (e_world (pslog_emit_json demo_libc (color_cfg MODE_JSON True) demo_impl LEVEL_INFO (Some ''hi'')
        [pslog_bool (Some (0x300, ''ok'')) 1] (0, 0) (demo_est (S_fd 1 (Some 3)) 64 (\<lambda>k. Short (k + 1)))))) = t @ [CHR 0x0A] \<and>
     json_read_object (t @ [CHR 0x0A]) = Some (call_members demo_libc (color_cfg MODE_JSON True) demo_impl LEVEL_INFO (Some ''hi'')
        [pslog_bool (Some (0x300, ''ok'')) 1] (0, 0), [CHR 0x0A])"
proof -
  have f: "list_all field_ok [pslog_bool (Some (0x300, ''ok'')) 1]" by (simp add: make_field_ok pslog_bool_def)
  have eq: "accepted (T_fd 3) (e_world (demo_est (S_fd 1 (Some 3)) 64 (\<lambda>k. Short (k + 1)))) = []"
    by (simp add: demo_eqs accepted_def)
  have own: "list_all field_ok (i_fields demo_impl)" by (simp add: demo_impl_def demo_fields_ok)
  have pal: "palette_sgr (c_palette (color_cfg MODE_JSON True))" by (simp add: default_sgr)
  have st: "c_timestamps (color_cfg MODE_JSON True) \<longrightarrow> safe_text (timestamp_text demo_libc (color_cfg MODE_JSON True) (0, 0))" by simp
  obtain line t where
    "accepted (T_fd 3) (e_world (pslog_emit_json demo_libc (color_cfg MODE_JSON True) demo_impl LEVEL_INFO (Some ''hi'')
        [pslog_bool (Some (0x300, ''ok'')) 1] (0, 0) (demo_est (S_fd 1 (Some 3)) 64 (\<lambda>k. Short (k + 1))))) = [] @ line"
    "strip_sgr line = t @ [CHR 0x0A]"
    "json_read_object (t @ [CHR 0x0A]) = Some (call_members demo_libc (color_cfg MODE_JSON True) demo_impl LEVEL_INFO (Some ''hi'')
        [pslog_bool (Some (0x300, ''ok'')) 1] (0, 0), [CHR 0x0A])"
    using json_line_readable [OF demo_serving demo_emit demo_formats pal st own f, where msg = "Some ''hi''"] unfolding eq by blast
  then show ?thesis by (intro exI [where x = t]) simp
qed

text \<open>
  Claim C12. The two ways to log agree: a line whose fields come straight from a format string and its
  arguments reads as the same object as the line of the field interface with the fields that
  \<open>pslog_materialize_kvfmt_fields\<close> builds from them, in colour or not.
\<close>

theorem kvfmt_line_agrees:
  assumes "fd_serving a fd X cfg s" "emit_ok X cfg impl level clock" "formats_ok X" "palette_sgr (c_palette cfg)"
    and "c_timestamps cfg \<longrightarrow> safe_text (timestamp_text X cfg clock)" "list_all field_ok (i_fields impl)"
    and "list_all (\<lambda>spec. prepared cfg spec = spec) (ke_fields entry)" "spec_keys_ok (ke_fields entry)"
    and "pslog_materialize_kvfmt_fields (Some entry) MODE_JSON e ap = Some flds"
  shows "\<exists>line line'.
      accepted (T_fd fd) (e_world (pslog_emit_json_kvfmt X cfg impl level msg (Some entry) e ap clock s)) =
        accepted (T_fd fd) (e_world s) @ line \<and>
      accepted (T_fd fd) (e_world (pslog_emit_json X cfg impl level msg flds clock s)) =
        accepted (T_fd fd) (e_world s) @ line' \<and>
      json_read_object (strip_sgr line) = Some (call_members X cfg impl level msg flds clock, [CHR 0x0A]) \<and>
      json_read_object (strip_sgr line') = Some (call_members X cfg impl level msg flds clock, [CHR 0x0A])"
proof -
  let ?p = "used_palette cfg"
  have flds: "flds = materialize_specs MODE_JSON e (ke_fields entry) ap"
    using assms(9) by (simp add: pslog_materialize_kvfmt_fields_def split: if_splits)
  note p = used_palette_sgr [OF assms(4)]
  from kvfmt_members_read [OF assms(3,8) p, of cfg e ap]
  obtain bs where bs: "json_kvfmt_members X cfg no_palette e (ke_fields entry) ap = comma_all bs"
    "list_all2 member_reads bs (map (field_member X cfg) (filter has_key flds))" "list_all field_ok flds"
    "\<And>u. strip_sgr (json_kvfmt_members X cfg ?p e (ke_fields entry) ap @ u) =
       json_kvfmt_members X cfg no_palette e (ke_fields entry) ap @ strip_sgr u"
    unfolding flds by blast
  let ?line = "json_object_text X cfg ?p impl (slot_level level) msg (json_kvfmt_members X cfg ?p e (ke_fields entry) ap) clock"
  have "json_read_object (strip_sgr ?line) = Some (call_members X cfg impl level msg flds clock, [CHR 0x0A])"
    using strip_object [OF assms(3) p assms(5,6) bs(4)] object_reads [OF assms(3,5,6) bs(2), of "slot_level level" msg]
    by (simp add: bs(1) call_members_def)
  then show ?thesis
    using emit_fd.emit_json_kvfmt_text [OF assms(1,2), of "Some entry" msg e ap] emit_fd.emit_json_text [OF assms(1,2), of msg flds]
      assms(7) line_reads [OF assms(3) p assms(5,6) bs(3), of level msg]
    by (intro exI [where x = ?line] exI [where x = "json_line_text X cfg ?p impl (slot_level level) msg flds clock"])
      (simp add: entry_specs_def)
qed

lemma kvfmt_line_agrees_witness:
  "\<exists>line. accepted (T_fd 3) (e_world (pslog_emit_json_kvfmt demo_libc (color_cfg MODE_JSON True) demo_impl LEVEL_INFO None
        (Some \<lparr>ke_kvfmt = None, ke_kvfmt_len = 0, ke_kvfmt_hash = 0,
           ke_fields = [prepared (color_cfg MODE_JSON True) \<lparr>ks_key = (0x40, ''n=%d''), ks_key_len = 1, ks_arg_type = ARG_SIGNED_INT,
             ks_console_prefix = [], ks_json_color_prefix = []\<rparr>]\<rparr>)
        0 [A_int 7] (0, 0) (demo_est (S_fd 1 (Some 3)) 64 (\<lambda>k. Short (k + 1))))) = line \<and>
     json_read_object (strip_sgr line) \<noteq> None"
proof -
  let ?spec = "\<lparr>ks_key = (0x40, ''n=%d''), ks_key_len = 1, ks_arg_type = ARG_SIGNED_INT, ks_console_prefix = [], ks_json_color_prefix = []\<rparr>"
  let ?e = "\<lparr>ke_kvfmt = None, ke_kvfmt_len = 0, ke_kvfmt_hash = 0, ke_fields = [prepared (color_cfg MODE_JSON True) ?spec]\<rparr>"
  have own: "list_all field_ok (i_fields demo_impl)" by (simp add: demo_impl_def demo_fields_ok)
  have pal: "palette_sgr (c_palette (color_cfg MODE_JSON True))" by (simp add: default_sgr)
  have st: "c_timestamps (color_cfg MODE_JSON True) \<longrightarrow> safe_text (timestamp_text demo_libc (color_cfg MODE_JSON True) (0, 0))" by simp
  have sp: "list_all (\<lambda>spec. prepared (color_cfg MODE_JSON True) spec = spec) (ke_fields ?e)" by simp
  have "safe_text ''n''" by (rule plain_ascii_safe) (simp add: unsafe_byte_def)
  then have ks: "spec_keys_ok (ke_fields ?e)" by (simp add: spec_keys_ok_def spec_key_def)
  obtain flds where fl: "pslog_materialize_kvfmt_fields (Some ?e) MODE_JSON 0 [A_int 7] = Some flds"
    by (simp add: pslog_materialize_kvfmt_fields_def kvfmt_max_fields_def)
  have eq: "accepted (T_fd 3) (e_world (demo_est (S_fd 1 (Some 3)) 64 (\<lambda>k. Short (k + 1)))) = []"
    by (simp add: demo_eqs accepted_def)
  show ?thesis
    using kvfmt_line_agrees [OF demo_serving demo_emit demo_formats pal st own sp ks fl, of None] unfolding eq by force
qed

end
