(* ===== verification/EmitConsole.thy ===== *)
theory EmitConsole
  imports JsonLine
begin

text \<open>
  The console lines of \<open>src/pslog_emit_console.c\<close>: values, the cache of coloured key prefixes, lines
  of fields and lines of format strings. The output lock is held from the first byte of a line to its
  write, and guards the prefix cache.
\<close>

section \<open>Values\<close>

text \<open>\<open>PSLOG_APPEND_CONSOLE_VALUE_RAW_FAST\<close> and its string cases.\<close>

definition console_string_value :: "pslog_field \<Rightarrow> cstring option \<Rightarrow> est \<Rightarrow> est" where
  "console_string_value field sv s =
     (if f_console_simple_value field then append_n_fast (take (f_value_len field) (or_empty sv)) s
      else pslog_buffer_append_console_string sv s)"

definition console_errno_value :: "libc \<Rightarrow> 64 word \<Rightarrow> est \<Rightarrow> est" where
  "console_errno_value X e s =
     (let t = pslog_errno_string X (int_of_errno e) 128
      in if pslog_string_is_console_simple_internal (Some t) then append_n_fast t s
         else pslog_buffer_append_console_string (Some t) s)"

definition console_value_raw :: "libc \<Rightarrow> pslog_field \<Rightarrow> est \<Rightarrow> est" where
  "console_value_raw X field s =
     (case f_value field of
        V_null \<Rightarrow> append_literal ''null'' s
      | V_string sv \<Rightarrow> console_string_value field sv s
      | V_signed v \<Rightarrow> pslog_buffer_append_signed v s
      | V_unsigned v \<Rightarrow> pslog_buffer_append_unsigned v s
      | V_double v \<Rightarrow> pslog_buffer_append_double X v s
      | V_bool b \<Rightarrow> if b then append_literal ''true'' s else append_literal ''false'' s
      | V_pointer p \<Rightarrow> pslog_buffer_append_pointer X p s
      | V_bytes data \<Rightarrow> append_char_fast dquote (pslog_buffer_append_bytes_hex data (append_char_fast dquote s))
      | V_time t \<Rightarrow> pslog_buffer_append_time X t False s
      | V_duration d \<Rightarrow> pslog_buffer_append_duration X d False s
      | V_errno e \<Rightarrow> console_errno_value X e s)"

text \<open>\<open>PSLOG_APPEND_CONSOLE_VALUE_ONLY_FAST\<close>.\<close>

definition console_value_only :: "libc \<Rightarrow> shared_cfg \<Rightarrow> pslog_field \<Rightarrow> est \<Rightarrow> est" where
  "console_value_only X cfg field s =
     (let palette = c_palette cfg; color = (\<lambda>t. apply_color_fast t (c_color_enabled cfg))
      in case f_value field of
        V_null \<Rightarrow> append_literal ''null'' (color (p_null_value palette) s)
      | V_string sv \<Rightarrow> console_string_value field sv (color (p_string palette) s)
      | V_signed v \<Rightarrow> pslog_buffer_append_signed v (color (p_number palette) s)
      | V_unsigned v \<Rightarrow> pslog_buffer_append_unsigned v (color (p_number palette) s)
      | V_double v \<Rightarrow> pslog_buffer_append_double X v (color (p_number palette) s)
      | V_bool b \<Rightarrow>
          (let s1 = color (p_boolean palette) s
           in if b then append_literal ''true'' s1 else append_literal ''false'' s1)
      | V_pointer p \<Rightarrow> pslog_buffer_append_pointer X p (color (p_number palette) s)
      | V_bytes data \<Rightarrow>
          append_char_fast dquote (pslog_buffer_append_bytes_hex data
            (append_char_fast dquote (color (p_string palette) s)))
      | V_time t \<Rightarrow> pslog_buffer_append_time X t False (color (p_timestamp palette) s)
      | V_duration d \<Rightarrow> pslog_buffer_append_duration X d False (color (p_string palette) s)
      | V_errno e \<Rightarrow> console_errno_value X e (color (p_error palette) s))"

text \<open>\<open>PSLOG_APPEND_CONSOLE_FIELD_FALLBACK_FAST\<close>.\<close>

definition console_field_fallback :: "libc \<Rightarrow> shared_cfg \<Rightarrow> pslog_field \<Rightarrow> est \<Rightarrow> est" where
  "console_field_fallback X cfg field s =
     (if \<not> has_key field then s
      else
        (let palette = c_palette cfg; color = (\<lambda>t. apply_color_fast t (c_color_enabled cfg));
             s1 = color (p_key palette) (color (p_reset palette) (append_char_fast CHR '' '' s));
             s2 = append_char_fast CHR ''='' (append_n_fast (field_key field) s1)
         in console_value_only X cfg field (color (p_reset palette) s2)))"

section \<open>The prefix cache\<close>

definition console_prefix_cache_size :: nat where
  "console_prefix_cache_size = 256"

definition console_prefix_cache_probe :: nat where
  "console_prefix_cache_probe = 16"

definition console_prefix_inline_capacity :: nat where
  "console_prefix_inline_capacity = 128"

text \<open>\<open>None\<close> is the result 0.\<close>

definition pslog_console_prefix_add :: "nat \<Rightarrow> nat \<Rightarrow> nat \<Rightarrow> nat option" where
  "pslog_console_prefix_add total' add' limit =
     (if total' > limit \<or> add' > limit - total' then None else Some (total' + add'))"

fun prefix_adds :: "nat list \<Rightarrow> nat \<Rightarrow> nat \<Rightarrow> nat option" where
  "prefix_adds [] limit total' = Some total'"
| "prefix_adds (a # as) limit total' =
     (case pslog_console_prefix_add total' a limit of None \<Rightarrow> None | Some t \<Rightarrow> prefix_adds as limit t)"

unbundle bit_operations_syntax

definition console_slot :: "64 word \<Rightarrow> pslog_field \<Rightarrow> nat" where
  "console_slot a field =
     unat (drop_bit 4 a XOR push_bit 3 (of_nat (field_type_val (value_type (f_value field)))) XOR of_nat (f_key_len field)) mod
       console_prefix_cache_size"

text \<open>The probe loop: an entry of this key, a free index, or neither within the probes.\<close>

datatype console_probe_result = CP_hit console_prefix_entry | CP_free nat | CP_full

definition entry_matches :: "cptr \<Rightarrow> pslog_field \<Rightarrow> console_prefix_entry \<Rightarrow> bool" where
  "entry_matches key field e =
     (cp_key e = fst key \<and> cp_type e = value_type (f_value field) \<and> cp_key_len e = f_key_len field \<and>
      take (f_key_len field) (cp_key_copy e) = take (f_key_len field) (snd key))"

fun console_probe ::
  "(nat \<Rightarrow> console_prefix_entry option) \<Rightarrow> cptr \<Rightarrow> pslog_field \<Rightarrow> nat \<Rightarrow> nat list \<Rightarrow> console_probe_result" where
  "console_probe cache key field slot [] = CP_full"
| "console_probe cache key field slot (probe # probes) =
     (let index = (slot + probe) mod console_prefix_cache_size in
      case cache index of
        None \<Rightarrow> CP_free index
      | Some e \<Rightarrow> if entry_matches key field e then CP_hit e else console_probe cache key field slot probes)"

text \<open>Filling the entry at the chosen index; \<open>None\<close> when the prefix has no room.\<close>

definition console_new_entry :: "shared_cfg \<Rightarrow> cptr \<Rightarrow> pslog_field \<Rightarrow> console_prefix_entry option" where
  "console_new_entry cfg key field =
     (let palette = c_palette cfg; prefix_limit = console_prefix_inline_capacity - 1;
          ty = value_type (f_value field); key_text = take (f_key_len field) (snd key);
          value_color = pslog_console_field_value_color palette ty
      in case prefix_adds [1, f_key_len field, 1] prefix_limit 0 of
           None \<Rightarrow> None
         | Some n \<Rightarrow>
             if c_color_enabled cfg
             then (case prefix_adds [length (p_reset palette), length (p_key palette), length (p_reset palette), length value_color]
                          prefix_limit n of
                     None \<Rightarrow> None
                   | Some _ \<Rightarrow>
                       Some \<lparr>cp_key = fst key, cp_key_len = f_key_len field, cp_type = ty,
                         cp_prefix = p_reset palette @ '' '' @ p_key palette @ key_text @ ''='' @ p_reset palette @ value_color,
                         cp_key_copy = key_text\<rparr>)
             else Some \<lparr>cp_key = fst key, cp_key_len = f_key_len field, cp_type = ty,
                    cp_prefix = '' '' @ key_text @ ''='', cp_key_copy = key_text\<rparr>)"

definition pslog_resolve_console_prefix ::
  "shared_cfg \<Rightarrow> pslog_field \<Rightarrow> pslog_shared \<Rightarrow> console_prefix_entry option \<times> pslog_shared" where
  "pslog_resolve_console_prefix cfg field sh =
     (case f_key field of
        None \<Rightarrow> (None, sh)
      | Some key \<Rightarrow>
          if snd key = [] then (None, sh)
          else
            (let slot = console_slot (fst key) field;
                 store = (\<lambda>index. case console_new_entry cfg key field of
                            None \<Rightarrow> (None, sh)
                          | Some e \<Rightarrow> (Some e, sh\<lparr>s_console_prefix_cache := (s_console_prefix_cache sh)(index := Some e)\<rparr>))
             in case console_probe (s_console_prefix_cache sh) key field slot [0..<console_prefix_cache_probe] of
                  CP_hit e \<Rightarrow> (Some e, sh)
                | CP_free index \<Rightarrow> store index
                | CP_full \<Rightarrow> store slot))"

definition pslog_append_console_field_cached :: "libc \<Rightarrow> shared_cfg \<Rightarrow> pslog_field \<Rightarrow> est \<Rightarrow> est" where
  "pslog_append_console_field_cached X cfg field s =
     (if \<not> has_key field then s
      else
        (let (prefix', sh) = pslog_resolve_console_prefix cfg field (e_shared s); s1 = s\<lparr>e_shared := sh\<rparr>
         in case prefix' of
              Some e \<Rightarrow> console_value_raw X field (append_n_fast (cp_prefix e) s1)
            | None \<Rightarrow> console_field_fallback X cfg field s1))"

fun pslog_append_console_field_prefix :: "libc \<Rightarrow> shared_cfg \<Rightarrow> pslog_field list \<Rightarrow> est \<Rightarrow> est" where
  "pslog_append_console_field_prefix X cfg [] s = s"
| "pslog_append_console_field_prefix X cfg (f # fs) s =
     pslog_append_console_field_prefix X cfg fs (pslog_append_console_field_cached X cfg f s)"

definition pslog_append_console_field_set :: "libc \<Rightarrow> shared_cfg \<Rightarrow> pslog_field list \<Rightarrow> est \<Rightarrow> est" where
  "pslog_append_console_field_set X cfg flds s = pslog_append_console_field_prefix X cfg flds s"

section \<open>Lines\<close>

definition pslog_append_console_message_prefix :: "shared_cfg \<Rightarrow> est \<Rightarrow> est" where
  "pslog_append_console_message_prefix cfg s =
     (if length (c_console_message_prefix cfg) > 0 then append_n_fast (c_console_message_prefix cfg) s
      else
        (let s1 = append_char_fast CHR '' '' s
         in if c_color_enabled cfg then append_n_fast (p_message (c_palette cfg)) s1 else s1))"

text \<open>Timestamp, level, message and the logger's fields, as both emitters write them.\<close>

definition console_head ::
  "libc \<Rightarrow> shared_cfg \<Rightarrow> pslog_logger_impl \<Rightarrow> pslog_level \<Rightarrow> cstring option \<Rightarrow> int \<times> int \<Rightarrow> est \<Rightarrow> est" where
  "console_head X cfg impl level msg clock s =
     (let s1 = (if c_timestamps cfg
                then append_char_fast CHR '' '' (pslog_append_timestamp X cfg clock
                       (apply_color_fast (p_timestamp (c_palette cfg)) (c_color_enabled cfg) s))
                else s);
          s2 = pslog_append_level_label cfg level s1;
          s3 = (case msg of None \<Rightarrow> s2
                | Some m \<Rightarrow> if m \<noteq> [] then pslog_buffer_append_console_message (Some m) (pslog_append_console_message_prefix cfg s2)
                    else s2)
      in if length (i_field_prefix impl) > 0 then append_n_fast (i_field_prefix impl) s3
         else if length (i_fields impl) > 0 then pslog_append_console_field_set X cfg (i_fields impl) s3
         else s3)"

definition console_tail :: "libc \<Rightarrow> shared_cfg \<Rightarrow> pslog_logger_impl \<Rightarrow> est \<Rightarrow> est" where
  "console_tail X cfg impl s =
     (let s1 = (if i_include_level_field impl then pslog_append_console_field_cached X cfg (level_field X impl) s else s)
      in pslog_buffer_finish_line (apply_color_fast (p_reset (c_palette cfg)) (c_color_enabled cfg) s1))"

text \<open>\<open>pslog_buffer_init\<close> and the lock in front, the write, the unlock and the release behind.\<close>

definition console_line :: "shared_cfg \<Rightarrow> (est \<Rightarrow> est) \<Rightarrow> est \<Rightarrow> est" where
  "console_line cfg body s =
     (let s1 = pslog_buffer_unlock_output (pslog_write_buffer True (body (pslog_buffer_lock_output (open_line cfg s))));
          (b, w) = pslog_buffer_destroy_fast (e_buf s1) (e_world s1)
      in s1\<lparr>e_buf := e_buf s, e_world := w\<rparr>)"

definition pslog_emit_console ::
  "libc \<Rightarrow> shared_cfg \<Rightarrow> pslog_logger_impl \<Rightarrow> pslog_level \<Rightarrow> cstring option \<Rightarrow> pslog_field list \<Rightarrow> int \<times> int \<Rightarrow> est \<Rightarrow> est" where
  "pslog_emit_console X cfg impl level msg flds clock s =
     console_line cfg (\<lambda>s.
       let s1 = console_head X cfg impl level msg clock s;
           s2 = (if length flds > 0 then pslog_append_console_field_set X cfg flds s1 else s1)
       in console_tail X cfg impl s2) s"

section \<open>Lines of format strings\<close>

fun console_kvfmt_color :: "pslog_palette \<Rightarrow> kvfmt_arg_type \<Rightarrow> cstring" where
  "console_kvfmt_color palette ARG_STRING = p_string palette"
| "console_kvfmt_color palette ARG_BOOL = p_boolean palette"
| "console_kvfmt_color palette ARG_ERRNO = p_error palette"
| "console_kvfmt_color palette _ = p_number palette"

definition pslog_append_console_kvfmt_prefix :: "shared_cfg \<Rightarrow> kvfmt_field_spec \<Rightarrow> est \<Rightarrow> est" where
  "pslog_append_console_kvfmt_prefix cfg spec s =
     (if length (ks_console_prefix spec) > 0 then append_n_fast (ks_console_prefix spec) s
      else
        (let palette = c_palette cfg; color = c_color_enabled cfg;
             value_color = (if color then console_kvfmt_color palette (ks_arg_type spec) else []);
             s1 = (if color then append_n_fast (p_reset palette) s else s);
             s2 = append_char_fast CHR '' '' s1;
             s3 = (if color then append_n_fast (p_key palette) s2 else s2);
             s4 = append_char_fast CHR ''='' (append_n_fast (spec_key spec) s3)
         in if color
            then (let s5 = append_n_fast (p_reset palette) s4
                  in if length value_color > 0 then append_n_fast value_color s5 else s5)
            else s4))"

definition errno_field :: "32 word \<Rightarrow> kvfmt_field_spec \<Rightarrow> pslog_field" where
  "errno_field saved_errno spec =
     \<lparr>f_key = Some (ks_key spec), f_key_len = ks_key_len spec, f_value_len = 0, f_value = V_errno (scast saved_errno),
      f_trusted_key = True, f_trusted_value = False, f_console_simple_value = False\<rparr>"

definition console_kvfmt_value ::
  "libc \<Rightarrow> shared_cfg \<Rightarrow> kvfmt_field_spec \<Rightarrow> 32 word \<Rightarrow> kvfmt_arg list \<Rightarrow> est \<Rightarrow> est" where
  "console_kvfmt_value X cfg spec saved_errno ap s =
     (case ks_arg_type spec of
        ARG_STRING \<Rightarrow> pslog_buffer_append_console_string (Some (or_empty (va_string ap))) s
      | ARG_SIGNED_INT \<Rightarrow> pslog_buffer_append_signed (scast (va_int ap)) s
      | ARG_SIGNED_LONG \<Rightarrow> pslog_buffer_append_signed (va_long ap) s
      | ARG_UNSIGNED_INT \<Rightarrow> pslog_buffer_append_unsigned (ucast (va_uint ap)) s
      | ARG_UNSIGNED_LONG \<Rightarrow> pslog_buffer_append_unsigned (va_ulong ap) s
      | ARG_DOUBLE \<Rightarrow> pslog_buffer_append_double X (va_double ap) s
      | ARG_POINTER \<Rightarrow> pslog_buffer_append_pointer X (va_pointer ap) s
      | ARG_BOOL \<Rightarrow> if va_int ap \<noteq> 0 then append_literal ''true'' s else append_literal ''false'' s
      | ARG_ERRNO \<Rightarrow> console_value_only X cfg (errno_field saved_errno spec) s)"

fun pslog_append_console_kvfmt_fields ::
  "libc \<Rightarrow> shared_cfg \<Rightarrow> kvfmt_field_spec list \<Rightarrow> 32 word \<Rightarrow> kvfmt_arg list \<Rightarrow> est \<Rightarrow> est" where
  "pslog_append_console_kvfmt_fields X cfg [] saved_errno ap s = s"
| "pslog_append_console_kvfmt_fields X cfg (spec # specs) saved_errno ap s =
     (if ks_key_len spec = 0 then pslog_append_console_kvfmt_fields X cfg specs saved_errno ap s
      else pslog_append_console_kvfmt_fields X cfg specs saved_errno (va_next (ks_arg_type spec) ap)
             (console_kvfmt_value X cfg spec saved_errno ap (pslog_append_console_kvfmt_prefix cfg spec s)))"

definition pslog_emit_console_kvfmt ::
  "libc \<Rightarrow> shared_cfg \<Rightarrow> pslog_logger_impl \<Rightarrow> pslog_level \<Rightarrow> cstring option \<Rightarrow> kvfmt_cache_entry option \<Rightarrow>
     32 word \<Rightarrow> kvfmt_arg list \<Rightarrow> int \<times> int \<Rightarrow> est \<Rightarrow> est" where
  "pslog_emit_console_kvfmt X cfg impl level msg entry saved_errno ap clock s =
     console_line cfg (\<lambda>s.
       console_tail X cfg impl (pslog_append_console_kvfmt_fields X cfg (entry_specs entry) saved_errno ap
         (console_head X cfg impl level msg clock s))) s"

section \<open>The text of a line\<close>

abbreviation (input) in_color :: "shared_cfg \<Rightarrow> string \<Rightarrow> string" where
  "in_color cfg t \<equiv> (if c_color_enabled cfg then t else [])"

definition console_simple_or_quoted :: "string \<Rightarrow> string" where
  "console_simple_or_quoted t = (if pslog_string_is_console_simple_internal (Some t) then t else console_string_bytes t)"

definition console_value_text :: "libc \<Rightarrow> pslog_field \<Rightarrow> string" where
  "console_value_text X f =
     (case f_value f of
        V_null \<Rightarrow> ''null''
      | V_string sv \<Rightarrow> if f_console_simple_value f then take (f_value_len f) (or_empty sv) else console_string_bytes (or_empty sv)
      | V_signed v \<Rightarrow> int_digits (sint v)
      | V_unsigned v \<Rightarrow> nat_digits (unat v)
      | V_double v \<Rightarrow> double_text X v
      | V_bool b \<Rightarrow> if b then ''true'' else ''false''
      | V_pointer p \<Rightarrow> lc_fmt_pointer X p
      | V_bytes data \<Rightarrow> quote (hex_bytes data)
      | V_time t \<Rightarrow> time_text X t
      | V_duration d \<Rightarrow> duration_text X d
      | V_errno e \<Rightarrow> console_simple_or_quoted (pslog_errno_string X (int_of_errno e) 128))"

text \<open>In front of the value: the cached prefix where it fits, else the same parts in another order.\<close>

definition console_lead :: "shared_cfg \<Rightarrow> string \<Rightarrow> pslog_field_type \<Rightarrow> string" where
  "console_lead cfg key ty =
     (if length (console_prefix_text cfg key ty) < 128 then console_prefix_text cfg key ty
      else (let p = c_palette cfg in '' '' @ in_color cfg (p_reset p) @ in_color cfg (p_key p) @ key @ ''='' @
        in_color cfg (p_reset p) @ in_color cfg (pslog_console_field_value_color p ty)))"

definition console_field_text :: "libc \<Rightarrow> shared_cfg \<Rightarrow> pslog_field \<Rightarrow> string" where
  "console_field_text X cfg f =
     (if has_key f then console_lead cfg (field_key f) (value_type (f_value f)) @ console_value_text X f else [])"

text \<open>The recorded length of a key is the length of a string.\<close>

definition keyed :: "pslog_field \<Rightarrow> bool" where
  "keyed f = (length (field_key f) = f_key_len f)"

lemma field_ok_keyed: "field_ok f \<Longrightarrow> keyed f"
  by (auto simp: field_ok_def key_ok_def keyed_def field_key_def split: option.splits)

section \<open>Values\<close>

lemma view_string_value_console [simp]:
  assumes "good X cfg s"
  shows "view X cfg (console_string_value f sv s) = map_option (appends (if f_console_simple_value f
      then take (f_value_len f) (or_empty sv) else console_string_bytes (or_empty sv))) (view X cfg s)"
    and "good X cfg (console_string_value f sv s)"
  using assms by (simp_all add: console_string_value_def)

lemma view_errno_value [simp]:
  assumes "good X cfg s"
  shows "view X cfg (console_errno_value Y e s) =
      map_option (appends (console_simple_or_quoted (pslog_errno_string Y (int_of_errno e) 128))) (view X cfg s)"
    and "good X cfg (console_errno_value Y e s)"
  using assms by (simp_all add: console_errno_value_def console_simple_or_quoted_def Let_def)

lemma view_value_raw [simp]:
  assumes "good X cfg s"
  shows "view X cfg (console_value_raw X f s) = map_option (appends (console_value_text X f)) (view X cfg s)"
    and "good X cfg (console_value_raw X f s)"
  using assms by (cases "f_value f"; simp add: console_value_raw_def console_value_text_def quote_def quoted_def)+

lemma view_value_only [simp]:
  assumes "good X cfg s"
  shows "view X cfg (console_value_only X cfg' f s) =
      map_option (appends (in_color cfg' (pslog_console_field_value_color (c_palette cfg') (value_type (f_value f))) @
        console_value_text X f)) (view X cfg s)"
    and "good X cfg (console_value_only X cfg' f s)"
  using assms
  by (cases "f_value f"; simp add: console_value_only_def console_value_text_def pslog_console_field_value_color_def quote_def
      quoted_def Let_def)+

lemma view_fallback [simp]:
  assumes "good X cfg s" "has_key f"
  shows "view X cfg (console_field_fallback X cfg' f s) =
      map_option (appends (let p = c_palette cfg' in '' '' @ in_color cfg' (p_reset p) @ in_color cfg' (p_key p) @ field_key f @ ''='' @
        in_color cfg' (p_reset p) @ in_color cfg' (pslog_console_field_value_color p (value_type (f_value f))) @
        console_value_text X f)) (view X cfg s)"
    and "good X cfg (console_field_fallback X cfg' f s)"
  using assms by (simp_all add: console_field_fallback_def Let_def)

section \<open>The prefix cache is coherent\<close>

lemma prefix_adds_sum: "total' \<le> limit \<Longrightarrow> prefix_adds as limit total' = (if total' + sum_list as \<le> limit then Some (total' + sum_list as) else None)"
  by (induction as arbitrary: total') (auto simp: pslog_console_prefix_add_def)

text \<open>An entry is made just when the prefix and its NUL fit the array.\<close>

lemma new_entry_spec:
  assumes "length (take (f_key_len field) (snd key)) = f_key_len field"
  shows "console_new_entry cfg key field =
    (let ty = value_type (f_value field); k = take (f_key_len field) (snd key); t = console_prefix_text cfg k ty
     in if length t < 128
        then Some \<lparr>cp_key = fst key, cp_key_len = f_key_len field, cp_type = ty, cp_prefix = t, cp_key_copy = k\<rparr>
        else None)"
proof -
  let ?n = "f_key_len field" and ?c = "pslog_console_field_value_color (c_palette cfg) (value_type (f_value field))"
  have p1: "prefix_adds [1, ?n, 1] 127 0 = (if ?n + 2 < 128 then Some (?n + 2) else None)"
    by (auto simp: prefix_adds_sum simp del: prefix_adds.simps)
  have one: "(128 :: nat) - 1 = 127" by simp
  have p2: "prefix_adds [a, b, c, d] 127 (Suc (Suc ?n)) = (if ?n + 2 + a + b + c + d < 128 then Some (?n + 2 + a + b + c + d) else None)"
    if "?n + 2 < 128" for a b c d
    using that by (auto simp: prefix_adds_sum simp del: prefix_adds.simps)
  have len: "length (console_prefix_text cfg (take ?n (snd key)) (value_type (f_value field))) =
      (if c_color_enabled cfg then ?n + 2 + length (p_reset (c_palette cfg)) + length (p_key (c_palette cfg)) +
         length (p_reset (c_palette cfg)) + length ?c else ?n + 2)"
    using assms by (simp add: console_prefix_text_def Let_def)
  show ?thesis
    unfolding console_new_entry_def console_prefix_inline_capacity_def Let_def one p1 len
    by (cases "?n + 2 < 128") (auto simp: p2 console_prefix_text_def Let_def simp del: prefix_adds.simps)
qed

lemma probe_hit: "console_probe cache key field slot probes = CP_hit e \<Longrightarrow> \<exists>i. cache i = Some e \<and> entry_matches key field e"
  by (induction probes) (auto simp: Let_def split: option.splits if_splits)

lemma resolve_prefix:
  assumes c: "prefix_cache_ok cfg (s_console_prefix_cache sh)" and k: "has_key f" "keyed f"
  obtains r c' where "pslog_resolve_console_prefix cfg f sh = (r, s_console_prefix_cache_update (\<lambda>_. c') sh)"
    "prefix_cache_ok cfg c'"
    "let t = console_prefix_text cfg (field_key f) (value_type (f_value f)) in
       if length t < 128 then \<exists>e. r = Some e \<and> cp_prefix e = t else r = None"
proof -
  obtain a u where key: "f_key f = Some (a, u)" and ne: "u \<noteq> []" using k(1) by (auto simp: has_key_def split: option.splits)
  let ?k = "field_key f" and ?ty = "value_type (f_value f)"
  let ?t = "console_prefix_text cfg ?k ?ty" and ?cache = "s_console_prefix_cache sh"
  have fk: "?k = take (f_key_len f) u" by (simp add: field_key_def key)
  then have len: "length (take (f_key_len f) (snd (a, u))) = f_key_len f" using k(2) by (simp add: keyed_def)
  have same: "s_console_prefix_cache_update (\<lambda>_. ?cache) sh = sh" by simp
  let ?e = "\<lparr>cp_key = a, cp_key_len = f_key_len f, cp_type = ?ty, cp_prefix = ?t, cp_key_copy = ?k\<rparr>"
  have new: "console_new_entry cfg (a, u) f = (if length ?t < 128 then Some ?e else None)"
    using new_entry_spec [OF len] by (simp add: fk Let_def)
  have stored: "prefix_cache_ok cfg (?cache(i := Some ?e))" if "length ?t < 128" for i
    using c that k(2) unfolding prefix_cache_ok_def keyed_def by (auto split: if_splits) metis
  define r where "r = console_probe ?cache (a, u) f (console_slot a f) [0..<console_prefix_cache_probe]"
  show ?thesis
  proof (cases r)
    case (CP_hit e)
    then obtain i where e: "?cache i = Some e" "entry_matches (a, u) f e" using probe_hit unfolding r_def by blast
    then have ek: "cp_prefix e = console_prefix_text cfg (cp_key_copy e) (cp_type e)" "cp_key_len e = length (cp_key_copy e)"
      "length (cp_prefix e) < 128" using c unfolding prefix_cache_ok_def by blast+
    have "cp_key_copy e = ?k" "cp_type e = ?ty" using e(2) ek(2) fk by (auto simp: entry_matches_def)
    with ek have "cp_prefix e = ?t" "length ?t < 128" by simp_all
    with CP_hit key ne c same show ?thesis
      by (intro that [of "Some e" ?cache]) (simp_all add: pslog_resolve_console_prefix_def r_def Let_def)
  next
    case (CP_free i)
    show ?thesis
    proof (cases "length ?t < 128")
      case True
      with CP_free key ne new stored [OF True] show ?thesis
        by (intro that [of "Some ?e" "?cache(i := Some ?e)"]) (simp_all add: pslog_resolve_console_prefix_def r_def Let_def)
    next
      case False
      with CP_free key ne new c same show ?thesis
        by (intro that [of None ?cache]) (simp_all add: pslog_resolve_console_prefix_def r_def Let_def)
    qed
  next
    case CP_full
    let ?i = "console_slot a f"
    show ?thesis
    proof (cases "length ?t < 128")
      case True
      with CP_full key ne new stored [OF True] show ?thesis
        by (intro that [of "Some ?e" "?cache(?i := Some ?e)"]) (simp_all add: pslog_resolve_console_prefix_def r_def Let_def)
    next
      case False
      with CP_full key ne new c same show ?thesis
        by (intro that [of None ?cache]) (simp_all add: pslog_resolve_console_prefix_def r_def Let_def)
    qed
  qed
qed

lemma view_prefix_cache:
  assumes "good X cfg s" "prefix_cache_ok cfg c"
  shows "view X cfg (s\<lparr>e_shared := s_console_prefix_cache_update (\<lambda>_. c) (e_shared s)\<rparr>) = view X cfg s"
    "good X cfg (s\<lparr>e_shared := s_console_prefix_cache_update (\<lambda>_. c) (e_shared s)\<rparr>)"
proof -
  have "caches_ok X cfg (s_console_prefix_cache_update (\<lambda>_. c) (e_shared s))"
    using assms by (simp add: good_def caches_ok_def timestamp_ok_def kvfmt_ok_def)
  from view_update [OF assms(1), of "s_console_prefix_cache_update (\<lambda>_. c)", OF _ this]
  show "view X cfg (s\<lparr>e_shared := s_console_prefix_cache_update (\<lambda>_. c) (e_shared s)\<rparr>) = view X cfg s"
    "good X cfg (s\<lparr>e_shared := s_console_prefix_cache_update (\<lambda>_. c) (e_shared s)\<rparr>)"
    unfolding e_shared_set by simp_all
qed

lemma view_field_cached [simp]:
  assumes "good X cfg s" "keyed f"
  shows "view X cfg (pslog_append_console_field_cached X cfg f s) = map_option (appends (console_field_text X cfg f)) (view X cfg s)"
    and "good X cfg (pslog_append_console_field_cached X cfg f s)"
proof -
  have "view X cfg (pslog_append_console_field_cached X cfg f s) = map_option (appends (console_field_text X cfg f)) (view X cfg s) \<and>
    good X cfg (pslog_append_console_field_cached X cfg f s)"
  proof (cases "has_key f")
    case True
    have "prefix_cache_ok cfg (s_console_prefix_cache (e_shared s))" using assms(1) by (simp add: good_def caches_ok_def)
    from resolve_prefix [OF this True assms(2)] obtain r c where
      r: "pslog_resolve_console_prefix cfg f (e_shared s) = (r, s_console_prefix_cache_update (\<lambda>_. c) (e_shared s))"
      "prefix_cache_ok cfg c"
      "let t = console_prefix_text cfg (field_key f) (value_type (f_value f)) in
         if length t < 128 then \<exists>e. r = Some e \<and> cp_prefix e = t else r = None" .
    note v = view_prefix_cache [OF assms(1) r(2)]
    show ?thesis
    proof (cases "length (console_prefix_text cfg (field_key f) (value_type (f_value f))) < 128")
      case fit: True
      with r(3) obtain e where "r = Some e" "cp_prefix e = console_prefix_text cfg (field_key f) (value_type (f_value f))"
        by (auto simp: Let_def)
      with True fit v show ?thesis
        by (simp add: pslog_append_console_field_cached_def r(1) console_field_text_def console_lead_def)
    next
      case False
      with r(3) have "r = None" by (simp add: Let_def)
      with True False v show ?thesis
        by (simp add: pslog_append_console_field_cached_def r(1) console_field_text_def console_lead_def Let_def)
    qed
  qed (simp add: assms(1) pslog_append_console_field_cached_def console_field_text_def)
  then show "view X cfg (pslog_append_console_field_cached X cfg f s) = map_option (appends (console_field_text X cfg f)) (view X cfg s)"
    and "good X cfg (pslog_append_console_field_cached X cfg f s)" by simp_all
qed

definition console_fields_text :: "libc \<Rightarrow> shared_cfg \<Rightarrow> pslog_field list \<Rightarrow> string" where
  "console_fields_text X cfg fs = concat (map (console_field_text X cfg) fs)"

lemma view_console_prefix [simp]:
  assumes "good X cfg s" "list_all keyed fs"
  shows "view X cfg (pslog_append_console_field_prefix X cfg fs s) = map_option (appends (console_fields_text X cfg fs)) (view X cfg s)"
    and "good X cfg (pslog_append_console_field_prefix X cfg fs s)"
  using assms by (induction fs arbitrary: s) (simp_all add: console_fields_text_def)

section \<open>Lines\<close>

definition message_lead :: "shared_cfg \<Rightarrow> string" where
  "message_lead cfg = '' '' @ in_color cfg (p_message (c_palette cfg))"

definition console_head_text ::
  "libc \<Rightarrow> shared_cfg \<Rightarrow> pslog_logger_impl \<Rightarrow> pslog_level \<Rightarrow> cstring option \<Rightarrow> int \<times> int \<Rightarrow> string" where
  "console_head_text X cfg impl level msg clock =
     (if c_timestamps cfg then in_color cfg (p_timestamp (c_palette cfg)) @ timestamp_text X cfg clock @ '' '' else []) @
     c_console_level_fragments cfg (level_slot level) @
     (if or_empty msg = [] then [] else message_lead cfg @ console_body False (or_empty msg)) @
     console_fields_text X cfg (i_fields impl)"

definition console_object_text ::
  "libc \<Rightarrow> shared_cfg \<Rightarrow> pslog_logger_impl \<Rightarrow> pslog_level \<Rightarrow> cstring option \<Rightarrow> string \<Rightarrow> int \<times> int \<Rightarrow> string" where
  "console_object_text X cfg impl level msg flds clock =
     console_head_text X cfg impl level msg clock @ flds @
     (if i_include_level_field impl then console_field_text X cfg (level_field X impl) else []) @
     in_color cfg (p_reset (c_palette cfg)) @ [CHR 0x0A]"

text \<open>The prepared texts, as the console relies on them.\<close>

definition console_ok :: "libc \<Rightarrow> shared_cfg \<Rightarrow> pslog_logger_impl \<Rightarrow> int \<times> int \<Rightarrow> bool" where
  "console_ok X cfg impl clock =
     (zone_ok X \<and> clock_ok clock \<and> c_console_message_prefix cfg \<in> {[], message_lead cfg} \<and>
      i_field_prefix impl \<in> {[], console_fields_text X cfg (i_fields impl)} \<and> list_all keyed (i_fields impl))"

lemma view_message_prefix [simp]:
  assumes "good X cfg s" "c_console_message_prefix cfg' \<in> {[], message_lead cfg'}"
  shows "view X cfg (pslog_append_console_message_prefix cfg' s) = map_option (appends (message_lead cfg')) (view X cfg s)"
    and "good X cfg (pslog_append_console_message_prefix cfg' s)"
  using assms by (auto simp: pslog_append_console_message_prefix_def message_lead_def Let_def)

lemma console_fields_Nil [simp]: "console_fields_text X cfg [] = []"
  by (simp add: console_fields_text_def)

lemma view_console_head [simp]:
  assumes "good X cfg s" "console_ok X cfg impl clock"
  shows "view X cfg (console_head X cfg impl level msg clock s) =
      map_option (appends (console_head_text X cfg impl level msg clock)) (view X cfg s)"
    and "good X cfg (console_head X cfg impl level msg clock s)"
proof -
  have ok: "zone_ok X" "clock_ok clock" "c_console_message_prefix cfg \<in> {[], message_lead cfg}"
    "i_field_prefix impl \<in> {[], console_fields_text X cfg (i_fields impl)}" "list_all keyed (i_fields impl)"
    using assms(2) by (simp_all add: console_ok_def)
  define s2 where "s2 = pslog_append_level_label cfg level (if c_timestamps cfg
    then append_char_fast CHR '' '' (pslog_append_timestamp X cfg clock
      (apply_color_fast (p_timestamp (c_palette cfg)) (c_color_enabled cfg) s)) else s)"
  have s2: "good X cfg s2" "view X cfg s2 = map_option (appends
      ((if c_timestamps cfg then in_color cfg (p_timestamp (c_palette cfg)) @ timestamp_text X cfg clock @ '' '' else []) @
       c_console_level_fragments cfg (level_slot level))) (view X cfg s)"
    using assms(1) ok(1,2) by (simp_all add: s2_def)
  define s3 where "s3 = (if or_empty msg = [] then s2
    else pslog_buffer_append_console_message (Some (or_empty msg)) (pslog_append_console_message_prefix cfg s2))"
  have s3: "good X cfg s3" "view X cfg s3 = map_option (appends
      (if or_empty msg = [] then [] else message_lead cfg @ console_body False (or_empty msg))) (view X cfg s2)"
    using s2(1) ok(3) by (simp_all add: s3_def)
  have h: "console_head X cfg impl level msg clock s =
      (if length (i_field_prefix impl) > 0 then append_n_fast (i_field_prefix impl) s3
       else if length (i_fields impl) > 0 then pslog_append_console_field_set X cfg (i_fields impl) s3 else s3)"
    by (cases msg) (simp_all add: console_head_def s3_def s2_def Let_def)
  show "view X cfg (console_head X cfg impl level msg clock s) =
      map_option (appends (console_head_text X cfg impl level msg clock)) (view X cfg s)"
    and "good X cfg (console_head X cfg impl level msg clock s)"
    unfolding h using s2 s3 ok(4,5) by (auto simp: pslog_append_console_field_set_def console_head_text_def)
qed

lemma level_field_keyed [simp]: "keyed (level_field X impl)"
  by (simp add: keyed_def level_field_def field_key_def)

lemma view_console_tail [simp]:
  assumes "good X cfg s"
  shows "view X cfg (console_tail X cfg impl s) = map_option (appends
      ((if i_include_level_field impl then console_field_text X cfg (level_field X impl) else []) @
       in_color cfg (p_reset (c_palette cfg)) @ [CHR 0x0A])) (view X cfg s)"
    and "good X cfg (console_tail X cfg impl s)"
  using assms by (simp_all add: console_tail_def Let_def)

section \<open>Fields of format strings\<close>

definition kvfmt_lead :: "shared_cfg \<Rightarrow> kvfmt_field_spec \<Rightarrow> string" where
  "kvfmt_lead cfg spec =
     (if length (kvfmt_console_text cfg spec) < 128 then kvfmt_console_text cfg spec
      else (let p = c_palette cfg in in_color cfg (p_reset p) @ '' '' @ in_color cfg (p_key p) @ spec_key spec @ ''='' @
        in_color cfg (p_reset p) @ in_color cfg (console_kvfmt_color p (ks_arg_type spec))))"

lemma view_kvfmt_prefix [simp]:
  assumes "good X cfg s" "prepared cfg' spec = spec"
  shows "view X cfg (pslog_append_console_kvfmt_prefix cfg' spec s) = map_option (appends (kvfmt_lead cfg' spec)) (view X cfg s)"
    and "good X cfg (pslog_append_console_kvfmt_prefix cfg' spec s)"
proof -
  have "ks_console_prefix (prepared cfg' spec) = (if length (kvfmt_console_text cfg' spec) < 128 then kvfmt_console_text cfg' spec else [])"
    by (simp add: prepared_def Let_def)
  moreover have "kvfmt_console_text cfg' spec \<noteq> []" by (simp add: kvfmt_console_text_def Let_def)
  ultimately show "view X cfg (pslog_append_console_kvfmt_prefix cfg' spec s) = map_option (appends (kvfmt_lead cfg' spec)) (view X cfg s)"
    and "good X cfg (pslog_append_console_kvfmt_prefix cfg' spec s)"
    using assms by (auto simp: pslog_append_console_kvfmt_prefix_def kvfmt_lead_def Let_def)
qed

definition kvfmt_value_text :: "libc \<Rightarrow> shared_cfg \<Rightarrow> kvfmt_field_spec \<Rightarrow> 32 word \<Rightarrow> kvfmt_arg list \<Rightarrow> string" where
  "kvfmt_value_text X cfg spec e ap =
     (case ks_arg_type spec of
        ARG_STRING \<Rightarrow> console_string_bytes (or_empty (va_string ap))
      | ARG_SIGNED_INT \<Rightarrow> int_digits (sint (scast (va_int ap) :: 64 word))
      | ARG_SIGNED_LONG \<Rightarrow> int_digits (sint (va_long ap))
      | ARG_UNSIGNED_INT \<Rightarrow> nat_digits (unat (ucast (va_uint ap) :: 64 word))
      | ARG_UNSIGNED_LONG \<Rightarrow> nat_digits (unat (va_ulong ap))
      | ARG_DOUBLE \<Rightarrow> double_text X (va_double ap)
      | ARG_POINTER \<Rightarrow> lc_fmt_pointer X (va_pointer ap)
      | ARG_BOOL \<Rightarrow> if va_int ap \<noteq> 0 then ''true'' else ''false''
      | ARG_ERRNO \<Rightarrow> in_color cfg (p_error (c_palette cfg)) @ console_simple_or_quoted (pslog_errno_string X (sint e) 128))"

lemma view_kvfmt_value [simp]:
  assumes "good X cfg s"
  shows "view X cfg (console_kvfmt_value X cfg' spec e ap s) = map_option (appends (kvfmt_value_text X cfg' spec e ap)) (view X cfg s)"
    and "good X cfg (console_kvfmt_value X cfg' spec e ap s)"
  using assms
  by (cases "ks_arg_type spec"; simp add: console_kvfmt_value_def kvfmt_value_text_def errno_field_def console_value_text_def
      pslog_console_field_value_color_def int_of_errno_def ucast_scast_32)+

fun console_kvfmt_text :: "libc \<Rightarrow> shared_cfg \<Rightarrow> kvfmt_field_spec list \<Rightarrow> 32 word \<Rightarrow> kvfmt_arg list \<Rightarrow> string" where
  "console_kvfmt_text X cfg [] e ap = []"
| "console_kvfmt_text X cfg (spec # specs) e ap =
     (if ks_key_len spec = 0 then console_kvfmt_text X cfg specs e ap
      else kvfmt_lead cfg spec @ kvfmt_value_text X cfg spec e ap @ console_kvfmt_text X cfg specs e (va_next (ks_arg_type spec) ap))"

lemma view_console_kvfmt:
  assumes "good X cfg s" "list_all (\<lambda>spec. prepared cfg' spec = spec) specs"
  shows "view X cfg (pslog_append_console_kvfmt_fields X cfg' specs e ap s) =
      map_option (appends (console_kvfmt_text X cfg' specs e ap)) (view X cfg s) \<and>
    good X cfg (pslog_append_console_kvfmt_fields X cfg' specs e ap s)"
  using assms
proof (induction specs arbitrary: s ap)
  case (Cons spec specs)
  have "good X cfg (console_kvfmt_value X cfg' spec e ap (pslog_append_console_kvfmt_prefix cfg' spec s))"
    using Cons.prems by simp
  from Cons.IH [OF this] Cons.IH [OF Cons.prems(1)] Cons.prems show ?case by simp
qed simp

section \<open>Lines reach the sink\<close>

lemma lock_output_view:
  "good X cfg s \<Longrightarrow> good X cfg (pslog_buffer_lock_output s)"
  "online snk ok s \<Longrightarrow> online snk ok (pslog_buffer_lock_output s)"
  "e_world (pslog_buffer_lock_output s) = e_world s" "b_data (e_buf (pslog_buffer_lock_output s)) = b_data (e_buf s)"
  by (auto simp: pslog_buffer_lock_output_def good_def ready_def online_def caches_ok_def timestamp_ok_def kvfmt_ok_def
      pslog_output_lock_def)

context emitting_sink
begin

lemma console_line_emitted:
  assumes serve: "serving snk ok X cfg s" and ne: "B \<noteq> []"
    and body: "\<And>u. good X cfg u \<Longrightarrow> view X cfg (body u) = map_option (appends B) (view X cfg u)"
  shows "acc (e_world (console_line cfg body s)) = acc (e_world s) @ B \<and> serving snk ok X cfg (console_line cfg body s)"
proof -
  note o = open_line_online [OF serve]
  let ?o = "pslog_buffer_lock_output (open_line cfg s)"
  have g: "good X cfg ?o" by (rule lock_output_view(1) [OF o(1)])
  let ?w = "pslog_write_buffer True (body ?o)"
  note w = line_written [OF g lock_output_view(2) [OF o(2)] _ lock_output_wf [OF o(4)] ne body [OF g]]
  have data: "b_data (e_buf ?o) = []" by (simp add: lock_output_view o(3))
  note w = w [OF data]
  have un: "pslog_buffer_unlock_output ?w = ?w"
  proof -
    have "good X cfg (body ?o)" using view_SomeD [OF body [OF g] g] by simp
    have "\<not> b_output_locked (e_buf ?w) \<or> b_data (e_buf (body ?o)) = []"
      by (auto simp: pslog_write_buffer_def Let_def clear_buffer_def split: prod.splits)
    moreover have "b_data (e_buf (body ?o)) \<noteq> []"
    proof -
      have "forget_caches (body ?o) = appends B (forget_caches ?o)" using view_SomeD [OF body [OF g] g] by simp
      moreover have "b_data (e_buf (appends B (forget_caches ?o))) \<noteq> []"
        using appends_nonempty [of "forget_caches ?o" "butlast B" "last B"] ne lock_output_view(2) [OF o(2)]
        by (simp add: online_def ready_def)
      ultimately show ?thesis by (metis (no_types) est.select_convs(1) est.surjective est.update_convs(2))
    qed
    ultimately show ?thesis by (simp add: pslog_buffer_unlock_output_def)
  qed
  obtain m where m: "snd (pslog_buffer_destroy_fast (e_buf ?w) (e_world ?w)) =
      (e_world ?w)\<lparr>w_allocs := w_allocs (e_world ?w), w_frees := m\<rparr>" by (rule destroy_world)
  have cl: "console_line cfg body s = ?w\<lparr>e_buf := e_buf s, e_world := (e_world ?w)\<lparr>w_allocs := w_allocs (e_world ?w), w_frees := m\<rparr>\<rparr>"
    unfolding console_line_def un using m by (simp add: case_prod_beta Let_def)
  show ?thesis unfolding cl
    using w(1) o(5) acc_alloc [where w = "e_world ?w" and n = "w_allocs (e_world ?w)" and m = m] line_left [OF w(2)]
    by (simp add: lock_output_view)
qed

lemma emit_console_text:
  assumes "serving snk ok X cfg s" "console_ok X cfg impl clock" "list_all keyed flds"
  shows "acc (e_world (pslog_emit_console X cfg impl level msg flds clock s)) =
      acc (e_world s) @ console_object_text X cfg impl level msg (console_fields_text X cfg flds) clock \<and>
    serving snk ok X cfg (pslog_emit_console X cfg impl level msg flds clock s)"
  unfolding pslog_emit_console_def
  by (rule console_line_emitted [OF assms(1)])
    (auto simp: console_object_text_def Let_def assms(2,3) pslog_append_console_field_set_def)

lemma emit_console_kvfmt_text:
  assumes "serving snk ok X cfg s" "console_ok X cfg impl clock"
    and specs: "list_all (\<lambda>spec. prepared cfg spec = spec) (entry_specs entry)"
  shows "acc (e_world (pslog_emit_console_kvfmt X cfg impl level msg entry e ap clock s)) =
      acc (e_world s) @ console_object_text X cfg impl level msg (console_kvfmt_text X cfg (entry_specs entry) e ap) clock \<and>
    serving snk ok X cfg (pslog_emit_console_kvfmt X cfg impl level msg entry e ap clock s)"
  unfolding pslog_emit_console_kvfmt_def
  by (rule console_line_emitted [OF assms(1)])
    (auto simp: console_object_text_def assms(2) view_console_kvfmt [OF _ specs])

end

end
