(* ===== verification/ConsoleLine.thy ===== *)
theory ConsoleLine
  imports EmitConsole
begin

text \<open>
  What a reader of the console gets: without its SGR sequences a line is the line of a logger without
  colours, on one line and free of control bytes, and format strings give the line of the fields.
\<close>

section \<open>Printable text\<close>

declare strip_sgr.simps(2) [simp del]

definition printable :: "string \<Rightarrow> bool" where
  "printable t = (\<forall>c \<in> set t. 32 \<le> uc c \<and> uc c \<noteq> 127)"

lemma printable_simps [simp]: "printable []" "printable (c # t) = ((32 \<le> uc c \<and> uc c \<noteq> 127) \<and> printable t)"
  "printable (a @ b) = (printable a \<and> printable b)"
  by (auto simp: printable_def)

lemma printable_console [simp]: "printable (console_string_bytes t)" "printable (console_body q t)"
  using console_string_printable [of t] console_body_printable [of q t] by (simp_all add: printable_def list_all_iff)

lemma plain_ascii_printable: "plain_ascii t \<Longrightarrow> printable t"
  by (auto simp: plain_ascii_def printable_def unsafe_byte_def)

lemma safe_printable: "safe_text t \<Longrightarrow> printable t"
  by (auto simp: safe_text_def printable_def unsafe_byte_def)

lemma json_number_printable: "json_number t \<Longrightarrow> printable t"
  unfolding printable_def
proof
  fix c assume "json_number t" "c \<in> set t"
  from json_number_chars [OF this] show "32 \<le> uc c \<and> uc c \<noteq> 127"
    by (auto simp: number_char_def is_digit_def exp_mark_def)
qed

lemma double_printable: "formats_ok X \<Longrightarrow> printable (double_text X v)"
  using double_number [of X v] by (cases "pslog_double_is_nan v"; cases "pslog_double_is_inf v")
    (simp_all add: json_number_printable, simp_all add: double_text_def)

lemma simple_text: "pslog_string_is_console_simple_internal (Some t) = (t \<noteq> [] \<and> console_simple_text t)"
  by (simp add: pslog_string_is_console_simple_internal_def pslog_string_is_console_simple_measure_def console_simple_loop_eq
      console_simple_text_def)

lemma simple_bytes: "console_simple_text t \<Longrightarrow> console_string_bytes t = t"
  by (auto simp: console_string_bytes_def console_simple_text_def console_stop_def unsafe_byte_def)

lemma empty_bytes: "console_string_bytes [] = []"
  by (simp add: console_string_bytes_def)

lemma simple_or_quoted [simp]: "console_simple_or_quoted t = console_string_bytes t"
  by (simp add: console_simple_or_quoted_def simple_text simple_bytes)

lemma value_text_printable:
  assumes "formats_ok X" "value_ok f"
  shows "printable (console_value_text X f)"
proof (cases "f_value f")
  case (V_string sv)
  then have "f_console_simple_value f \<Longrightarrow> take (f_value_len f) (or_empty sv) = console_string_bytes (or_empty sv)"
    using assms(2) by (cases sv) (auto simp: value_ok_def simple_bytes empty_bytes)
  with V_string show ?thesis by (simp add: console_value_text_def)
qed (use assms(1) in \<open>auto simp: console_value_text_def quote_def double_printable plain_ascii_printable plain_ascii_time
      safe_printable duration_safe formats_ok_def\<close>)

section \<open>Without colours\<close>

definition plain_cfg :: "shared_cfg \<Rightarrow> shared_cfg" where
  "plain_cfg cfg = cfg\<lparr>c_color_enabled := False,
     c_console_level_fragments := (\<lambda>i. pslog_level_console_label (std_levels ! i))\<rparr>"

definition fragments_ok :: "shared_cfg \<Rightarrow> bool" where
  "fragments_ok cfg = (\<forall>i < 8. let label = pslog_level_console_label (std_levels ! i) in
     c_console_level_fragments cfg i \<in> {label, in_color cfg (pslog_level_color (c_palette cfg) (std_levels ! i)) @ label @
       in_color cfg (p_reset (c_palette cfg))})"

lemma plain_cfg_sel [simp]: "c_color_enabled (plain_cfg cfg) = False" "c_timestamps (plain_cfg cfg) = c_timestamps cfg"
  "c_console_level_fragments (plain_cfg cfg) i = pslog_level_console_label (std_levels ! i)"
  by (simp_all add: plain_cfg_def)

lemma plain_cfg_stamp [simp]: "timestamp_text X (plain_cfg cfg) clock = timestamp_text X cfg clock"
  by (simp add: timestamp_text_def render_text_def plain_cfg_def)

lemma printable_strip: "printable t \<Longrightarrow> strip_sgr (t @ u) = t @ strip_sgr u"
  by (rule strip_clean) (auto simp: printable_def)

lemma strip_in_color:
  assumes "palette_sgr p"
  shows "strip_sgr ((if b then p_key p else []) @ u) = strip_sgr u" "strip_sgr ((if b then p_reset p else []) @ u) = strip_sgr u"
    "strip_sgr ((if b then p_message p else []) @ u) = strip_sgr u" "strip_sgr ((if b then p_timestamp p else []) @ u) = strip_sgr u"
    "strip_sgr ((if b then p_error p else []) @ u) = strip_sgr u"
    "strip_sgr ((if b then pslog_level_color p level else []) @ u) = strip_sgr u"
    "strip_sgr ((if b then pslog_console_field_value_color p ty else []) @ u) = strip_sgr u"
    "strip_sgr ((if b then kvfmt_value_color p aty else []) @ u) = strip_sgr u"
    "strip_sgr ((if b then console_kvfmt_color p aty else []) @ u) = strip_sgr u"
proof -
  have v: "sgr (pslog_console_field_value_color p ty)"
    using assms by (cases ty) (simp_all add: palette_sgr_def pslog_console_field_value_color_def)
  have w: "sgr (kvfmt_value_color p aty)" "sgr (console_kvfmt_color p aty)"
    using assms by (cases aty; simp add: palette_sgr_def sgr_def)+
  have e: "sgr (p_error p)" using assms by (simp add: palette_sgr_def)
  show "strip_sgr ((if b then p_key p else []) @ u) = strip_sgr u" "strip_sgr ((if b then p_reset p else []) @ u) = strip_sgr u"
    "strip_sgr ((if b then p_message p else []) @ u) = strip_sgr u" "strip_sgr ((if b then p_timestamp p else []) @ u) = strip_sgr u"
    "strip_sgr ((if b then p_error p else []) @ u) = strip_sgr u"
    "strip_sgr ((if b then pslog_level_color p level else []) @ u) = strip_sgr u"
    "strip_sgr ((if b then pslog_console_field_value_color p ty else []) @ u) = strip_sgr u"
    "strip_sgr ((if b then kvfmt_value_color p aty else []) @ u) = strip_sgr u"
    "strip_sgr ((if b then console_kvfmt_color p aty else []) @ u) = strip_sgr u"
    using strip_palette [OF assms] strip_sgr_sgr [OF v] strip_sgr_sgr [OF w(1)] strip_sgr_sgr [OF w(2)] strip_sgr_sgr [OF e]
    by simp_all
qed

lemma strip_space: "strip_sgr (CHR '' '' # u) = CHR '' '' # strip_sgr u" "strip_sgr (CHR ''='' # u) = CHR ''='' # strip_sgr u"
  "strip_sgr (CHR 0x0A # u) = CHR 0x0A # strip_sgr u"
  by (simp_all add: strip_char esc_def)

lemma plain_lead: "console_lead (plain_cfg cfg) k ty = '' '' @ k @ ''=''"
  by (simp add: console_lead_def console_prefix_text_def Let_def)

lemma strip_lead:
  assumes "palette_sgr (c_palette cfg)" "printable k"
  shows "strip_sgr (console_lead cfg k ty @ u) = '' '' @ k @ ''='' @ strip_sgr u"
  using strip_in_color [OF assms(1), of "c_color_enabled cfg"] strip_in_color [OF assms(1), of True] strip_in_color [OF assms(1), of False]
  by (simp add: console_lead_def console_prefix_text_def strip_space printable_strip [OF assms(2)] Let_def)

lemma strip_field:
  assumes "palette_sgr (c_palette cfg)" "formats_ok X" "field_ok f" "printable (field_key f)"
  shows "strip_sgr (console_field_text X cfg f @ u) = console_field_text X (plain_cfg cfg) f @ strip_sgr u"
    and "printable (console_field_text X (plain_cfg cfg) f)"
proof -
  have v: "printable (console_value_text X f)" using assms(2,3) by (intro value_text_printable) (simp_all add: field_ok_def)
  show "strip_sgr (console_field_text X cfg f @ u) = console_field_text X (plain_cfg cfg) f @ strip_sgr u"
    and "printable (console_field_text X (plain_cfg cfg) f)"
    using v assms(4) by (simp_all add: console_field_text_def strip_lead [OF assms(1,4)] plain_lead printable_strip)
qed

lemma strip_fields:
  assumes "palette_sgr (c_palette cfg)" "formats_ok X" "list_all field_ok fs" "list_all (\<lambda>f. printable (field_key f)) fs"
  shows "strip_sgr (console_fields_text X cfg fs @ u) = console_fields_text X (plain_cfg cfg) fs @ strip_sgr u \<and>
    printable (console_fields_text X (plain_cfg cfg) fs)"
  using assms by (induction fs) (simp_all add: console_fields_text_def strip_field)

lemma label_printable: "printable (pslog_level_console_label level)"
  by (cases level) simp_all

lemma level_slot_less: "level_slot level < 8"
  by (cases level) simp_all

lemma strip_fragment:
  assumes "palette_sgr (c_palette cfg)" "fragments_ok cfg"
  shows "strip_sgr (c_console_level_fragments cfg (level_slot level) @ u) =
    pslog_level_console_label (std_levels ! level_slot level) @ strip_sgr u"
proof -
  let ?l = "std_levels ! level_slot level"
  have "c_console_level_fragments cfg (level_slot level) \<in> {pslog_level_console_label ?l,
      in_color cfg (pslog_level_color (c_palette cfg) ?l) @ pslog_level_console_label ?l @ in_color cfg (p_reset (c_palette cfg))}"
    using assms(2) level_slot_less [of level] unfolding fragments_ok_def Let_def by blast
  then show ?thesis
    using strip_in_color [OF assms(1), of "c_color_enabled cfg"] by (auto simp: printable_strip label_printable)
qed

definition console_call_ok :: "libc \<Rightarrow> shared_cfg \<Rightarrow> pslog_logger_impl \<Rightarrow> int \<times> int \<Rightarrow> bool" where
  "console_call_ok X cfg impl clock =
     (console_ok X cfg impl clock \<and> formats_ok X \<and> palette_sgr (c_palette cfg) \<and> fragments_ok cfg \<and>
      (c_timestamps cfg \<longrightarrow> safe_text (timestamp_text X cfg clock)) \<and> list_all field_ok (i_fields impl) \<and>
      list_all (\<lambda>f. printable (field_key f)) (i_fields impl))"

lemma level_field_ok: "field_ok (level_field X impl)" "field_key (level_field X impl) = ''loglevel''"
proof -
  have "console_simple_text (pslog_level_string (i_min_level impl))" "pslog_level_string (i_min_level impl) \<noteq> []"
    by (cases "i_min_level impl"; simp add: console_simple_text_def unsafe_byte_def)+
  moreover have "safe_text ''loglevel''" by (rule plain_ascii_safe) (simp add: unsafe_byte_def)
  ultimately show "field_ok (level_field X impl)"
    using plain_ascii_safe [OF level_string_ascii [of "i_min_level impl"]]
    by (simp add: field_ok_def key_ok_def value_ok_def level_field_def level_string_len)
  show "field_key (level_field X impl) = ''loglevel''" by (simp add: level_field_def field_key_def)
qed

lemma strip_line:
  assumes ok: "console_call_ok X cfg impl clock"
    and flds: "\<And>u. strip_sgr (ft @ u) = pt @ strip_sgr u" "printable pt"
  shows "\<exists>t. strip_sgr (console_object_text X cfg impl level msg ft clock) = t @ [CHR 0x0A] \<and> printable t \<and>
    console_object_text X (plain_cfg cfg) impl level msg pt clock = t @ [CHR 0x0A]"
proof -
  have p: "palette_sgr (c_palette cfg)" "formats_ok X" "fragments_ok cfg" "list_all field_ok (i_fields impl)"
    "list_all (\<lambda>f. printable (field_key f)) (i_fields impl)" "c_timestamps cfg \<longrightarrow> printable (timestamp_text X cfg clock)"
    using ok by (auto simp: console_call_ok_def safe_printable)
  note c = strip_in_color [OF p(1), of "c_color_enabled cfg"] strip_space strip_fragment [OF p(1,3)]
    strip_fields [OF p(1,2,4,5), THEN conjunct1] strip_fields [OF p(1,2,4,5), THEN conjunct2]
  have lf: "strip_sgr (console_field_text X cfg (level_field X impl) @ u) = console_field_text X (plain_cfg cfg) (level_field X impl) @ strip_sgr u"
    "printable (console_field_text X (plain_cfg cfg) (level_field X impl))" for u
    using strip_field [OF p(1,2) level_field_ok(1)] level_field_ok(2) by simp_all
  show ?thesis
    using p(6) flds lf c
    by (intro exI [where x = "butlast (console_object_text X (plain_cfg cfg) impl level msg pt clock)"])
      (simp add: console_object_text_def console_head_text_def message_lead_def printable_strip label_printable butlast_append)
qed

section \<open>Format strings\<close>

lemma strip_kvfmt_lead:
  assumes "palette_sgr (c_palette cfg)" "printable (spec_key spec)"
  shows "strip_sgr (kvfmt_lead cfg spec @ u) = '' '' @ spec_key spec @ ''='' @ strip_sgr u"
  using strip_in_color [OF assms(1), of "c_color_enabled cfg"] strip_in_color [OF assms(1), of True]
  by (simp add: kvfmt_lead_def kvfmt_console_text_def strip_space printable_strip [OF assms(2)] Let_def)

lemma strip_kvfmt_value:
  assumes "palette_sgr (c_palette cfg)" "formats_ok X"
  shows "strip_sgr (kvfmt_value_text X cfg spec e ap @ u) =
      console_value_text X (materialize_spec MODE_CONSOLE e spec ap) @ strip_sgr u"
    and "printable (console_value_text X (materialize_spec MODE_CONSOLE e spec ap))"
proof -
  have v: "kvfmt_value_text X cfg spec e ap = (if ks_arg_type spec = ARG_ERRNO then in_color cfg (p_error (c_palette cfg)) else []) @
      console_value_text X (materialize_spec MODE_CONSOLE e spec ap)"
  proof (cases "ks_arg_type spec")
    case ARG_STRING
    then show ?thesis
      by (auto simp: kvfmt_value_text_def console_value_text_def materialize_spec_def ascii_trusted_measure_spec Let_def
          pslog_string_is_console_simple_internal_def [symmetric] simple_text simple_bytes)
  qed (simp_all add: kvfmt_value_text_def console_value_text_def int_of_errno_def ucast_scast_32)
  show p: "printable (console_value_text X (materialize_spec MODE_CONSOLE e spec ap))"
  proof (cases "ks_arg_type spec")
    case ARG_STRING
    then have "console_value_text X (materialize_spec MODE_CONSOLE e spec ap) = console_string_bytes (or_empty (va_string ap))"
      using v by (simp add: kvfmt_value_text_def)
    then show ?thesis by simp
  qed (use assms(2) in \<open>simp_all add: console_value_text_def double_printable plain_ascii_printable formats_ok_def\<close>)
  show "strip_sgr (kvfmt_value_text X cfg spec e ap @ u) =
      console_value_text X (materialize_spec MODE_CONSOLE e spec ap) @ strip_sgr u"
    using strip_in_color [OF assms(1), of "c_color_enabled cfg"] by (simp add: v printable_strip [OF p])
qed

lemma strip_kvfmt:
  assumes "palette_sgr (c_palette cfg)" "formats_ok X" "spec_keys_ok specs"
  shows "strip_sgr (console_kvfmt_text X cfg specs e ap @ u) =
      console_fields_text X (plain_cfg cfg) (materialize_specs MODE_CONSOLE e specs ap) @ strip_sgr u \<and>
    printable (console_fields_text X (plain_cfg cfg) (materialize_specs MODE_CONSOLE e specs ap))"
  using assms
proof (induction specs arbitrary: ap)
  case (Cons spec specs)
  have k: "spec_key spec \<noteq> []" "safe_text (spec_key spec)" "spec_keys_ok specs"
    using Cons.prems by (simp_all add: spec_keys_ok_def)
  have ne: "ks_key_len spec \<noteq> 0" "snd (ks_key spec) \<noteq> []" using k(1) by (auto simp: spec_key_def)
  from Cons.IH [OF Cons.prems(1,2) k(3), of "va_next (ks_arg_type spec) ap"] show ?case
    using strip_kvfmt_lead [OF Cons.prems(1) safe_printable [OF k(2)]] strip_kvfmt_value [OF Cons.prems(1,2), where spec = spec and e = e and ap = ap] ne
      safe_printable [OF k(2)]
    by (simp add: console_fields_text_def console_field_text_def plain_lead)
qed simp

lemma materialized_keyed:
  assumes "spec_keys_ok specs"
  shows "list_all keyed (materialize_specs mode e specs ap)"
  using assms
proof (induction specs arbitrary: ap)
  case (Cons spec specs)
  have "length (spec_key spec) = ks_key_len spec" using Cons.prems by (simp add: spec_keys_ok_def spec_key_def)
  moreover have "spec_keys_ok specs" using Cons.prems by (simp add: spec_keys_ok_def)
  ultimately show ?case using Cons.IH by (simp add: keyed_def)
qed simp

lemma materialized_printable: "spec_keys_ok specs \<Longrightarrow> list_all (\<lambda>f. printable (field_key f)) (materialize_specs mode e specs ap)"
  by (induction specs arbitrary: ap) (simp_all add: spec_keys_ok_def safe_printable)

definition console_cfg :: "bool \<Rightarrow> shared_cfg" where
  "console_cfg color = (color_cfg MODE_CONSOLE color)\<lparr>c_console_level_fragments := (\<lambda>i. pslog_level_console_label (std_levels ! i)),
     c_console_message_prefix := []\<rparr>"

lemma demo_call: "console_call_ok demo_libc (console_cfg color) demo_impl (0, 0)"
  using demo_fields_ok default_sgr
  by (simp add: console_call_ok_def console_ok_def demo_zone demo_formats clock_ok_def console_cfg_def fragments_ok_def
      demo_impl_def Let_def) (simp add: demo_fields_def list_all_iff field_ok_keyed pslog_i64_def pslog_str_def field_key_def Let_def case_prod_beta)

lemma demo_keys: "list_all (\<lambda>f. printable (field_key f)) demo_fields"
  by (simp add: demo_fields_def pslog_i64_def pslog_str_def field_key_def Let_def case_prod_beta)

section \<open>Properties\<close>

text \<open>
  Claim C5. A console log call delivers one printable line: on an open logger the descriptor receives,
  after what it had, a line that without its SGR sequences is the line of a logger without colours
  (timestamp, label, message, then \<open>key=value\<close> for the logger's fields, the call's fields and the log
  level), with no control byte before its newline, whatever bytes message and values hold. The logger
  then serves the next call.
\<close>

theorem console_line_plain:
  assumes "fd_serving a fd X cfg s" "console_call_ok X cfg impl clock"
    and "list_all field_ok flds" "list_all (\<lambda>f. printable (field_key f)) flds"
  shows "\<exists>line t. accepted (T_fd fd) (e_world (pslog_emit_console X cfg impl level msg flds clock s)) =
        accepted (T_fd fd) (e_world s) @ line \<and>
      strip_sgr line = t @ [CHR 0x0A] \<and> printable t \<and>
      t @ [CHR 0x0A] = console_object_text X (plain_cfg cfg) impl level msg (console_fields_text X (plain_cfg cfg) flds) clock \<and>
      fd_serving a fd X cfg (pslog_emit_console X cfg impl level msg flds clock s)"
proof -
  have p: "palette_sgr (c_palette cfg)" "formats_ok X" "console_ok X cfg impl clock" using assms(2) by (auto simp: console_call_ok_def)
  have k: "list_all keyed flds" using assms(3) by (simp add: list_all_iff field_ok_keyed)
  note f = strip_fields [OF p(1,2) assms(3,4)]
  from strip_line [OF assms(2) f [THEN conjunct1] f [THEN conjunct2], of level msg] emit_fd.emit_console_text [OF assms(1) p(3) k, of level msg]
  show ?thesis by (metis (no_types, lifting))
qed

lemma console_line_plain_witness:
  "\<exists>t. strip_sgr (accepted (T_fd 3) (e_world (pslog_emit_console demo_libc (console_cfg True) demo_impl LEVEL_INFO
      (Some [CHR ''a'', CHR 0x0A]) demo_fields (0, 0) (demo_est (S_fd 1 (Some 3)) 64 (\<lambda>k. Short (k + 1)))))) = t @ [CHR 0x0A] \<and> printable t"
proof -
  have eq: "accepted (T_fd 3) (e_world (demo_est (S_fd 1 (Some 3)) 64 (\<lambda>k. Short (k + 1)))) = []"
    by (simp add: demo_eqs accepted_def)
  show ?thesis
    using console_line_plain [OF demo_serving demo_call demo_fields_ok demo_keys, where level = LEVEL_INFO and msg = "Some [CHR ''a'', CHR 0x0A]"]
    unfolding eq by force
qed

text \<open>
  Claim C13. On the console too the two ways to log agree: the line of a format string with its
  arguments and the line of the materialised fields differ in their SGR sequences only.
\<close>

theorem console_kvfmt_agrees:
  assumes "fd_serving a fd X cfg s" "console_call_ok X cfg impl clock"
    and "list_all (\<lambda>spec. prepared cfg spec = spec) (ke_fields entry)" "spec_keys_ok (ke_fields entry)"
    and "pslog_materialize_kvfmt_fields (Some entry) MODE_CONSOLE e ap = Some flds" "list_all field_ok flds"
  shows "\<exists>line line' t.
      accepted (T_fd fd) (e_world (pslog_emit_console_kvfmt X cfg impl level msg (Some entry) e ap clock s)) =
        accepted (T_fd fd) (e_world s) @ line \<and>
      accepted (T_fd fd) (e_world (pslog_emit_console X cfg impl level msg flds clock s)) =
        accepted (T_fd fd) (e_world s) @ line' \<and>
      strip_sgr line = t @ [CHR 0x0A] \<and> strip_sgr line' = t @ [CHR 0x0A] \<and> printable t"
proof -
  have p: "palette_sgr (c_palette cfg)" "formats_ok X" "console_ok X cfg impl clock" using assms(2) by (auto simp: console_call_ok_def)
  have flds: "flds = materialize_specs MODE_CONSOLE e (ke_fields entry) ap"
    using assms(5) by (simp add: pslog_materialize_kvfmt_fields_def split: if_splits)
  have keys: "list_all (\<lambda>f. printable (field_key f)) flds"
    unfolding flds by (rule materialized_printable [OF assms(4)])
  have k: "list_all keyed flds" unfolding flds by (rule materialized_keyed [OF assms(4)])
  note f = strip_fields [OF p(1,2) assms(6) keys]
  note g = strip_kvfmt [OF p(1,2) assms(4), of e ap, folded flds]
  from strip_line [OF assms(2) f [THEN conjunct1] f [THEN conjunct2], of level msg] obtain t where
    t: "strip_sgr (console_object_text X cfg impl level msg (console_fields_text X cfg flds) clock) = t @ [CHR 0x0A]" "printable t"
    "console_object_text X (plain_cfg cfg) impl level msg (console_fields_text X (plain_cfg cfg) flds) clock = t @ [CHR 0x0A]" by blast
  from strip_line [OF assms(2) g [THEN conjunct1] g [THEN conjunct2], of level msg] t(3)
  have t': "strip_sgr (console_object_text X cfg impl level msg (console_kvfmt_text X cfg (ke_fields entry) e ap) clock) = t @ [CHR 0x0A]"
    by auto
  have sp: "list_all (\<lambda>spec. prepared cfg spec = spec) (entry_specs (Some entry))" using assms(3) by (simp add: entry_specs_def)
  show ?thesis
    using emit_fd.emit_console_kvfmt_text [OF assms(1) p(3) sp, of level msg e ap] emit_fd.emit_console_text [OF assms(1) p(3) k, of level msg] t t'
    by (simp add: entry_specs_def)
qed

lemma console_kvfmt_agrees_witness:
  "\<exists>line t. accepted (T_fd 3) (e_world (pslog_emit_console_kvfmt demo_libc (console_cfg True) demo_impl LEVEL_INFO None
        (Some \<lparr>ke_kvfmt = None, ke_kvfmt_len = 0, ke_kvfmt_hash = 0,
           ke_fields = [prepared (console_cfg True) \<lparr>ks_key = (0x40, ''n=%d''), ks_key_len = 1, ks_arg_type = ARG_SIGNED_INT,
             ks_console_prefix = [], ks_json_color_prefix = []\<rparr>]\<rparr>)
        0 [A_int 7] (0, 0) (demo_est (S_fd 1 (Some 3)) 64 (\<lambda>k. Short (k + 1))))) = line \<and>
     strip_sgr line = t @ [CHR 0x0A] \<and> printable t"
proof -
  let ?spec = "\<lparr>ks_key = (0x40, ''n=%d''), ks_key_len = 1, ks_arg_type = ARG_SIGNED_INT, ks_console_prefix = [], ks_json_color_prefix = []\<rparr>"
  let ?e = "\<lparr>ke_kvfmt = None, ke_kvfmt_len = 0, ke_kvfmt_hash = 0, ke_fields = [prepared (console_cfg True) ?spec]\<rparr>"
  have sp: "list_all (\<lambda>spec. prepared (console_cfg True) spec = spec) (ke_fields ?e)" by simp
  have n: "safe_text ''n''" by (rule plain_ascii_safe) (simp add: unsafe_byte_def)
  then have ks: "spec_keys_ok (ke_fields ?e)" by (simp add: spec_keys_ok_def spec_key_def)
  let ?f = "materialize_spec MODE_CONSOLE 0 (prepared (console_cfg True) ?spec) [A_int 7]"
  have fl: "pslog_materialize_kvfmt_fields (Some ?e) MODE_CONSOLE 0 [A_int 7] = Some [?f]"
    by (simp add: pslog_materialize_kvfmt_fields_def kvfmt_max_fields_def)
  have fo: "list_all field_ok [?f]" using n by (simp add: field_ok_def key_ok_def value_ok_def)
  have eq: "accepted (T_fd 3) (e_world (demo_est (S_fd 1 (Some 3)) 64 (\<lambda>k. Short (k + 1)))) = []"
    by (simp add: demo_eqs accepted_def)
  show ?thesis
    using console_kvfmt_agrees [OF demo_serving demo_call sp ks fl fo, where level = LEVEL_INFO and msg = None] unfolding eq by force
qed

end
