(* ===== verification/Setup.thy ===== *)
theory Setup
  imports ConsoleLine
begin

text \<open>
  Building a logger: the literals that \<open>pslog_new\<close> prepares, its configuration, the shared state with
  its reference count, and closing the output (\<open>src/pslog.c\<close>).
\<close>

section \<open>Prepared literals\<close>

definition console_level_fragment_capacity :: nat where
  "console_level_fragment_capacity = 64"

definition json_color_literal_capacity :: nat where
  "json_color_literal_capacity = 128"

definition pslog_build_console_level_fragment :: "shared_cfg \<Rightarrow> pslog_level \<Rightarrow> string" where
  "pslog_build_console_level_fragment cfg level =
     (let label = take (pslog_level_console_label_len level) (pslog_level_console_label level);
          color_code = take (pslog_level_color_len cfg level) (pslog_level_color (c_palette cfg) level);
          reset = p_reset (c_palette cfg);
          total' = (if c_color_enabled cfg \<and> length color_code > 0
                    then length label + (length color_code + length reset) else length label);
          color_code = (if total' \<ge> console_level_fragment_capacity then [] else color_code)
      in (if c_color_enabled cfg \<and> length color_code > 0 then color_code else []) @ label @
         (if c_color_enabled cfg \<and> length reset > 0 \<and> length color_code > 0 then reset else []))"

definition pslog_append_json_color_string :: "cstring \<Rightarrow> cstring \<Rightarrow> cstring \<Rightarrow> est \<Rightarrow> est" where
  "pslog_append_json_color_string color text' suffix' s =
     (let s1 = (if length color > 0 then append_n_fast color s else s);
          s2 = (if length text' > 0 then append_n_fast text' s1 else s1)
      in if length suffix' > 0 then append_n_fast suffix' s2 else s2)"

definition pslog_store_json_color_literal :: "nat \<Rightarrow> string \<Rightarrow> string" where
  "pslog_store_json_color_literal capacity data = (if length data + 1 > capacity then [] else data)"

definition json_level_bytes :: "shared_cfg \<Rightarrow> cstring \<Rightarrow> pslog_level \<Rightarrow> est \<Rightarrow> est" where
  "json_level_bytes cfg key level s =
     (let palette = c_palette cfg;
          s1 = pslog_append_json_color_string (p_key palette) (dquote # key @ [dquote, CHR '':'']) [] s;
          s2 = pslog_append_json_color_string
                 (take (pslog_level_color_len cfg level) (pslog_level_color palette level)) [dquote] [] s1;
          s3 = append_n_fast (take (pslog_level_string_len level) (pslog_level_string level)) s2
      in append_n_fast (p_reset palette) (append_char_fast dquote s3))"

definition stored_literal :: "(est \<Rightarrow> est) \<Rightarrow> est \<Rightarrow> string \<times> est" where
  "stored_literal f s =
     (let (t, s1) = with_local_buffer (json_color_literal_capacity - 1) f s
      in (pslog_store_json_color_literal json_color_literal_capacity t, s1))"

text \<open>The loop over the levels, each with its index.\<close>

fun build_level_literals :: "shared_cfg \<Rightarrow> (nat \<times> pslog_level) list \<Rightarrow> est \<Rightarrow> shared_cfg \<times> est" where
  "build_level_literals cfg [] s = (cfg, s)"
| "build_level_literals cfg ((i, level) # rest) s =
     (let (a, s1) = stored_literal (json_level_bytes cfg (if c_verbose_fields cfg then ''level'' else ''lvl'') level) s;
          cfg1 = cfg\<lparr>c_json_color_level_fields := (c_json_color_level_fields cfg)(i := a)\<rparr>;
          (b, s2) = stored_literal (json_level_bytes cfg1 ''loglevel'' level) s1;
          cfg2 = cfg1\<lparr>c_json_color_min_level_fields := (c_json_color_min_level_fields cfg1)(i := b)\<rparr>
      in build_level_literals cfg2 rest s2)"

definition pslog_build_json_color_literals :: "shared_cfg \<Rightarrow> est \<Rightarrow> shared_cfg \<times> est" where
  "pslog_build_json_color_literals cfg s =
     (let palette = c_palette cfg;
          msg_key = dquote # (if c_verbose_fields cfg then ''message'' else ''msg'') @ [dquote, CHR '':''];
          time_key = dquote # (if c_verbose_fields cfg then ''time'' else ''ts'') @ [dquote, CHR '':''];
          (cfg1, s1) = build_level_literals cfg (zip [0..<8] std_levels) s;
          (m, s2) = stored_literal (\<lambda>u. append_n_fast (p_message palette)
                      (pslog_append_json_color_string (p_message_key palette) msg_key [] u)) s1;
          (t, s3) = stored_literal (\<lambda>u. append_char_fast dquote (append_n_fast (p_timestamp palette) (append_n_fast (p_reset palette)
                      (pslog_append_json_color_string (p_key palette) time_key [] u)))) s2;
          (x, s4) = stored_literal (\<lambda>u. append_n_fast (p_reset palette) (append_char_fast dquote u)) s3
      in (cfg1\<lparr>c_json_color_message_prefix := m, c_json_color_timestamp_prefix := t, c_json_color_timestamp_suffix := x\<rparr>, s4))"

definition pslog_build_console_literals :: "shared_cfg \<Rightarrow> est \<Rightarrow> shared_cfg \<times> est" where
  "pslog_build_console_literals cfg s =
     (let (t, s1) = stored_literal (\<lambda>u.
            let u1 = append_char_fast CHR '' '' u
            in if c_color_enabled cfg then append_n_fast (p_message (c_palette cfg)) u1 else u1) s
      in (cfg\<lparr>c_console_message_prefix := t\<rparr>, s1))"

section \<open>Closing and releasing the shared state\<close>

definition pslog_close_shared_locked :: "pslog_shared \<Rightarrow> bool \<Rightarrow> world \<Rightarrow> int \<times> pslog_shared \<times> world" where
  "pslog_close_shared_locked sh allow_close w =
     (if s_closed sh then (s_close_err sh, sh, w)
      else if \<not> allow_close \<or> \<not> o_owned (s_output sh) then (0, sh, w)
      else
        (let (close_err, w1) = (if o_close (s_output sh) then sink_close (o_sink (s_output sh)) w else (0, w));
             out = s_output sh
         in (close_err, sh\<lparr>s_closed := True, s_close_err := close_err,
               s_output := Output (o_sink out) False (o_isatty out) (o_owned out)\<rparr>, w1)))"

definition pslog_close_shared :: "bool \<Rightarrow> est \<Rightarrow> int \<times> est" where
  "pslog_close_shared allow_close s =
     (let (r, sh, w) = pslog_close_shared_locked (pslog_output_lock (e_shared s)) allow_close (e_world s)
      in (r, s\<lparr>e_shared := pslog_output_unlock sh, e_world := w\<rparr>))"

definition pslog_retain_shared :: "est \<Rightarrow> est" where
  "pslog_retain_shared s =
     s\<lparr>e_shared := pslog_state_unlock (let sh = pslog_state_lock (e_shared s) in sh\<lparr>s_refcount := s_refcount sh + 1\<rparr>)\<rparr>"

text \<open>
  The blocks of the shared state: an own copy of the text in every cached format, the pointer cache and
  the state itself; \<open>time_format\<close> says that the time format was copied. The first result is that
  the state was freed.
\<close>

definition free_kvfmt_cache :: "pslog_shared \<Rightarrow> world \<Rightarrow> world" where
  "free_kvfmt_cache sh w =
     fold (\<lambda>i. pslog_free_internal (case s_kvfmt_cache sh i of None \<Rightarrow> False | Some e \<Rightarrow> ke_kvfmt e \<noteq> None)) [0..<512] w"

definition pslog_release_shared :: "bool \<Rightarrow> est \<Rightarrow> bool \<times> est" where
  "pslog_release_shared time_format s =
     (let sh = pslog_state_lock (e_shared s) in
      if s_refcount sh > 1
      then (False, s\<lparr>e_shared := pslog_state_unlock (sh\<lparr>s_refcount := s_refcount sh - 1\<rparr>)\<rparr>)
      else
        (let (_, s1) = pslog_close_shared True (s\<lparr>e_shared := pslog_state_unlock sh\<rparr>);
             sh1 = e_shared s1;
             w1 = free_kvfmt_cache sh1 (e_world s1);
             w2 = pslog_free_internal time_format w1;
             w3 = pslog_free_internal (s_kvfmt_ptr_cache sh1 \<noteq> None) w2
         in (True, s1\<lparr>e_shared := sh1\<lparr>s_kvfmt_cache := (\<lambda>_. None), s_kvfmt_ptr_cache := None\<rparr>,
                      e_world := pslog_free_internal True w3\<rparr>)))"

section \<open>New loggers\<close>

text \<open>\<open>stdout\<close>, as a stream of the world.\<close>

definition stdout_fp :: "nat option" where
  "stdout_fp = Some 1"

definition pslog_default_config :: pslog_config where
  "pslog_default_config = \<lparr>cf_mode = MODE_CONSOLE, cf_color = COLOR_AUTO,
     cf_non_finite_float_policy = NON_FINITE_FLOAT_AS_STRING, cf_line_buffer_capacity = default_line_buffer_capacity,
     cf_min_level = LEVEL_DEBUG, cf_timestamps = True, cf_utc = False, cf_with_level_field = False,
     cf_verbose_fields = False, cf_time_format = None, cf_palette = Some pslog_palette_default,
     cf_output = pslog_output_from_fp stdout_fp False\<rparr>"

definition effective_config :: "pslog_config option \<Rightarrow> pslog_config" where
  "effective_config config =
     (case config of
        None \<Rightarrow> pslog_default_config
      | Some c \<Rightarrow>
          c\<lparr>cf_palette := (case cf_palette c of None \<Rightarrow> Some pslog_palette_default | Some p \<Rightarrow> Some p),
            cf_output := (if o_sink (cf_output c) = S_null then pslog_output_from_fp stdout_fp False else cf_output c)\<rparr>)"

definition zero_shared :: "pslog_output \<Rightarrow> pslog_shared" where
  "zero_shared out = \<lparr>s_state_mutex = mutex_init, s_output_mutex = mutex_init, s_output = out, s_closed = False,
     s_close_err = 0, s_refcount = 0, s_cached_timestamp_second = 0, s_cached_timestamp = [], s_timestamp_cache_hits = 0,
     s_timestamp_cache_misses = 0, s_kvfmt_cache = (\<lambda>_. None), s_kvfmt_ptr_cache = None,
     s_console_prefix_cache = (\<lambda>_. None), s_double_cache = (\<lambda>_. None)\<rparr>"

definition pslog_allocate_logger :: "shared_cfg \<Rightarrow> est \<Rightarrow> pslog_logger_impl option \<times> est" where
  "pslog_allocate_logger cfg s =
     (let (logger, w1) = pslog_calloc_internal 1 192 (e_world s);
          (impl, w2) = pslog_calloc_internal 1 56 w1
      in if \<not> logger \<or> \<not> impl
         then (None, s\<lparr>e_world := pslog_free_internal impl (pslog_free_internal logger w2)\<rparr>)
         else (Some \<lparr>i_fields = [], i_field_prefix = [], i_min_level = c_min_level cfg, i_include_level_field = False,
                     i_can_close_shared = o_owned (s_output (e_shared s))\<rparr>, s\<lparr>e_world := w2\<rparr>))"

definition config_color :: "pslog_config \<Rightarrow> world \<Rightarrow> bool" where
  "config_color c w =
     (case cf_color c of
        COLOR_ALWAYS \<Rightarrow> True
      | COLOR_NEVER \<Rightarrow> False
      | COLOR_AUTO \<Rightarrow> o_isatty (cf_output c) \<and> sink_isatty (o_sink (cf_output c)) w)"

definition config_cfg :: "pslog_config \<Rightarrow> nat \<Rightarrow> bool \<Rightarrow> shared_cfg" where
  "config_cfg c capacity color =
     \<lparr>c_mode = cf_mode c, c_non_finite_float_policy = pslog_normalize_non_finite_float_policy (cf_non_finite_float_policy c),
      c_line_buffer_capacity = capacity, c_min_level = cf_min_level c, c_timestamps = cf_timestamps c,
      c_timestamp_cacheable = (\<not> pslog_time_format_is_rfc3339nano (cf_time_format c)), c_utc = cf_utc c,
      c_verbose_fields = cf_verbose_fields c, c_color_enabled = color, c_time_format = cf_time_format c,
      c_palette = (case cf_palette c of None \<Rightarrow> pslog_palette_default | Some p \<Rightarrow> p),
      c_console_level_fragments = (\<lambda>_. []), c_json_color_level_fields = (\<lambda>_. []), c_json_color_min_level_fields = (\<lambda>_. []),
      c_json_color_message_prefix = [], c_json_color_timestamp_prefix = [], c_json_color_timestamp_suffix = [],
      c_console_message_prefix = []\<rparr>"

definition build_fragments :: "shared_cfg \<Rightarrow> shared_cfg" where
  "build_fragments cfg =
     cfg\<lparr>c_console_level_fragments := (\<lambda>i. if i < 8 then pslog_build_console_level_fragment cfg (std_levels ! i) else [])\<rparr>"

text \<open>
  The results of the two \<open>pthread_mutex_init\<close> calls are arguments. The e-state carries the caller's
  buffer through; its shared state is the new logger's.
\<close>

definition pslog_new ::
  "bool \<Rightarrow> bool \<Rightarrow> pslog_config option \<Rightarrow> est \<Rightarrow> (shared_cfg \<times> pslog_logger_impl) option \<times> est" where
  "pslog_new state_mutex_ok output_mutex_ok config s =
     (let effective = effective_config config in
      case pslog_normalize_line_buffer_capacity (cf_line_buffer_capacity effective) of
        None \<Rightarrow> (None, s)
      | Some capacity \<Rightarrow>
          (let (ok, w1) = pslog_calloc_internal 1 (2 ^ 20) (e_world s) in
           if \<not> ok then (None, s\<lparr>e_world := w1\<rparr>)
           else if \<not> state_mutex_ok \<or> \<not> output_mutex_ok then (None, s\<lparr>e_world := pslog_free_internal True w1\<rparr>)
           else
             (let s1 = s\<lparr>e_shared := zero_shared (cf_output effective), e_world := w1\<rparr>;
                  (time_format, w2) =
                    (case cf_time_format effective of
                       None \<Rightarrow> (None, w1)
                     | Some t \<Rightarrow> pslog_memdup_local (t @ [CHR 0x00]) w1)
              in if cf_time_format effective \<noteq> None \<and> time_format = None
                 then (None, snd (pslog_release_shared False (s1\<lparr>e_world := w2\<rparr>)))
                 else
                   (let (ptrs, w3) = pslog_calloc_internal 256 16 w2;
                        sh = (e_shared s1)\<lparr>s_kvfmt_ptr_cache := (if ptrs then Some (\<lambda>_. None) else None), s_refcount := 1\<rparr>;
                        s2 = s1\<lparr>e_shared := sh, e_world := w3\<rparr>;
                        cfg1 = build_fragments (config_cfg effective capacity (config_color effective w3));
                        (cfg2, s3) = pslog_build_console_literals cfg1 s2;
                        (cfg, s4) = (if c_color_enabled cfg2 \<and> c_mode cfg2 = MODE_JSON
                                     then pslog_build_json_color_literals cfg2 s3 else (cfg2, s3))
                    in case pslog_allocate_logger cfg s4 of
                         (None, s5) \<Rightarrow> (None, snd (pslog_release_shared (time_format \<noteq> None) s5))
                       | (Some impl, s5) \<Rightarrow>
                           (Some (cfg, impl\<lparr>i_include_level_field := cf_with_level_field effective\<rparr>), s5)))))"

section \<open>The literals are the texts the emitters expect\<close>

lemma fragment_text:
  "pslog_build_console_level_fragment cfg level \<in> {pslog_level_console_label level,
     in_color cfg (pslog_level_color (c_palette cfg) level) @ pslog_level_console_label level @ in_color cfg (p_reset (c_palette cfg))}"
  "length (pslog_build_console_level_fragment cfg level) < 64"
proof -
  have l: "take (pslog_level_console_label_len level) (pslog_level_console_label level) = pslog_level_console_label level"
    "length (pslog_level_console_label level) = 3"
    by (cases level; simp add: pslog_level_console_label_len_def)+
  show "pslog_build_console_level_fragment cfg level \<in> {pslog_level_console_label level,
     in_color cfg (pslog_level_color (c_palette cfg) level) @ pslog_level_console_label level @ in_color cfg (p_reset (c_palette cfg))}"
    "length (pslog_build_console_level_fragment cfg level) < 64"
    by (auto simp: pslog_build_console_level_fragment_def l level_color_len console_level_fragment_capacity_def Let_def)
qed

lemma fragments_built: "fragments_ok (build_fragments cfg)"
  unfolding fragments_ok_def Let_def
proof (intro allI impI)
  fix i :: nat assume "i < 8"
  with fragment_text(1) [of cfg "std_levels ! i"]
  show "c_console_level_fragments (build_fragments cfg) i \<in> {pslog_level_console_label (std_levels ! i),
      in_color (build_fragments cfg) (pslog_level_color (c_palette (build_fragments cfg)) (std_levels ! i)) @
      pslog_level_console_label (std_levels ! i) @ in_color (build_fragments cfg) (p_reset (c_palette (build_fragments cfg)))}"
    by (auto simp: build_fragments_def)
qed

lemma color_string_appends [emit_simps]: "ready s \<Longrightarrow> pslog_append_json_color_string c t u s = appends (c @ t @ u) s"
  by (auto simp: pslog_append_json_color_string_def emit_simps Let_def)

lemma level_bytes_appends [emit_simps]:
  "ready s \<Longrightarrow> json_level_bytes cfg key level s = appends (level_member (c_palette cfg) key level) s"
  by (simp add: json_level_bytes_def level_member_def level_color_len level_string_len quote_def emit_simps Let_def)

lemma stored_literal_spec:
  assumes "all_alloc (e_world s)" "length B \<le> 2 ^ 62" "\<And>u. ready u \<Longrightarrow> f u = appends B u"
  shows "\<exists>t s'. stored_literal f s = (t, s') \<and> t \<in> {[], B} \<and> allocs_only s s'"
  using local_buffer_collects [OF assms, of "json_color_literal_capacity - 1"]
  by (auto simp: stored_literal_def pslog_store_json_color_literal_def case_prod_beta)

lemma palette_sizedD:
  assumes "palette_sized p"
  shows "length (p_key p) \<le> 2 ^ 48" "length (p_reset p) \<le> 2 ^ 48" "length (p_message p) \<le> 2 ^ 48"
    "length (p_message_key p) \<le> 2 ^ 48" "length (p_timestamp p) \<le> 2 ^ 48" "length (pslog_level_color p level) \<le> 2 ^ 48"
proof -
  show "length (p_key p) \<le> 2 ^ 48" "length (p_reset p) \<le> 2 ^ 48" "length (p_message p) \<le> 2 ^ 48"
    "length (p_message_key p) \<le> 2 ^ 48" "length (p_timestamp p) \<le> 2 ^ 48"
    using assms by (simp_all add: palette_sized_def palette_strings_def sized_def)
  show "length (pslog_level_color p level) \<le> 2 ^ 48"
    using assms by (cases level) (simp_all add: palette_sized_def palette_strings_def sized_def)
qed

lemma level_member_sized: "palette_sized p \<Longrightarrow> length key \<le> 10 \<Longrightarrow> length (level_member p key level) \<le> 2 ^ 62"
proof -
  assume p: "palette_sized p" "length key \<le> 10"
  have "length (pslog_level_string level) \<le> 10" by (cases level) simp_all
  with p(2) palette_sizedD(1,2) [OF p(1)] palette_sizedD(6) [OF p(1), of level] show ?thesis by (simp add: level_member_def quote_def)
qed

definition level_literals_ok :: "shared_cfg \<Rightarrow> bool" where
  "level_literals_ok cfg =
     (let p = c_palette cfg in
      (\<forall>i < 8. c_json_color_level_fields cfg i \<in> {[], level_member p (level_key cfg) (std_levels ! i)}) \<and>
      (\<forall>i < 8. c_json_color_min_level_fields cfg i \<in> {[], level_member p ''loglevel'' (std_levels ! i)}))"

lemma build_levels_spec:
  assumes "all_alloc (e_world s)" "palette_sized (c_palette cfg)" "level_literals_ok cfg"
    and "\<forall>(i, level) \<in> set rest. level = std_levels ! i"
  shows "\<exists>F G s'. build_level_literals cfg rest s =
      (cfg\<lparr>c_json_color_level_fields := F, c_json_color_min_level_fields := G\<rparr>, s') \<and> allocs_only s s' \<and>
      level_literals_ok (cfg\<lparr>c_json_color_level_fields := F, c_json_color_min_level_fields := G\<rparr>)"
  using assms
proof (induction rest arbitrary: cfg s)
  case Nil
  then show ?case
    by (intro exI [where x = "c_json_color_level_fields cfg"] exI [where x = "c_json_color_min_level_fields cfg"] exI [where x = s]) simp
next
  case (Cons il rest)
  obtain i level where il: "il = (i, level)" "level = std_levels ! i" using Cons.prems(4) by (cases il) auto
  let ?p = "c_palette cfg"
  have key: "level_key cfg = (if c_verbose_fields cfg then ''level'' else ''lvl'')" "length (level_key cfg) \<le> 10"
    by (simp_all add: level_key_def)
  obtain a s1 where a: "stored_literal (json_level_bytes cfg (level_key cfg) level) s = (a, s1)"
    "a \<in> {[], level_member ?p (level_key cfg) level}" "allocs_only s s1"
    using stored_literal_spec [OF Cons.prems(1) level_member_sized [OF Cons.prems(2) key(2)] level_bytes_appends] by blast
  have w1: "all_alloc (e_world s1)" using allocs_only_sel [OF a(3)] Cons.prems(1) by simp
  let ?c1 = "cfg\<lparr>c_json_color_level_fields := (c_json_color_level_fields cfg)(i := a)\<rparr>"
  have ap: "json_level_bytes ?c1 ''loglevel'' level u = appends (level_member ?p ''loglevel'' level) u" if "ready u" for u
    using level_bytes_appends [OF that, of ?c1] by simp
  obtain b s2 where b: "stored_literal (json_level_bytes ?c1 ''loglevel'' level) s1 = (b, s2)"
    "b \<in> {[], level_member ?p ''loglevel'' level}" "allocs_only s1 s2"
    using stored_literal_spec [OF w1 level_member_sized [OF Cons.prems(2)] ap] by force
  have w2: "all_alloc (e_world s2)" using allocs_only_sel [OF b(3)] w1 by simp
  let ?c2 = "?c1\<lparr>c_json_color_min_level_fields := (c_json_color_min_level_fields ?c1)(i := b)\<rparr>"
  have ok: "level_literals_ok ?c2"
    using Cons.prems(3) a(2) b(2) il(2) by (auto simp: level_literals_ok_def level_key_def Let_def)
  obtain F G s' where r: "build_level_literals ?c2 rest s2 =
      (?c2\<lparr>c_json_color_level_fields := F, c_json_color_min_level_fields := G\<rparr>, s')" "allocs_only s2 s'"
      "level_literals_ok (?c2\<lparr>c_json_color_level_fields := F, c_json_color_min_level_fields := G\<rparr>)"
    using Cons.IH [OF w2 _ ok] Cons.prems(2,4) by auto
  have eq: "?c2\<lparr>c_json_color_level_fields := F, c_json_color_min_level_fields := G\<rparr> =
      cfg\<lparr>c_json_color_level_fields := F, c_json_color_min_level_fields := G\<rparr>" by simp
  have "build_level_literals cfg (il # rest) s = build_level_literals ?c2 rest s2"
    using a(1) b(1) by (simp add: il(1) key(1) [symmetric] Let_def)
  with r allocs_only_trans [OF allocs_only_trans [OF a(3) b(3)] r(2)] show ?case unfolding eq by metis
qed

lemma build_json_spec:
  assumes w: "all_alloc (e_world s)" and p: "palette_sized (c_palette cfg)" and l: "level_literals_ok cfg"
  obtains F G m t x s' where "pslog_build_json_color_literals cfg s =
      (cfg\<lparr>c_json_color_level_fields := F, c_json_color_min_level_fields := G, c_json_color_message_prefix := m,
         c_json_color_timestamp_prefix := t, c_json_color_timestamp_suffix := x\<rparr>, s')" "allocs_only s s'"
    "literals_ok (cfg\<lparr>c_json_color_level_fields := F, c_json_color_min_level_fields := G, c_json_color_message_prefix := m,
         c_json_color_timestamp_prefix := t, c_json_color_timestamp_suffix := x\<rparr>)"
proof -
  let ?p = "c_palette cfg"
  have lv: "\<forall>(i, level) \<in> set (zip [0..<8] std_levels). level = std_levels ! i" by (auto simp: set_zip)
  obtain F G s1 where 1: "build_level_literals cfg (zip [0..<8] std_levels) s =
      (cfg\<lparr>c_json_color_level_fields := F, c_json_color_min_level_fields := G\<rparr>, s1)" "allocs_only s s1"
      "level_literals_ok (cfg\<lparr>c_json_color_level_fields := F, c_json_color_min_level_fields := G\<rparr>)"
    using build_levels_spec [OF w p l lv] by blast
  note sz = palette_sizedD(1-5) [OF p]
  have w1: "all_alloc (e_world s1)" using allocs_only_sel [OF 1(2)] w by simp
  have "length (message_head cfg ?p) \<le> 2 ^ 62" using sz by (simp add: message_head_def message_key_def quote_def)
  from stored_literal_spec [OF w1 this, of "\<lambda>u. append_n_fast (p_message ?p) (pslog_append_json_color_string (p_message_key ?p)
      (dquote # (if c_verbose_fields cfg then ''message'' else ''msg'') @ [dquote, CHR '':'']) [] u)"]
  obtain m s2 where 2: "stored_literal (\<lambda>u. append_n_fast (p_message ?p) (pslog_append_json_color_string (p_message_key ?p)
      (dquote # (if c_verbose_fields cfg then ''message'' else ''msg'') @ [dquote, CHR '':'']) [] u)) s1 = (m, s2)"
      "m \<in> {[], message_head cfg ?p}" "allocs_only s1 s2"
    by (auto simp: emit_simps message_head_def message_key_def quote_def)
  have w2: "all_alloc (e_world s2)" using allocs_only_sel [OF 2(3)] w1 by simp
  have "length (timestamp_head cfg ?p) \<le> 2 ^ 62" using sz by (simp add: timestamp_head_def time_key_name_def quote_def)
  from stored_literal_spec [OF w2 this, of "\<lambda>u. append_char_fast dquote (append_n_fast (p_timestamp ?p) (append_n_fast (p_reset ?p)
      (pslog_append_json_color_string (p_key ?p) (dquote # (if c_verbose_fields cfg then ''time'' else ''ts'') @ [dquote, CHR '':'']) [] u)))"]
  obtain t s3 where 3: "stored_literal (\<lambda>u. append_char_fast dquote (append_n_fast (p_timestamp ?p) (append_n_fast (p_reset ?p)
      (pslog_append_json_color_string (p_key ?p) (dquote # (if c_verbose_fields cfg then ''time'' else ''ts'') @ [dquote, CHR '':'']) [] u)))) s2 = (t, s3)"
      "t \<in> {[], timestamp_head cfg ?p}" "allocs_only s2 s3"
    by (auto simp: emit_simps timestamp_head_def time_key_name_def quote_def)
  have w3: "all_alloc (e_world s3)" using allocs_only_sel [OF 3(3)] w2 by simp
  have "length (dquote # p_reset ?p) \<le> 2 ^ 62" using sz by simp
  from stored_literal_spec [OF w3 this, of "\<lambda>u. append_n_fast (p_reset ?p) (append_char_fast dquote u)"]
  obtain x s4 where 4: "stored_literal (\<lambda>u. append_n_fast (p_reset ?p) (append_char_fast dquote u)) s3 = (x, s4)"
      "x \<in> {[], dquote # p_reset ?p}" "allocs_only s3 s4"
    by (auto simp: emit_simps)
  show ?thesis
  proof (rule that)
    show "pslog_build_json_color_literals cfg s =
      (cfg\<lparr>c_json_color_level_fields := F, c_json_color_min_level_fields := G, c_json_color_message_prefix := m,
         c_json_color_timestamp_prefix := t, c_json_color_timestamp_suffix := x\<rparr>, s4)"
      by (simp add: pslog_build_json_color_literals_def 1(1) 2(1) 3(1) 4(1) Let_def)
    show "allocs_only s s4" using 1(2) 2(3) 3(3) 4(3) allocs_only_trans by blast
    show "literals_ok (cfg\<lparr>c_json_color_level_fields := F, c_json_color_min_level_fields := G, c_json_color_message_prefix := m,
         c_json_color_timestamp_prefix := t, c_json_color_timestamp_suffix := x\<rparr>)"
      using 1(3) 2(2) 3(2) 4(2)
      by (simp add: literals_ok_def level_literals_ok_def level_key_def message_head_def message_key_def timestamp_head_def
          time_key_name_def Let_def)
  qed
qed

lemma build_console_spec:
  assumes "all_alloc (e_world s)" "palette_sized (c_palette cfg)"
  obtains t s' where "pslog_build_console_literals cfg s = (cfg\<lparr>c_console_message_prefix := t\<rparr>, s')" "allocs_only s s'"
    "t \<in> {[], message_lead cfg}"
proof -
  have "length (message_lead cfg) \<le> 2 ^ 62" using palette_sizedD [OF assms(2)] by (simp add: message_lead_def)
  from stored_literal_spec [OF assms(1) this, of "\<lambda>u. let u1 = append_char_fast CHR '' '' u
      in if c_color_enabled cfg then append_n_fast (p_message (c_palette cfg)) u1 else u1"]
  obtain t s' where "stored_literal (\<lambda>u. let u1 = append_char_fast CHR '' '' u
      in if c_color_enabled cfg then append_n_fast (p_message (c_palette cfg)) u1 else u1) s = (t, s')"
      "t \<in> {[], message_lead cfg}" "allocs_only s s'"
    by (auto simp: emit_simps message_lead_def Let_def)
  then show ?thesis by (intro that [of t s']) (simp_all add: pslog_build_console_literals_def)
qed

section \<open>A new logger is ready to serve\<close>

text \<open>What the emitters need of a configuration.\<close>

definition cfg_ok :: "shared_cfg \<Rightarrow> bool" where
  "cfg_ok cfg = (literals_ok cfg \<and> fragments_ok cfg \<and> c_console_message_prefix cfg \<in> {[], message_lead cfg} \<and>
     palette_sized (c_palette cfg))"

definition new_palette :: "pslog_config option \<Rightarrow> pslog_palette" where
  "new_palette config = (case cf_palette (effective_config config) of None \<Rightarrow> pslog_palette_default | Some p \<Rightarrow> p)"

lemma all_alloc_calloc: "all_alloc w \<Longrightarrow> pslog_size_mul n m \<noteq> None \<Longrightarrow> pslog_calloc_internal n m w = (True, w\<lparr>w_allocs := Suc (w_allocs w)\<rparr>)"
  by (auto simp: pslog_calloc_internal_def all_alloc_def)

lemma all_alloc_Suc [simp]: "all_alloc w \<Longrightarrow> all_alloc (w\<lparr>w_allocs := Suc (w_allocs w)\<rparr>)"
  by (simp add: all_alloc_def)

lemma allocate_spec:
  assumes "all_alloc (e_world s)"
  shows "pslog_allocate_logger cfg s = (Some \<lparr>i_fields = [], i_field_prefix = [], i_min_level = c_min_level cfg,
      i_include_level_field = False, i_can_close_shared = o_owned (s_output (e_shared s))\<rparr>,
    s\<lparr>e_world := (e_world s)\<lparr>w_allocs := Suc (Suc (w_allocs (e_world s)))\<rparr>\<rparr>)"
proof -
  have sz: "pslog_size_mul 1 192 \<noteq> None" "pslog_size_mul 1 56 \<noteq> None" by (simp_all add: pslog_size_mul_def size_max_eq)
  show ?thesis
    unfolding pslog_allocate_logger_def all_alloc_calloc [OF assms sz(1)] using all_alloc_calloc [OF all_alloc_Suc [OF assms] sz(2)]
    by simp
qed

lemma literals_ok_cfg: "literals_ok (build_fragments (config_cfg c n b))" "level_literals_ok (build_fragments (config_cfg c n b))"
  by (simp_all add: literals_ok_def level_literals_ok_def build_fragments_def config_cfg_def Let_def)

lemma literals_ok_prefix: "literals_ok (cfg\<lparr>c_console_message_prefix := t\<rparr>) = literals_ok cfg"
  "level_literals_ok (cfg\<lparr>c_console_message_prefix := t\<rparr>) = level_literals_ok cfg"
  by (simp_all add: literals_ok_def level_literals_ok_def level_key_def message_head_def message_key_def timestamp_head_def
      time_key_name_def Let_def)

lemma message_lead_update: "message_lead (cfg\<lparr>c_console_message_prefix := t\<rparr>) = message_lead cfg"
  "message_lead (cfg\<lparr>c_json_color_level_fields := F, c_json_color_min_level_fields := G, c_json_color_message_prefix := m,
         c_json_color_timestamp_prefix := u, c_json_color_timestamp_suffix := x\<rparr>) = message_lead cfg"
  by (simp_all add: message_lead_def)

lemma fragments_ok_update:
  "fragments_ok (cfg\<lparr>c_console_message_prefix := t\<rparr>) = fragments_ok cfg"
  "fragments_ok (cfg\<lparr>c_json_color_level_fields := F, c_json_color_min_level_fields := G, c_json_color_message_prefix := m,
         c_json_color_timestamp_prefix := u, c_json_color_timestamp_suffix := x\<rparr>) = fragments_ok cfg"
  by (simp_all add: fragments_ok_def Let_def)


text \<open>The fields of a configuration that come straight from the caller's.\<close>

definition cfg_from :: "pslog_config option \<Rightarrow> nat \<Rightarrow> bool \<Rightarrow> shared_cfg \<Rightarrow> bool" where
  "cfg_from config capacity color cfg =
     (let c = effective_config config in
      c_mode cfg = cf_mode c \<and> c_line_buffer_capacity cfg = capacity \<and> c_min_level cfg = cf_min_level c \<and>
      c_timestamps cfg = cf_timestamps c \<and> c_utc cfg = cf_utc c \<and> c_verbose_fields cfg = cf_verbose_fields c \<and>
      c_time_format cfg = cf_time_format c \<and> c_color_enabled cfg = color \<and> c_palette cfg = new_palette config)"

definition fresh_shared :: "pslog_config option \<Rightarrow> pslog_shared" where
  "fresh_shared config = (zero_shared (cf_output (effective_config config)))\<lparr>s_kvfmt_ptr_cache := Some (\<lambda>_. None), s_refcount := 1\<rparr>"

lemma fresh_caches_ok: "caches_ok X cfg (fresh_shared config)"
  by (simp add: caches_ok_def fresh_shared_def zero_shared_def prefix_cache_ok_def timestamp_ok_def kvfmt_ok_def)

lemma new_logger_spec:
  assumes w: "all_alloc (e_world s)" and p: "palette_sized (new_palette config)"
    and cap: "pslog_normalize_line_buffer_capacity (cf_line_buffer_capacity (effective_config config)) = Some capacity"
  obtains cfg n m where "pslog_new True True config s =
      (Some (cfg, \<lparr>i_fields = [], i_field_prefix = [], i_min_level = cf_min_level (effective_config config),
         i_include_level_field = cf_with_level_field (effective_config config),
         i_can_close_shared = o_owned (cf_output (effective_config config))\<rparr>),
       set_allocs n m (s\<lparr>e_shared := fresh_shared config\<rparr>))" "w_allocs (e_world s) \<le> n"
    "cfg_ok cfg" "cfg_from config capacity (config_color (effective_config config) (e_world s)) cfg"
proof -
  define c where "c = effective_config config"
  have sz: "pslog_size_mul 1 (2 ^ 20) \<noteq> None" "pslog_size_mul 256 16 \<noteq> None" "pslog_size_mul 1 192 \<noteq> None" "pslog_size_mul 1 56 \<noteq> None"
    by (simp_all add: pslog_size_mul_def size_max_eq)
  define tf where "tf = map_option (\<lambda>t. t @ [CHR 0x00]) (cf_time_format c)"
  define w2 where "w2 = (e_world s)\<lparr>w_allocs := w_allocs (e_world s) + (if cf_time_format c = None then 1 else 2)\<rparr>"
  define w3 where "w3 = w2\<lparr>w_allocs := Suc (w_allocs w2)\<rparr>"
  define s2 where "s2 = s\<lparr>e_shared := fresh_shared config, e_world := w3\<rparr>"
  have al: "all_alloc w2" "all_alloc w3" using w by (auto simp: w2_def w3_def all_alloc_def)
  have time_eq: "(case cf_time_format c of None \<Rightarrow> (None, (e_world s)\<lparr>w_allocs := Suc (w_allocs (e_world s))\<rparr>)
      | Some t \<Rightarrow> pslog_memdup_local (t @ [CHR 0x00]) ((e_world s)\<lparr>w_allocs := Suc (w_allocs (e_world s))\<rparr>)) = (tf, w2)"
    using w by (cases "cf_time_format c") (simp_all add: tf_def w2_def pslog_memdup_local_def pslog_malloc_internal_def all_alloc_def Let_def)
  have tf: "cf_time_format c \<noteq> None \<and> tf = None \<longleftrightarrow> False" by (cases "cf_time_format c") (simp_all add: tf_def)
  let ?c1 = "build_fragments (config_cfg c capacity (config_color c w3))"
  have pal: "c_palette ?c1 = new_palette config" by (simp add: build_fragments_def config_cfg_def new_palette_def c_def)
  have pal_s: "palette_sized (c_palette ?c1)" using p pal by (simp only:)
  have s2w: "all_alloc (e_world s2)" using al by (simp add: s2_def)
  obtain t s3 where 3: "pslog_build_console_literals ?c1 s2 = (?c1\<lparr>c_console_message_prefix := t\<rparr>, s3)" "allocs_only s2 s3"
    "t \<in> {[], message_lead ?c1}"
    by (rule build_console_spec [OF s2w pal_s])
  let ?c2 = "?c1\<lparr>c_console_message_prefix := t\<rparr>"
  have s3w: "all_alloc (e_world s3)" using allocs_only_sel [OF 3(2)] s2w by simp
  have c2: "literals_ok ?c2" "level_literals_ok ?c2" "fragments_ok ?c2" "c_console_message_prefix ?c2 \<in> {[], message_lead ?c2}"
    "palette_sized (c_palette ?c2)"
    using literals_ok_cfg [of c capacity "config_color c w3"] fragments_built [of "config_cfg c capacity (config_color c w3)"] 3(3) p pal
    unfolding literals_ok_prefix fragments_ok_update message_lead_update by simp_all
  have from2: "cfg_from config capacity (config_color c w3) ?c2"
    by (simp add: cfg_from_def config_cfg_def build_fragments_def new_palette_def c_def Let_def)
  obtain cfg s4 where 4: "(if c_color_enabled ?c2 \<and> c_mode ?c2 = MODE_JSON then pslog_build_json_color_literals ?c2 s3 else (?c2, s3)) = (cfg, s4)"
    "allocs_only s3 s4" "cfg_ok cfg" "cfg_from config capacity (config_color c w3) cfg"
  proof (cases "c_color_enabled ?c2 \<and> c_mode ?c2 = MODE_JSON")
    case True
    obtain F G m u x s' where r: "pslog_build_json_color_literals ?c2 s3 = (?c2\<lparr>c_json_color_level_fields := F, c_json_color_min_level_fields := G,
        c_json_color_message_prefix := m, c_json_color_timestamp_prefix := u, c_json_color_timestamp_suffix := x\<rparr>, s')"
      "allocs_only s3 s'" "literals_ok (?c2\<lparr>c_json_color_level_fields := F, c_json_color_min_level_fields := G,
        c_json_color_message_prefix := m, c_json_color_timestamp_prefix := u, c_json_color_timestamp_suffix := x\<rparr>)"
      by (rule build_json_spec [OF s3w c2(5,2)])
    let ?c3 = "?c2\<lparr>c_json_color_level_fields := F, c_json_color_min_level_fields := G,
        c_json_color_message_prefix := m, c_json_color_timestamp_prefix := u, c_json_color_timestamp_suffix := x\<rparr>"
    have "fragments_ok ?c3" using c2(3) unfolding fragments_ok_update by simp
    moreover have "c_console_message_prefix ?c3 \<in> {[], message_lead ?c3}" "palette_sized (c_palette ?c3)"
      using c2(4,5) unfolding message_lead_update by simp_all
    ultimately have "cfg_ok ?c3" using r(3) by (simp add: cfg_ok_def)
    moreover have "cfg_from config capacity (config_color c w3) ?c3" using from2 by (simp add: cfg_from_def Let_def)
    ultimately show ?thesis using True r by (intro that [of ?c3 s']) simp_all
  next
    case False
    then show ?thesis using c2 from2 by (intro that [of ?c2 s3]) (simp_all only: if_False, simp_all add: cfg_ok_def)
  qed
  have s4w: "all_alloc (e_world s4)" using allocs_only_sel [OF 4(2)] s3w by simp
  have s4e: "allocs_only s2 s4" by (rule allocs_only_trans [OF 3(2) 4(2)])
  then obtain n m where n: "s4 = set_allocs n m s2" "w_allocs (e_world s2) \<le> n" by (auto simp: allocs_only_def)
  have sh4: "e_shared s4 = fresh_shared config" using allocs_only_sel [OF s4e] by (simp add: s2_def)
  have col: "config_color c w3 = config_color c (e_world s)"
  proof -
    have "sink_isatty k (v\<lparr>w_allocs := i\<rparr>) = sink_isatty k v" for k v i by (induction k v rule: sink_isatty.induct) (auto split: option.split)
    then show ?thesis by (simp add: config_color_def w3_def w2_def split: pslog_color_mode.split)
  qed
  have alloc: "pslog_allocate_logger cfg s4 = (Some \<lparr>i_fields = [], i_field_prefix = [], i_min_level = cf_min_level c,
      i_include_level_field = False, i_can_close_shared = o_owned (cf_output c)\<rparr>, set_allocs (Suc (Suc n)) m s4)"
    unfolding allocate_spec [OF s4w] using sh4 4(4) n
    by (simp add: set_allocs_def cfg_from_def c_def Let_def fresh_shared_def zero_shared_def)
  have sh2: "s\<lparr>e_shared := zero_shared (cf_output c), e_world := (e_world s)\<lparr>w_allocs := Suc (w_allocs (e_world s))\<rparr>\<rparr>
      \<lparr>e_shared := (zero_shared (cf_output c))\<lparr>s_kvfmt_ptr_cache := Some (\<lambda>_. None), s_refcount := 1\<rparr>, e_world := w3\<rparr> = s2"
    by (simp add: s2_def fresh_shared_def c_def)
  have new: "pslog_new True True config s = (Some (cfg, \<lparr>i_fields = [], i_field_prefix = [], i_min_level = cf_min_level c,
      i_include_level_field = cf_with_level_field c, i_can_close_shared = o_owned (cf_output c)\<rparr>), set_allocs (Suc (Suc n)) m s4)"
    unfolding pslog_new_def Let_def c_def [symmetric]
    using cap all_alloc_calloc [OF w sz(1)] all_alloc_calloc [OF al(1) sz(2)] time_eq tf 3(1) 4(1) alloc sh2
    by (simp add: c_def [symmetric] w3_def [symmetric])
  show ?thesis
  proof (rule that [OF _ _ 4(3)])
    show "pslog_new True True config s =
      (Some (cfg, \<lparr>i_fields = [], i_field_prefix = [], i_min_level = cf_min_level (effective_config config),
         i_include_level_field = cf_with_level_field (effective_config config),
         i_can_close_shared = o_owned (cf_output (effective_config config))\<rparr>),
       set_allocs (Suc (Suc n)) m (s\<lparr>e_shared := fresh_shared config\<rparr>))"
      unfolding new by (simp add: n(1) s2_def set_allocs_def c_def w3_def w2_def)
    show "w_allocs (e_world s) \<le> Suc (Suc n)" using n(2) by (simp add: s2_def w3_def w2_def split: if_splits)
    show "cfg_from config capacity (config_color (effective_config config) (e_world s)) cfg" using 4(4) col by (simp add: c_def)
  qed
qed

end
