(* ===== verification/Logger.thy ===== *)
theory Logger
  imports Setup
begin

text \<open>
  Loggers: deriving them with fields, levels and level fields, logging with fields and with format
  strings, closing and destroying, and the public functions over them (\<open>src/pslog.c\<close>). A logger is its
  \<open>pslog_logger_impl\<close>; the configuration and the e-state stand for the shared state it points to.
\<close>

section \<open>The prepared text of a logger's fields\<close>

definition field_prefix_cost :: "pslog_mode \<Rightarrow> nat \<Rightarrow> pslog_field \<Rightarrow> nat" where
  "field_prefix_cost mode color_cost field =
     (if \<not> has_key field then 0
      else
        (if mode = MODE_JSON then 4 + f_key_len field * 6 + color_cost else 2 + f_key_len field + color_cost) +
        (case value_type (f_value field) of
           FIELD_NULL \<Rightarrow> 8
         | FIELD_STRING \<Rightarrow> 4 + f_value_len field * (if mode = MODE_JSON then 6 else 4)
         | FIELD_SIGNED \<Rightarrow> 64 | FIELD_UNSIGNED \<Rightarrow> 64 | FIELD_DOUBLE \<Rightarrow> 64 | FIELD_POINTER \<Rightarrow> 64 | FIELD_DURATION \<Rightarrow> 64
         | FIELD_BOOL \<Rightarrow> 8
         | FIELD_BYTES \<Rightarrow> 4 + (case f_value field of V_bytes data \<Rightarrow> length data | _ \<Rightarrow> 0) * 2
         | FIELD_TIME \<Rightarrow> 80
         | FIELD_ERRNO \<Rightarrow> 32))"

definition pslog_estimate_field_prefix_capacity :: "pslog_field list \<Rightarrow> pslog_mode \<Rightarrow> bool \<Rightarrow> pslog_palette \<Rightarrow> nat" where
  "pslog_estimate_field_prefix_capacity flds mode color_enabled p =
     (let color_cost = (if color_enabled
            then length (p_key p) + length (p_reset p) + length (p_string p) + length (p_number p) + length (p_boolean p) +
                 length (p_null_value p) + length (p_timestamp p) + length (p_message p)
            else 0)
      in (sum_list (map (field_prefix_cost mode color_cost) flds) + 32) mod 2 ^ 64)"

text \<open>
  An empty prefix is a NULL pointer. The buffer is released after the copy is made; only the order of
  an allocation and a release differs here.
\<close>

definition pslog_build_field_prefix :: "libc \<Rightarrow> shared_cfg \<Rightarrow> pslog_logger_impl \<Rightarrow> est \<Rightarrow> bool \<times> pslog_logger_impl \<times> est" where
  "pslog_build_field_prefix X cfg impl s =
     (let s0 = s\<lparr>e_world := pslog_free_internal (i_field_prefix impl \<noteq> []) (e_world s)\<rparr>;
          impl0 = impl\<lparr>i_field_prefix := []\<rparr>
      in if i_fields impl = [] then (True, impl0, s0)
         else
           (let capacity = pslog_estimate_field_prefix_capacity (i_fields impl) (c_mode cfg) (c_color_enabled cfg) (c_palette cfg);
                (t, s1) = with_local_buffer capacity
                  (if c_mode cfg = MODE_JSON then pslog_append_json_field_prefix X cfg (i_fields impl)
                   else pslog_append_console_field_prefix X cfg (i_fields impl)) s0
            in if length t > 0
               then (case pslog_memdup_local (t @ [CHR 0x00]) (e_world s1) of
                       (None, w) \<Rightarrow> (False, impl0, s1\<lparr>e_world := w\<rparr>)
                     | (Some _, w) \<Rightarrow> (True, impl0\<lparr>i_field_prefix := t\<rparr>, s1\<lparr>e_world := w\<rparr>))
               else (True, impl0, s1)))"

section \<open>Destroying and deriving\<close>

definition pslog_logger_destroy :: "shared_cfg \<Rightarrow> pslog_logger_impl \<Rightarrow> est \<Rightarrow> bool \<times> est" where
  "pslog_logger_destroy cfg impl s =
     (let w1 = pslog_free_fields (if i_fields impl = [] then None else Some (i_fields impl)) (e_world s);
          w2 = pslog_free_internal (i_field_prefix impl \<noteq> []) w1;
          (freed, s1) = pslog_release_shared (c_time_format cfg \<noteq> None) (s\<lparr>e_world := w2\<rparr>)
      in (freed, s1\<lparr>e_world := pslog_free_internal True (pslog_free_internal True (e_world s1))\<rparr>))"

definition pslog_clone_with_fields ::
  "libc \<Rightarrow> shared_cfg \<Rightarrow> pslog_logger_impl \<Rightarrow> pslog_field list \<Rightarrow> est \<Rightarrow> pslog_logger_impl option \<times> est" where
  "pslog_clone_with_fields X cfg src_impl flds s =
     (case pslog_allocate_logger cfg (pslog_retain_shared s) of
        (None, s1) \<Rightarrow> (None, snd (pslog_release_shared (c_time_format cfg \<noteq> None) s1))
      | (Some dst_impl, s1) \<Rightarrow>
          (case pslog_copy_fields X (i_fields src_impl) flds (e_world s1) of
             (None, w) \<Rightarrow> (None, snd (pslog_logger_destroy cfg dst_impl (s1\<lparr>e_world := w\<rparr>)))
           | (Some copied, w) \<Rightarrow>
               (case pslog_build_field_prefix X cfg (dst_impl\<lparr>i_fields := copied\<rparr>) (s1\<lparr>e_world := w\<rparr>) of
                  (False, impl, s2) \<Rightarrow> (None, snd (pslog_logger_destroy cfg impl s2))
                | (True, impl, s2) \<Rightarrow>
                    (Some (impl\<lparr>i_min_level := i_min_level src_impl, i_include_level_field := i_include_level_field src_impl,
                                i_can_close_shared := False\<rparr>), s2))))"

definition pslog_logger_with ::
  "libc \<Rightarrow> shared_cfg \<Rightarrow> pslog_logger_impl \<Rightarrow> pslog_field list \<Rightarrow> est \<Rightarrow> pslog_logger_impl option \<times> est" where
  "pslog_logger_with X cfg impl flds s = pslog_clone_with_fields X cfg impl flds s"

definition pslog_logger_with_level ::
  "libc \<Rightarrow> shared_cfg \<Rightarrow> pslog_logger_impl \<Rightarrow> pslog_level \<Rightarrow> est \<Rightarrow> pslog_logger_impl option \<times> est" where
  "pslog_logger_with_level X cfg impl level s =
     apfst (map_option (\<lambda>clone. clone\<lparr>i_min_level := level\<rparr>)) (pslog_clone_with_fields X cfg impl [] s)"

definition pslog_logger_with_level_field ::
  "libc \<Rightarrow> shared_cfg \<Rightarrow> pslog_logger_impl \<Rightarrow> est \<Rightarrow> pslog_logger_impl option \<times> est" where
  "pslog_logger_with_level_field X cfg impl s =
     apfst (map_option (\<lambda>clone. clone\<lparr>i_include_level_field := True\<rparr>)) (pslog_clone_with_fields X cfg impl [] s)"

definition pslog_vwithf_impl ::
  "libc \<Rightarrow> shared_cfg \<Rightarrow> pslog_logger_impl \<Rightarrow> cptr option \<Rightarrow> 32 word \<Rightarrow> kvfmt_arg list \<Rightarrow> est \<Rightarrow> pslog_logger_impl option \<times> est" where
  "pslog_vwithf_impl X cfg impl kvfmt saved_errno ap s =
     (if kvfmt = None then pslog_clone_with_fields X cfg impl [] s
      else
        (case pslog_resolve_kvfmt_entry X (Some cfg) kvfmt (s\<lparr>e_shared := pslog_state_lock (e_shared s)\<rparr>) of
           (None, s1) \<Rightarrow> (None, s1\<lparr>e_shared := pslog_state_unlock (e_shared s1)\<rparr>)
         | (Some r, s1) \<Rightarrow>
             (let s2 = s1\<lparr>e_shared := pslog_state_unlock (e_shared s1)\<rparr>
              in case pslog_materialize_kvfmt_fields (resolved_entry r) (c_mode cfg) saved_errno ap of
                   None \<Rightarrow> (None, s2)
                 | Some flds \<Rightarrow> pslog_clone_with_fields X cfg impl flds s2)))"

section \<open>Logging\<close>

definition pslog_log_impl ::
  "libc \<Rightarrow> shared_cfg \<Rightarrow> pslog_logger_impl \<Rightarrow> pslog_level \<Rightarrow> cstring option \<Rightarrow> pslog_field list \<Rightarrow> int \<times> int \<Rightarrow> est \<Rightarrow> est" where
  "pslog_log_impl X cfg impl level msg flds clock s =
     (if \<not> pslog_should_log (s_closed (e_shared s)) impl level then s
      else if c_mode cfg = MODE_JSON then pslog_emit_json X cfg impl level msg flds clock s
      else pslog_emit_console X cfg impl level msg flds clock s)"

definition pslog_vlogf_impl ::
  "libc \<Rightarrow> shared_cfg \<Rightarrow> pslog_logger_impl \<Rightarrow> pslog_level \<Rightarrow> cstring option \<Rightarrow> cptr option \<Rightarrow> 32 word \<Rightarrow> kvfmt_arg list \<Rightarrow>
     int \<times> int \<Rightarrow> est \<Rightarrow> est" where
  "pslog_vlogf_impl X cfg impl level msg kvfmt saved_errno ap clock s =
     (if kvfmt = None then pslog_log_impl X cfg impl level msg [] clock s
      else if \<not> pslog_should_log (s_closed (e_shared s)) impl level then s
      else
        (case pslog_resolve_kvfmt_entry X (Some cfg) kvfmt (s\<lparr>e_shared := pslog_state_lock (e_shared s)\<rparr>) of
           (None, s1) \<Rightarrow>
             (let diagnostic_level = (if level = LEVEL_FATAL \<or> level = LEVEL_PANIC then level else LEVEL_ERROR)
              in pslog_log_impl X cfg impl diagnostic_level (Some ''invalid kvfmt'') [] clock
                   (s1\<lparr>e_shared := pslog_state_unlock (e_shared s1)\<rparr>))
         | (Some r, s1) \<Rightarrow>
             (let s2 = s1\<lparr>e_shared := pslog_state_unlock (e_shared s1)\<rparr>
              in if c_mode cfg = MODE_JSON
                 then pslog_emit_json_kvfmt X cfg impl level msg (resolved_entry r) saved_errno ap clock s2
                 else pslog_emit_console_kvfmt X cfg impl level msg (resolved_entry r) saved_errno ap clock s2)))"

definition pslog_close :: "pslog_logger_impl option \<Rightarrow> est \<Rightarrow> int \<times> est" where
  "pslog_close log s =
     (case log of None \<Rightarrow> (0, s) | Some impl \<Rightarrow> pslog_close_shared (i_can_close_shared impl) s)"

text \<open>After a fatal or panic entry the process ends; \<open>Ended\<close> says how.\<close>

datatype ending = Exit_failure | Abort

datatype outcome = Returned est | Ended ending est

definition pslog_logger_fatal ::
  "libc \<Rightarrow> shared_cfg \<Rightarrow> pslog_logger_impl \<Rightarrow> cstring option \<Rightarrow> pslog_field list \<Rightarrow> int \<times> int \<Rightarrow> est \<Rightarrow> outcome" where
  "pslog_logger_fatal X cfg impl msg flds clock s = Ended Exit_failure (pslog_log_impl X cfg impl LEVEL_FATAL msg flds clock s)"

definition pslog_logger_panic ::
  "libc \<Rightarrow> shared_cfg \<Rightarrow> pslog_logger_impl \<Rightarrow> cstring option \<Rightarrow> pslog_field list \<Rightarrow> int \<times> int \<Rightarrow> est \<Rightarrow> outcome" where
  "pslog_logger_panic X cfg impl msg flds clock s = Ended Abort (pslog_log_impl X cfg impl LEVEL_PANIC msg flds clock s)"

section \<open>Steps that touch the caches only\<close>

definition cache_step :: "libc \<Rightarrow> shared_cfg \<Rightarrow> est \<Rightarrow> est \<Rightarrow> bool" where
  "cache_step X cfg s s' = (e_buf s' = e_buf s \<and> caches_ok X cfg (e_shared s') \<and> forget (e_shared s') = forget (e_shared s) \<and>
     (\<exists>n m. e_world s' = (e_world s)\<lparr>w_allocs := n, w_frees := m\<rparr> \<and> w_allocs (e_world s) \<le> n))"

lemma cache_step_trans: "cache_step X cfg s t \<Longrightarrow> cache_step X cfg t u \<Longrightarrow> cache_step X cfg s u"
proof -
  assume a: "cache_step X cfg s t" "cache_step X cfg t u"
  then obtain n m n' m' where w: "e_world t = (e_world s)\<lparr>w_allocs := n, w_frees := m\<rparr>" "w_allocs (e_world s) \<le> n"
      "e_world u = (e_world t)\<lparr>w_allocs := n', w_frees := m'\<rparr>" "w_allocs (e_world t) \<le> n'"
    unfolding cache_step_def by blast
  have "e_world u = (e_world s)\<lparr>w_allocs := n', w_frees := m'\<rparr> \<and> w_allocs (e_world s) \<le> n'" using w by simp
  with a show ?thesis unfolding cache_step_def by metis
qed

lemma cache_step_sel:
  assumes "cache_step X cfg s t"
  shows "s_closed (e_shared t) = s_closed (e_shared s)" "s_output (e_shared t) = s_output (e_shared s)"
    "s_output_mutex (e_shared t) = s_output_mutex (e_shared s)" "s_refcount (e_shared t) = s_refcount (e_shared s)"
    "all_alloc (e_world s) \<Longrightarrow> all_alloc (e_world t)" "accepted T (e_world t) = accepted T (e_world s)" "w_log (e_world t) = w_log (e_world s)"
proof -
  have f: "forget (e_shared t) = forget (e_shared s)" using assms by (simp add: cache_step_def)
  show "s_closed (e_shared t) = s_closed (e_shared s)" "s_output (e_shared t) = s_output (e_shared s)"
    "s_output_mutex (e_shared t) = s_output_mutex (e_shared s)" "s_refcount (e_shared t) = s_refcount (e_shared s)"
    using arg_cong [OF f, of s_closed] arg_cong [OF f, of s_output] arg_cong [OF f, of s_output_mutex] arg_cong [OF f, of s_refcount]
    by (simp_all add: forget_def)
  show "all_alloc (e_world s) \<Longrightarrow> all_alloc (e_world t)" "accepted T (e_world t) = accepted T (e_world s)"
    "w_log (e_world t) = w_log (e_world s)"
    using assms by (auto simp: cache_step_def all_alloc_def accepted_def)
qed

lemma cache_step_allocs: "allocs_only s t \<Longrightarrow> caches_ok X cfg (e_shared s) \<Longrightarrow> cache_step X cfg s t"
proof -
  assume a: "allocs_only s t" "caches_ok X cfg (e_shared s)"
  then obtain n m where t: "t = set_allocs n m s" "w_allocs (e_world s) \<le> n" by (auto simp: allocs_only_def)
  with a(2) show ?thesis unfolding cache_step_def
    by (intro conjI exI [where x = n] exI [where x = m]) (simp_all add: set_allocs_def)
qed

text \<open>A local buffer collects the bytes of a routine that fills caches.\<close>

lemma local_buffer_view:
  assumes "all_alloc (e_world s)" "caches_ok X cfg (e_shared s)" "length B \<le> 2 ^ 62"
    and body: "\<And>u. good X cfg u \<Longrightarrow> view X cfg (f u) = map_option (appends B) (view X cfg u)"
  shows "\<exists>s'. with_local_buffer cap f s = (B, s') \<and> cache_step X cfg s s'"
proof -
  obtain b n where b: "pslog_buffer_init False cap (e_world s) = (b, (e_world s)\<lparr>w_allocs := n\<rparr>)"
    "w_allocs (e_world s) \<le> n" "\<not> b_shared b" "b_data b = []" "\<not> b_null b" "0 < b_capacity b"
    using buffer_init_unshared [OF assms(1), of cap] by blast
  let ?u = "s\<lparr>e_buf := b, e_world := (e_world s)\<lparr>w_allocs := n\<rparr>\<rparr>"
  have al: "all_alloc (e_world ?u)" using assms(1) b(2) by (auto simp: all_alloc_def)
  then have r: "ready ?u" using b by (auto simp: ready_def)
  have g: "good X cfg ?u" using r al assms(2) by (simp add: good_def)
  note v = view_SomeD [OF body [OF g] g]
  have "ready (forget_caches ?u)" using r by (simp add: ready_def)
  then obtain b2 n2 where a: "appends B (forget_caches ?u) = (forget_caches ?u)\<lparr>e_buf := b2, e_world := (e_world ?u)\<lparr>w_allocs := n2\<rparr>\<rparr>"
    "b_data b2 = B" "n \<le> n2" "\<not> b_shared b2"
    using unshared_appends [of "forget_caches ?u" B] b assms(3) by auto
  have fu: "forget_caches (f ?u) = (forget_caches ?u)\<lparr>e_buf := b2, e_world := (e_world ?u)\<lparr>w_allocs := n2\<rparr>\<rparr>"
    using v a(1) by simp
  have e: "e_buf (f ?u) = b2" "e_world (f ?u) = (e_world s)\<lparr>w_allocs := n2\<rparr>" "forget (e_shared (f ?u)) = forget (e_shared s)"
    using arg_cong [OF fu, of e_buf] arg_cong [OF fu, of e_world] arg_cong [OF fu, of e_shared] by simp_all
  have c: "caches_ok X cfg (e_shared (f ?u))" using v by (simp add: good_def)
  define m where "m = (if b_heap_owned b2 \<and> \<not> b_null b2 then Suc (w_frees (e_world s)) else w_frees (e_world s))"
  have m: "snd (pslog_buffer_destroy b2 ((e_world s)\<lparr>w_allocs := n2\<rparr>)) = (e_world s)\<lparr>w_allocs := n2, w_frees := m\<rparr>"
    by (simp add: pslog_buffer_destroy_def pslog_free_internal_def Let_def m_def)
  let ?s' = "(f ?u)\<lparr>e_buf := e_buf s, e_world := (e_world s)\<lparr>w_allocs := n2, w_frees := m\<rparr>\<rparr>"
  have "with_local_buffer cap f s = (B, ?s')"
    using b(1) e a(2) m by (simp add: with_local_buffer_def case_prod_beta Let_def)
  moreover have "cache_step X cfg s ?s'"
    unfolding cache_step_def using c e b(2) a(3) by (intro conjI exI [where x = n2] exI [where x = m]) simp_all
  ultimately show ?thesis by blast
qed

text \<open>Resolving a format string under the state lock.\<close>

lemma state_lock_frame:
  "caches_ok X cfg sh \<Longrightarrow> pslog_state_unlock (pslog_state_lock sh) = sh"
  by (simp add: caches_ok_def)

lemma locked_resolve:
  assumes "all_alloc (e_world s)" "caches_ok X cfg (e_shared s)" "palette_sized (c_palette cfg)" "length t \<le> 2 ^ 48"
  obtains r s1 where "pslog_resolve_kvfmt_entry X (Some cfg) (Some (a, t)) (s\<lparr>e_shared := pslog_state_lock (e_shared s)\<rparr>) = (r, s1)"
    "cache_step X cfg s (s1\<lparr>e_shared := pslog_state_unlock (e_shared s1)\<rparr>)"
    "case r of None \<Rightarrow> kvfmt_signature t = None
     | Some q \<Rightarrow> \<exists>e. resolved_entry q = Some e \<and> entry_ok cfg t e"
proof -
  let ?l = "s\<lparr>e_shared := pslog_state_lock (e_shared s)\<rparr>"
  have k: "kvfmt_ok cfg (e_shared ?l)" using assms(2) by (simp add: caches_ok_def kvfmt_ok_def pslog_state_lock_def)
  obtain r s1 where r: "pslog_resolve_kvfmt_entry X (Some cfg) (Some (a, t)) ?l = (r, s1)" by fastforce
  have rs: "resolves cfg t ?l (r, s1)"
    using resolve_correct [of ?l cfg t X a] assms(1,3,4) k r by simp
  then have ko: "kvfmt_only ?l s1" "kvfmt_ok cfg (e_shared s1)" "case r of None \<Rightarrow> kvfmt_signature t = None
     | Some q \<Rightarrow> \<exists>e. resolved_entry q = Some e \<and> entry_ok cfg t e"
    by (auto simp: resolves_def split: option.splits)
  obtain c pc n m where s1: "s1 = set_allocs n m (e_shared_update (set_kvfmt c pc) ?l)" "w_allocs (e_world s) \<le> n"
    using ko(1) by (auto simp: kvfmt_only_def allocs_only_def)
  have sh: "pslog_state_unlock (e_shared s1) = set_kvfmt c pc (e_shared s)"
    using assms(2) by (cases "e_shared s") (simp add: s1(1) set_allocs_def set_kvfmt_def pslog_state_unlock_def pslog_state_lock_def caches_ok_def)
  have "kvfmt_ok cfg (set_kvfmt c pc (e_shared s))"
    using ko(2) by (simp add: s1(1) set_allocs_def set_kvfmt_def kvfmt_ok_def)
  then have "caches_ok X cfg (set_kvfmt c pc (e_shared s))"
    using assms(2) by (simp add: caches_ok_def set_kvfmt_def timestamp_ok_def)
  then have "cache_step X cfg s (s1\<lparr>e_shared := pslog_state_unlock (e_shared s1)\<rparr>)"
    unfolding cache_step_def sh using s1(2) by (auto simp: s1(1) set_allocs_def set_kvfmt_def forget_def)
  with r ko(3) show ?thesis by (intro that) simp_all
qed

section \<open>Log calls\<close>

text \<open>The line a call writes: the text of its mode over the logger's fields and its own.\<close>

definition log_text ::
  "libc \<Rightarrow> shared_cfg \<Rightarrow> pslog_logger_impl \<Rightarrow> pslog_level \<Rightarrow> cstring option \<Rightarrow> pslog_field list \<Rightarrow> int \<times> int \<Rightarrow> string" where
  "log_text X cfg impl level msg flds clock =
     (if c_mode cfg = MODE_JSON then json_line_text X cfg (used_palette cfg) impl (slot_level level) msg flds clock
      else console_object_text X cfg impl level msg (console_fields_text X cfg flds) clock)"

text \<open>The prepared prefix of a logger, and when a logger of a configuration can serve a call.\<close>

definition fields_text :: "libc \<Rightarrow> shared_cfg \<Rightarrow> pslog_field list \<Rightarrow> string" where
  "fields_text X cfg fs =
     (if c_mode cfg = MODE_JSON then json_members X cfg (used_palette cfg) fs False else console_fields_text X cfg fs)"

definition logger_ok :: "libc \<Rightarrow> shared_cfg \<Rightarrow> pslog_logger_impl \<Rightarrow> bool" where
  "logger_ok X cfg impl = (i_field_prefix impl \<in> {[], fields_text X cfg (i_fields impl)} \<and> list_all field_ok (i_fields impl) \<and>
     (i_include_level_field impl \<longrightarrow> std_level (i_min_level impl)))"

definition call_ok :: "libc \<Rightarrow> pslog_level \<Rightarrow> int \<times> int \<Rightarrow> bool" where
  "call_ok X level clock = (zone_ok X \<and> clock_ok clock \<and> std_level level)"

lemma logger_emit_ok:
  assumes "cfg_ok cfg" "logger_ok X cfg impl" "call_ok X level clock"
  shows "c_mode cfg = MODE_JSON \<Longrightarrow> emit_ok X cfg impl level clock"
    and "c_mode cfg \<noteq> MODE_JSON \<Longrightarrow> console_ok X cfg impl clock"
  using assms
  by (auto simp: emit_ok_def console_ok_def cfg_ok_def logger_ok_def call_ok_def prefix_ok_def fields_text_def
      list_all_iff field_ok_keyed)

lemma log_impl_filtered: "\<not> pslog_should_log (s_closed (e_shared s)) impl level \<Longrightarrow> pslog_log_impl X cfg impl level msg flds clock s = s"
  by (simp add: pslog_log_impl_def)

context emitting_sink
begin

lemma log_impl_text:
  assumes serve: "serving snk ok X cfg s" and c: "cfg_ok cfg" "logger_ok X cfg impl" "call_ok X level clock" "list_all field_ok flds"
  shows "acc (e_world (pslog_log_impl X cfg impl level msg flds clock s)) =
      acc (e_world s) @ (if pslog_should_log False impl level then log_text X cfg impl level msg flds clock else []) \<and>
    serving snk ok X cfg (pslog_log_impl X cfg impl level msg flds clock s)"
proof -
  have open': "s_closed (e_shared s) = False" using serve by (simp add: serving_def)
  have k: "list_all keyed flds" using c(4) by (simp add: list_all_iff field_ok_keyed)
  note e = logger_emit_ok [OF c(1-3)]
  show ?thesis
    using emit_json_text [OF serve e(1), of msg flds] emit_console_text [OF serve e(2) k, of level msg] serve
    by (simp add: pslog_log_impl_def open' log_text_def)
qed

end

section \<open>Copies of fields write the same text\<close>

definition alike :: "pslog_field \<Rightarrow> pslog_field \<Rightarrow> bool" where
  "alike f c = (c = f\<lparr>f_key := f_key c, f_value := f_value c\<rparr> \<and> field_key c = field_key f \<and> field_value c = field_value f)"

lemma alike_refl [simp]: "alike f f"
  by (simp add: alike_def)

lemma alike_flags:
  assumes "alike f c"
  shows "f_key_len c = f_key_len f" "f_value_len c = f_value_len f" "f_trusted_key c = f_trusted_key f"
    "f_trusted_value c = f_trusted_value f" "f_console_simple_value c = f_console_simple_value f"
    "field_key c = field_key f" "field_value c = field_value f"
proof -
  have e: "c = f\<lparr>f_key := f_key c, f_value := f_value c\<rparr>" using assms by (simp add: alike_def)
  show "f_key_len c = f_key_len f" "f_value_len c = f_value_len f" "f_trusted_key c = f_trusted_key f"
    "f_trusted_value c = f_trusted_value f" "f_console_simple_value c = f_console_simple_value f"
    by (subst e, simp)+
  show "field_key c = field_key f" "field_value c = field_value f" using assms by (simp_all add: alike_def)
qed

lemma alike_trans: "alike f g \<Longrightarrow> alike g h \<Longrightarrow> alike f h"
  unfolding alike_def by (cases f, cases g, cases h) auto

lemma alike_copy [simp]: "alike f (field_copy a f)"
  unfolding alike_def by (simp add: field_copy_def [of a f])
    (metis field_copy_def field_copy_key field_copy_value)

lemma field_ok_copy: "field_ok f \<Longrightarrow> field_ok (field_copy a f)"
  by (auto simp: field_ok_def key_ok_def value_ok_def field_copy_def field_value_def field_key_def split: option.splits pslog_value.splits)

lemma string_alike:
  assumes "field_ok f" "field_ok c" "alike f c"
  shows "has_key c = has_key f" "json_key_bytes c = json_key_bytes f"
proof -
  note a = alike_flags [OF assms(3)]
  have hk: "has_key g \<longleftrightarrow> field_key g \<noteq> []" if "field_ok g" for g
    using that by (auto simp: has_key_def field_key_def field_ok_def key_ok_def split: option.splits)
  have ks: "or_empty (key_string g) = field_key g" if "field_ok g" "\<not> f_trusted_key g" for g
    using that by (auto simp: key_string_def field_key_def field_ok_def key_ok_def or_empty_def split: option.splits)
  show "has_key c = has_key f" using hk assms a by simp
  show "json_key_bytes c = json_key_bytes f" using ks assms a by (simp add: json_key_bytes_def)
qed

lemma value_alike:
  assumes "field_ok f" "field_ok c" "alike f c"
  shows "json_value_bytes X cfg c = json_value_bytes X cfg f" "json_value_color cfg p (f_value c) = json_value_color cfg p (f_value f)"
    "console_value_text X c = console_value_text X f" "value_type (f_value c) = value_type (f_value f)"
  using assms alike_flags [OF assms(3)]
  by (cases "f_value f"; cases "f_value c";
      auto simp: json_value_bytes_def json_value_color_def console_value_text_def field_value_def field_ok_def value_ok_def or_empty_def
        split: option.splits)+

definition alike_fields :: "pslog_field list \<Rightarrow> pslog_field list \<Rightarrow> bool" where
  "alike_fields fs cs = list_all2 (\<lambda>f c. alike f c \<and> field_ok f \<and> field_ok c) fs cs"

lemma alike_fields_text:
  assumes "alike_fields fs cs"
  shows "json_members X cfg p cs first = json_members X cfg p fs first" "console_fields_text X cfg cs = console_fields_text X cfg fs"
    "list_all field_ok cs" "list_all field_ok fs"
proof -
  have "json_members X cfg p cs first = json_members X cfg p fs first \<and> console_fields_text X cfg cs = console_fields_text X cfg fs \<and>
      list_all field_ok cs \<and> list_all field_ok fs"
    using assms unfolding alike_fields_def
  proof (induction arbitrary: first rule: list_all2_induct)
    case (Cons f fs c cs)
    then have a: "field_ok f" "field_ok c" "alike f c" by simp_all
    show ?case using Cons string_alike [OF a] value_alike [OF a] alike_flags [OF a(3)]
      by (simp add: console_fields_text_def console_field_text_def json_member_def json_value_text_def)
  qed (simp add: console_fields_text_def)
  then show "json_members X cfg p cs first = json_members X cfg p fs first" "console_fields_text X cfg cs = console_fields_text X cfg fs"
    "list_all field_ok cs" "list_all field_ok fs" by blast+
qed

lemma alike_fields_refl: "list_all field_ok fs \<Longrightarrow> alike_fields fs fs"
  by (simp add: alike_fields_def list_all2_same list_all_iff)

lemma alike_fields_trans:
  assumes "alike_fields fs gs" "alike_fields gs hs"
  shows "alike_fields fs hs"
  using assms unfolding alike_fields_def
  by (rule list_all2_trans [rotated]) (auto dest: alike_trans)

lemma copies_alike: "field_copies fs cs \<Longrightarrow> list_all field_ok fs \<Longrightarrow> alike_fields fs cs"
  unfolding alike_fields_def field_copies_def
  by (induction rule: list_all2_induct) (auto simp: field_ok_copy)

section \<open>Derived loggers\<close>

text \<open>Fields that an address space can hold, with the text they are rendered to.\<close>

definition fields_fit :: "libc \<Rightarrow> shared_cfg \<Rightarrow> pslog_field list \<Rightarrow> bool" where
  "fields_fit X cfg fs = (length fs \<le> 2 ^ 48 \<and> (\<forall>f \<in> set fs. f_key_len f < size_max \<and> f_value_len f < size_max) \<and>
     length (fields_text X cfg fs) \<le> 2 ^ 62)"

lemma alike_fit: "alike_fields fs cs \<Longrightarrow> fields_fit X cfg cs = fields_fit X cfg fs"
proof -
  assume a: "alike_fields fs cs"
  then have "length cs = length fs" by (simp add: alike_fields_def list_all2_lengthD)
  moreover have "(\<forall>f \<in> set cs. f_key_len f < size_max \<and> f_value_len f < size_max) \<longleftrightarrow>
      (\<forall>f \<in> set fs. f_key_len f < size_max \<and> f_value_len f < size_max)"
    using a unfolding alike_fields_def by (induction rule: list_all2_induct) (auto simp: alike_flags)
  ultimately show ?thesis
    using alike_fields_text [OF a] by (simp add: fields_fit_def fields_text_def)
qed

lemma copy_fields_succeeds:
  assumes "all_alloc w" "fields_fit X cfg (base @ flds)"
  shows "\<exists>cs n. pslog_copy_fields Y base flds w = (Some cs, w\<lparr>w_allocs := n\<rparr>) \<and> w_allocs w \<le> n \<and> field_copies (base @ flds) cs"
proof -
  have len: "length base + length flds \<le> 2 ^ 48" using assms(2) by (simp add: fields_fit_def)
  then have add: "pslog_size_add (length base) (length flds) = Some (length base + length flds)"
    by (simp add: pslog_size_add_def size_max_eq)
  show ?thesis
  proof (cases "length base + length flds = 0")
    case True
    then show ?thesis using add
      by (intro exI [where x = "[]"] exI [where x = "w_allocs w"]) (simp add: pslog_copy_fields_def field_copies_def)
  next
    case False
    have "pslog_size_mul (length base + length flds) field_struct_size \<noteq> None"
      using len by (subst pslog_size_mul_iff) (simp_all add: size_max_eq field_struct_size_def)
    then have cal: "pslog_calloc_internal (length base + length flds) field_struct_size w = (True, w\<lparr>w_allocs := Suc (w_allocs w)\<rparr>)"
      using all_alloc_calloc [OF assms(1)] by simp
    have al: "all_alloc (w\<lparr>w_allocs := Suc (w_allocs w)\<rparr>)" using assms(1) by (auto simp: all_alloc_def)
    obtain cs n where cs: "copy_fields_loop Y (base @ flds) [] (w\<lparr>w_allocs := Suc (w_allocs w)\<rparr>) =
        (Some ([] @ cs), w\<lparr>w_allocs := Suc (w_allocs w), w_allocs := n\<rparr>)" "Suc (w_allocs w) \<le> n" "field_copies (base @ flds) cs"
      using copy_fields_loop_all_alloc [OF al, of "base @ flds" Y "[]"] assms(2) by (auto simp: fields_fit_def)
    with False add cal show ?thesis
      by (intro exI [where x = cs] exI [where x = n]) (auto simp: pslog_copy_fields_def)
  qed
qed

lemma build_prefix_succeeds:
  assumes "all_alloc (e_world s)" "caches_ok X cfg (e_shared s)" "list_all field_ok (i_fields impl)" "fields_fit X cfg (i_fields impl)"
    "i_field_prefix impl = []"
  obtains s' where "pslog_build_field_prefix X cfg impl s = (True, impl\<lparr>i_field_prefix := fields_text X cfg (i_fields impl)\<rparr>, s')"
    "cache_step X cfg s s'"
proof (cases "i_fields impl = []")
  case True
  have "fields_text X cfg [] = []" by (simp add: fields_text_def console_fields_text_def)
  moreover have "cache_step X cfg s (s\<lparr>e_world := pslog_free_internal False (e_world s)\<rparr>)"
    by (rule cache_step_allocs) (simp_all add: pslog_free_internal_def assms(2))
  ultimately show ?thesis using True assms(5)
    by (intro that [of "s\<lparr>e_world := pslog_free_internal False (e_world s)\<rparr>"]) (simp_all add: pslog_build_field_prefix_def Let_def)
next
  case False
  let ?T = "fields_text X cfg (i_fields impl)"
  let ?f = "if c_mode cfg = MODE_JSON then pslog_append_json_field_prefix X cfg (i_fields impl)
                   else pslog_append_console_field_prefix X cfg (i_fields impl)"
  define cap where "cap = pslog_estimate_field_prefix_capacity (i_fields impl) (c_mode cfg) (c_color_enabled cfg) (c_palette cfg)"
  have k: "list_all keyed (i_fields impl)" using assms(3) by (simp add: list_all_iff field_ok_keyed)
  have "view X cfg (?f u) = map_option (appends ?T) (view X cfg u)" if "good X cfg u" for u
    using that k by (simp add: fields_text_def)
  from local_buffer_view [OF assms(1,2) _ this, of cap] assms(4)
  obtain s1 where s1: "with_local_buffer cap ?f s = (?T, s1)" "cache_step X cfg s s1" by (auto simp: fields_fit_def)
  have al: "all_alloc (e_world s1)" using cache_step_sel(5) [OF s1(2) assms(1)] .
  have fr: "s\<lparr>e_world := pslog_free_internal False (e_world s)\<rparr> = s" by (simp add: pslog_free_internal_def)
  have bld: "pslog_build_field_prefix X cfg impl s = (if length ?T > 0
               then (case pslog_memdup_local (?T @ [CHR 0x00]) (e_world s1) of
                       (None, w) \<Rightarrow> (False, impl\<lparr>i_field_prefix := []\<rparr>, s1\<lparr>e_world := w\<rparr>)
                     | (Some _, w) \<Rightarrow> (True, impl\<lparr>i_field_prefix := ?T\<rparr>, s1\<lparr>e_world := w\<rparr>))
               else (True, impl\<lparr>i_field_prefix := []\<rparr>, s1))"
    unfolding pslog_build_field_prefix_def Let_def cap_def [symmetric] using assms(5) False by (simp add: fr s1(1) split: prod.split option.split)
  have mem: "pslog_memdup_local (?T @ [CHR 0x00]) (e_world s1) = (Some (?T @ [CHR 0x00]), (e_world s1)\<lparr>w_allocs := Suc (w_allocs (e_world s1))\<rparr>)"
    using al by (simp add: pslog_memdup_local_def pslog_malloc_internal_def all_alloc_def)
  have step: "cache_step X cfg s (s1\<lparr>e_world := (e_world s1)\<lparr>w_allocs := Suc (w_allocs (e_world s1))\<rparr>\<rparr>)"
  proof (rule cache_step_trans [OF s1(2) cache_step_allocs])
    show "allocs_only s1 (s1\<lparr>e_world := (e_world s1)\<lparr>w_allocs := Suc (w_allocs (e_world s1))\<rparr>\<rparr>)"
      unfolding allocs_only_def by (intro exI [where x = "Suc (w_allocs (e_world s1))"] exI [where x = "w_frees (e_world s1)"])
        (simp add: set_allocs_def)
    show "caches_ok X cfg (e_shared s1)" using s1(2) by (simp add: cache_step_def)
  qed
  show ?thesis
  proof (cases "length ?T > 0")
    case True
    with bld mem step show ?thesis by (intro that) simp_all
  next
    case False
    with bld s1(2) show ?thesis by (intro that [of s1]) simp_all
  qed
qed

text \<open>Counting the new logger in, and out again.\<close>

lemma retain_spec:
  "caches_ok X cfg (e_shared s) \<Longrightarrow> pslog_retain_shared s = e_shared_update (s_refcount_update (\<lambda>n. n + 1)) s"
  by (cases "e_shared s"; cases s) (simp add: pslog_retain_shared_def pslog_state_lock_def pslog_state_unlock_def caches_ok_def Let_def)

lemma refcount_caches [simp]: "caches_ok X cfg (s_refcount_update g sh) = caches_ok X cfg sh"
  by (simp add: caches_ok_def timestamp_ok_def kvfmt_ok_def)

lemma clone_succeeds:
  assumes "all_alloc (e_world s)" "caches_ok X cfg (e_shared s)" "list_all field_ok (i_fields impl @ flds)" "fields_fit X cfg (i_fields impl @ flds)"
  obtains cs s' where "pslog_clone_with_fields X cfg impl flds s =
      (Some \<lparr>i_fields = cs, i_field_prefix = fields_text X cfg cs, i_min_level = i_min_level impl,
         i_include_level_field = i_include_level_field impl, i_can_close_shared = False\<rparr>, s')"
    "alike_fields (i_fields impl @ flds) cs" "cache_step X cfg (e_shared_update (s_refcount_update (\<lambda>n. n + 1)) s) s'"
proof -
  let ?r = "e_shared_update (s_refcount_update (\<lambda>n. n + 1)) s"
  have r: "all_alloc (e_world ?r)" "caches_ok X cfg (e_shared ?r)" using assms(1,2) by simp_all
  let ?n = "w_allocs (e_world s)"
  define s1 where "s1 = set_allocs (Suc (Suc ?n)) (w_frees (e_world s)) ?r"
  obtain i where al: "pslog_allocate_logger cfg ?r = (Some i, s1)" "i_field_prefix i = []"
    unfolding allocate_spec [OF r(1)] by (auto simp: s1_def set_allocs_def)
  have st1: "cache_step X cfg ?r s1"
    by (rule cache_step_allocs [OF _ r(2)]) (auto simp: allocs_only_def s1_def)
  have w1: "all_alloc (e_world s1)" using cache_step_sel(5) [OF st1 r(1)] .
  obtain cs n where cs: "pslog_copy_fields X (i_fields impl) flds (e_world s1) = (Some cs, (e_world s1)\<lparr>w_allocs := n\<rparr>)"
    "w_allocs (e_world s1) \<le> n" "field_copies (i_fields impl @ flds) cs"
    using copy_fields_succeeds [OF w1 assms(4)] by blast
  have a: "alike_fields (i_fields impl @ flds) cs" by (rule copies_alike [OF cs(3) assms(3)])
  let ?s2 = "s1\<lparr>e_world := (e_world s1)\<lparr>w_allocs := n\<rparr>\<rparr>"
  have c1: "caches_ok X cfg (e_shared s1)" using st1 by (simp add: cache_step_def)
  have st2: "cache_step X cfg s1 ?s2"
  proof (rule cache_step_allocs [OF _ c1])
    show "allocs_only s1 ?s2" unfolding allocs_only_def using cs(2)
      by (intro exI [where x = n] exI [where x = "w_frees (e_world s1)"]) (simp add: set_allocs_def)
  qed
  have w2: "all_alloc (e_world ?s2)" using cache_step_sel(5) [OF st2 w1] .
  have c2: "caches_ok X cfg (e_shared ?s2)" using c1 by simp
  let ?i = "i\<lparr>i_fields := cs\<rparr>"
  have ok: "list_all field_ok (i_fields ?i)" "fields_fit X cfg (i_fields ?i)"
    using alike_fields_text [OF a] alike_fit [OF a] assms(4) by simp_all
  obtain s3 where b: "pslog_build_field_prefix X cfg ?i ?s2 = (True, ?i\<lparr>i_field_prefix := fields_text X cfg (i_fields ?i)\<rparr>, s3)"
    "cache_step X cfg ?s2 s3"
    by (rule build_prefix_succeeds [OF w2 c2 ok]) (simp add: al(2))
  have "pslog_clone_with_fields X cfg impl flds s = (Some \<lparr>i_fields = cs, i_field_prefix = fields_text X cfg cs, i_min_level = i_min_level impl,
         i_include_level_field = i_include_level_field impl, i_can_close_shared = False\<rparr>, s3)"
    unfolding pslog_clone_with_fields_def retain_spec [OF assms(2)] using al(1) cs(1) b(1)
    by (cases i) simp
  then show ?thesis using a cache_step_trans [OF cache_step_trans [OF st1 st2] b(2)] by (rule that)
qed

section \<open>A session\<close>

text \<open>What a logger shows: its fields up to the addresses of copies, its level and the level field.\<close>

definition same_logger :: "libc \<Rightarrow> shared_cfg \<Rightarrow> pslog_logger_impl \<Rightarrow> pslog_logger_impl \<Rightarrow> bool" where
  "same_logger X cfg a impl = (alike_fields (i_fields a) (i_fields impl) \<and> i_min_level impl = i_min_level a \<and>
     i_include_level_field impl = i_include_level_field a \<and> logger_ok X cfg impl \<and> fields_fit X cfg (i_fields impl))"

lemma same_text:
  assumes "same_logger X cfg a impl"
  shows "log_text X cfg impl level msg flds clock = log_text X cfg a level msg flds clock"
    "pslog_should_log b impl level = pslog_should_log b a level"
proof -
  note s = assms [unfolded same_logger_def]
  have f: "alike_fields (i_fields a) (i_fields impl)" using s by simp
  have m: "i_min_level impl = i_min_level a" "i_include_level_field impl = i_include_level_field a" using s by simp_all
  note t = alike_fields_text [OF f]
  have lf: "level_field X impl = level_field X a" "level_field_text p impl = level_field_text p a" for p
    by (simp_all add: level_field_def level_field_text_def m)
  show "log_text X cfg impl level msg flds clock = log_text X cfg a level msg flds clock"
    by (simp add: log_text_def json_line_text_def json_object_text_def console_object_text_def console_head_text_def t(1,2) lf m(2))
  show "pslog_should_log b impl level = pslog_should_log b a level"
    by (simp add: pslog_should_log_def m)
qed

context emitting_sink
begin

lemma serving_step:
  assumes "serving snk ok X cfg s" "cache_step X cfg s t"
  shows "serving snk ok X cfg t" "acc (e_world t) = acc (e_world s)"
proof -
  note c = cache_step_sel [OF assms(2)]
  obtain n m where w: "e_world t = (e_world s)\<lparr>w_allocs := n, w_frees := m\<rparr>"
    using assms(2) unfolding cache_step_def by blast
  have "ok (e_world t)" unfolding w ok_alloc using assms(1) by (simp add: serving_def)
  moreover have "caches_ok X cfg (e_shared t)" using assms(2) by (simp add: cache_step_def)
  ultimately show "serving snk ok X cfg t" using assms(1) c by (simp add: serving_def)
  show "acc (e_world t) = acc (e_world s)" unfolding w by (rule acc_alloc)
qed

lemma serving_retained: "serving snk ok X cfg (e_shared_update (s_refcount_update g) s) = serving snk ok X cfg s"
  by (simp add: serving_def)

text \<open>Deriving a logger writes nothing, counts one reference more and adds the fields.\<close>

lemma clone_serves:
  assumes serve: "serving snk ok X cfg s" and a: "same_logger X cfg a impl" and f: "list_all field_ok flds" "fields_fit X cfg (i_fields a @ flds)"
  obtains child s' where "pslog_clone_with_fields X cfg impl flds s = (Some child, s')" "serving snk ok X cfg s'"
    "acc (e_world s') = acc (e_world s)" "s_refcount (e_shared s') = s_refcount (e_shared s) + 1"
    "same_logger X cfg (a\<lparr>i_fields := i_fields a @ flds\<rparr>) child"
proof -
  have sv: "all_alloc (e_world s)" "caches_ok X cfg (e_shared s)" using serve by (simp_all add: serving_def)
  have f0: "alike_fields (i_fields a) (i_fields impl)" "logger_ok X cfg impl" using a by (simp_all add: same_logger_def)
  have al: "alike_fields (i_fields a @ flds) (i_fields impl @ flds)"
    using f0(1) alike_fields_refl [OF f(1)] unfolding alike_fields_def by (rule list_all2_appendI)
  have fit: "fields_fit X cfg (i_fields impl @ flds)" using alike_fit [OF al] f(2) by simp
  obtain cs s' where c: "pslog_clone_with_fields X cfg impl flds s =
      (Some \<lparr>i_fields = cs, i_field_prefix = fields_text X cfg cs, i_min_level = i_min_level impl,
         i_include_level_field = i_include_level_field impl, i_can_close_shared = False\<rparr>, s')"
    "alike_fields (i_fields impl @ flds) cs" "cache_step X cfg (e_shared_update (s_refcount_update (\<lambda>n. n + 1)) s) s'"
    by (rule clone_succeeds [OF sv alike_fields_text(3) [OF al] fit])
  note st = serving_step [OF _ c(3), unfolded serving_retained, OF serve]
  let ?c = "\<lparr>i_fields = cs, i_field_prefix = fields_text X cfg cs, i_min_level = i_min_level impl,
         i_include_level_field = i_include_level_field impl, i_can_close_shared = False\<rparr>"
  have "alike_fields (i_fields a @ flds) cs" by (rule alike_fields_trans [OF al c(2)])
  moreover from this have "list_all field_ok cs" "fields_fit X cfg cs" using alike_fields_text alike_fit f(2) by blast+
  ultimately have "same_logger X cfg (a\<lparr>i_fields := i_fields a @ flds\<rparr>) ?c"
    using a by (auto simp: same_logger_def logger_ok_def)
  with c st cache_step_sel(4) [OF c(3)] show ?thesis by (intro that [of ?c s']) simp_all
qed

end

section \<open>Calls with format strings\<close>

text \<open>A format string is its keys and conversions; the line does not depend on where the keys lie.\<close>

definition sig_spec :: "string \<times> kvfmt_arg_type \<Rightarrow> kvfmt_field_spec" where
  "sig_spec q = \<lparr>ks_key = (0, fst q), ks_key_len = length (fst q), ks_arg_type = snd q, ks_console_prefix = [], ks_json_color_prefix = []\<rparr>"

definition sig_members ::
  "libc \<Rightarrow> shared_cfg \<Rightarrow> (string \<times> kvfmt_arg_type) list \<Rightarrow> 32 word \<Rightarrow> kvfmt_arg list \<Rightarrow> string" where
  "sig_members X cfg sig e ap =
     (if c_mode cfg = MODE_JSON then json_kvfmt_members X cfg (used_palette cfg) e (map sig_spec sig) ap
      else console_kvfmt_text X cfg (map sig_spec sig) e ap)"

definition logf_text ::
  "libc \<Rightarrow> shared_cfg \<Rightarrow> pslog_logger_impl \<Rightarrow> pslog_level \<Rightarrow> cstring option \<Rightarrow> cstring \<Rightarrow> 32 word \<Rightarrow> kvfmt_arg list \<Rightarrow> int \<times> int \<Rightarrow> string" where
  "logf_text X cfg impl level msg t e ap clock =
     (case kvfmt_signature t of
        None \<Rightarrow> log_text X cfg impl (if level = LEVEL_FATAL \<or> level = LEVEL_PANIC then level else LEVEL_ERROR) (Some ''invalid kvfmt'') [] clock
      | Some sig \<Rightarrow>
          if c_mode cfg = MODE_JSON
          then json_object_text X cfg (used_palette cfg) impl (slot_level level) msg (sig_members X cfg sig e ap) clock
          else console_object_text X cfg impl level msg (sig_members X cfg sig e ap) clock)"

text \<open>The diagnostic has to pass the filter at its own level.\<close>

definition logf_passes :: "pslog_logger_impl \<Rightarrow> pslog_level \<Rightarrow> cstring \<Rightarrow> bool" where
  "logf_passes impl level t = (pslog_should_log False impl level \<and>
     (kvfmt_signature t \<noteq> None \<or> level \<in> {LEVEL_FATAL, LEVEL_PANIC} \<or> pslog_should_log False impl LEVEL_ERROR))"

lemma sig_spec_sel [simp]: "spec_key (sig_spec q) = fst q" "ks_arg_type (sig_spec q) = snd q" "ks_key_len (sig_spec q) = length (fst q)"
  by (simp_all add: sig_spec_def spec_key_def)

lemma json_kvfmt_sig:
  "map spec_sig specs = sig \<Longrightarrow> json_kvfmt_members X cfg p e specs ap = json_kvfmt_members X cfg p e (map sig_spec sig) ap"
  by (induction specs arbitrary: sig ap) (auto simp: spec_sig_def json_member_def json_value_text_def)

lemma console_kvfmt_sig:
  assumes "map spec_sig specs = sig" "list_all (spec_ok cfg) specs"
  shows "console_kvfmt_text X cfg specs e ap = console_kvfmt_text X cfg (map sig_spec sig) e ap"
  using assms
proof (induction specs arbitrary: sig ap)
  case (Cons spec specs)
  have k: "ks_key_len spec = length (spec_key spec)" using Cons.prems(2) by (simp add: spec_ok_def spec_key_def)
  have lead: "kvfmt_lead cfg spec = kvfmt_lead cfg (sig_spec (spec_sig spec))"
    by (simp add: kvfmt_lead_def kvfmt_console_text_def spec_sig_def Let_def)
  have val: "kvfmt_value_text X cfg spec e ap = kvfmt_value_text X cfg (sig_spec (spec_sig spec)) e ap"
    by (simp add: kvfmt_value_text_def spec_sig_def)
  have ih: "console_kvfmt_text X cfg specs e ap' = console_kvfmt_text X cfg (map sig_spec (map spec_sig specs)) e ap'" for ap'
    using Cons.IH [OF refl] Cons.prems(2) by simp
  show ?case
    unfolding Cons.prems(1) [symmetric] list.map console_kvfmt_text.simps lead val ih
    by (simp add: spec_sig_def k)
qed simp

context emitting_sink
begin

lemma vlogf_text:
  assumes serve: "serving snk ok X cfg s" and c: "cfg_ok cfg" "logger_ok X cfg impl" "call_ok X level clock" and t: "length t \<le> 2 ^ 48"
  shows "acc (e_world (pslog_vlogf_impl X cfg impl level msg (Some (a, t)) e ap clock s)) =
      acc (e_world s) @ (if logf_passes impl level t then logf_text X cfg impl level msg t e ap clock else []) \<and>
    serving snk ok X cfg (pslog_vlogf_impl X cfg impl level msg (Some (a, t)) e ap clock s)"
proof (cases "pslog_should_log False impl level")
  case False
  with serve show ?thesis by (simp add: pslog_vlogf_impl_def serving_def logf_passes_def)
next
  case pass: True
  have sv: "all_alloc (e_world s)" "caches_ok X cfg (e_shared s)" "s_closed (e_shared s) = False" using serve by (simp_all add: serving_def)
  have pal: "palette_sized (c_palette cfg)" using c(1) by (simp add: cfg_ok_def)
  obtain r s1 where r: "pslog_resolve_kvfmt_entry X (Some cfg) (Some (a, t)) (s\<lparr>e_shared := pslog_state_lock (e_shared s)\<rparr>) = (r, s1)"
    "cache_step X cfg s (s1\<lparr>e_shared := pslog_state_unlock (e_shared s1)\<rparr>)"
    "case r of None \<Rightarrow> kvfmt_signature t = None | Some q \<Rightarrow> \<exists>e. resolved_entry q = Some e \<and> entry_ok cfg t e"
    by (rule locked_resolve [OF sv(1,2) pal t])
  let ?s2 = "s1\<lparr>e_shared := pslog_state_unlock (e_shared s1)\<rparr>"
  note s2 = serving_step [OF serve r(2)]
  show ?thesis
  proof (cases r)
    case None
    let ?d = "if level = LEVEL_FATAL \<or> level = LEVEL_PANIC then level else LEVEL_ERROR"
    have cd: "call_ok X ?d clock" using c(3) by (simp add: call_ok_def std_level_def slot_level_def std_levels_def)
    have sg: "kvfmt_signature t = None" using r(3) None by simp
    from log_impl_text [OF s2(1) c(1,2) cd, of "[]" "Some ''invalid kvfmt''"]
    show ?thesis using pass sv(3) r(1) None sg s2(2)
      by (cases "level = LEVEL_FATAL"; cases "level = LEVEL_PANIC"; simp add: pslog_vlogf_impl_def logf_text_def logf_passes_def Let_def)
  next
    case (Some q)
    then obtain en where en: "resolved_entry q = Some en" "entry_ok cfg t en" using r(3) by auto
    have sp: "list_all (\<lambda>spec. prepared cfg spec = spec) (entry_specs (Some en))"
      using en(2) by (auto simp: entry_ok_def entry_specs_def spec_ok_def list_all_iff)
    have sg: "kvfmt_signature t = Some (map spec_sig (ke_fields en))" "list_all (spec_ok cfg) (ke_fields en)"
      using en(2) by (simp_all add: entry_ok_def)
    note ok = logger_emit_ok [OF c]
    show ?thesis
      using emit_json_kvfmt_text [OF s2(1) ok(1) sp, of msg e ap] emit_console_kvfmt_text [OF s2(1) ok(2) sp, of level msg e ap]
        pass sv(3) r(1) Some sg(1) s2(2) en(1) json_kvfmt_sig [OF refl, of X cfg "used_palette cfg" e "ke_fields en" ap]
        console_kvfmt_sig [OF refl sg(2), of X e ap]
      by (simp add: pslog_vlogf_impl_def logf_text_def logf_passes_def sig_members_def entry_specs_def Let_def)
  qed
qed

end

end
