(* ===== verification/Session.thy ===== *)
theory Session
  imports Logger
begin

text \<open>
  Whole sessions: a logger from \<open>pslog_new\<close>, loggers derived from it and from each other, and log calls
  on any of them, in any order. The abstract session has loggers that are only their fields and
  levels, without buffers, caches, prepared prefixes or copies, and an output that only grows; the
  library refines it.
\<close>

section \<open>Fields of a format string\<close>

definition format_fields :: "shared_cfg \<Rightarrow> (string \<times> kvfmt_arg_type) list \<Rightarrow> 32 word \<Rightarrow> kvfmt_arg list \<Rightarrow> pslog_field list" where
  "format_fields cfg sig e ap = materialize_specs (c_mode cfg) e (map sig_spec sig) ap"

definition sig_ok :: "(string \<times> kvfmt_arg_type) list \<Rightarrow> bool" where
  "sig_ok sig = list_all (\<lambda>q. fst q \<noteq> [] \<and> safe_text (fst q)) sig"

lemma console_measure: "fst (pslog_string_is_console_simple_measure (Some t)) = (t \<noteq> [] \<and> console_simple_text t)"
  using simple_text [of t] by (simp add: pslog_string_is_console_simple_internal_def)

lemma materialize_value_ok: "value_ok (materialize_spec mode e spec ap)"
proof (cases "kvfmt_value (ks_arg_type spec) e ap")
  case (V_string sv)
  then obtain t where t: "sv = Some t" using kvfmt_string by blast
  show ?thesis
    by (auto simp: value_ok_def V_string t materialize_spec_def ascii_trusted_measure_spec ascii_safe console_measure Let_def)
qed (simp_all add: value_ok_def)

lemma materialize_alike:
  assumes "spec_ok cfg spec" "spec_key spec \<noteq> []" "safe_text (spec_key spec)"
  shows "alike (materialize_spec mode e (sig_spec (spec_sig spec)) ap) (materialize_spec mode e spec ap) \<and>
    field_ok (materialize_spec mode e (sig_spec (spec_sig spec)) ap) \<and> field_ok (materialize_spec mode e spec ap)"
proof -
  have len: "ks_key_len spec = length (spec_key spec)" "ks_key_len spec \<le> length (snd (ks_key spec))"
    using assms(1) by (simp_all add: spec_ok_def spec_key_def)
  have same: "materialize_spec mode e spec ap = (materialize_spec mode e (sig_spec (spec_sig spec)) ap)
      \<lparr>f_key := Some (ks_key spec), f_value := kvfmt_value (ks_arg_type spec) e ap\<rparr>"
    by (cases "kvfmt_value (ks_arg_type spec) e ap") (simp_all add: materialize_spec_def spec_sig_def len(1) Let_def case_prod_beta)
  have fv: "field_value (materialize_spec mode e spec ap) = field_value (materialize_spec mode e (sig_spec (spec_sig spec)) ap)"
    by (cases "kvfmt_value (ks_arg_type spec) e ap") (simp_all add: field_value_def materialize_spec_def spec_sig_def Let_def case_prod_beta split: option.split)
  have "alike (materialize_spec mode e (sig_spec (spec_sig spec)) ap) (materialize_spec mode e spec ap)"
    unfolding alike_def
  proof (intro conjI)
    show "materialize_spec mode e spec ap = (materialize_spec mode e (sig_spec (spec_sig spec)) ap)
        \<lparr>f_key := f_key (materialize_spec mode e spec ap), f_value := f_value (materialize_spec mode e spec ap)\<rparr>"
      unfolding materialize_sel(1) direct_field_sel(3) by (rule same)
    show "field_key (materialize_spec mode e spec ap) = field_key (materialize_spec mode e (sig_spec (spec_sig spec)) ap)"
      unfolding direct_field_sel(4) by (simp add: spec_sig_def)
  qed (rule fv)
  moreover have tk: "take (length (spec_key spec)) (snd (ks_key spec)) = spec_key spec" using len(2) by (simp add: spec_key_def min_def)
  have "key_ok (materialize_spec mode e spec ap)"
    using assms(2,3) len by (simp add: key_ok_def case_prod_beta tk)
  moreover have "key_ok (materialize_spec mode e (sig_spec (spec_sig spec)) ap)"
    using assms(2,3) by (simp add: key_ok_def spec_sig_def sig_spec_def)
  ultimately show ?thesis by (simp add: field_ok_def materialize_value_ok)
qed

lemma format_alike:
  assumes "list_all (spec_ok cfg) specs" "sig_ok (map spec_sig specs)"
  shows "alike_fields (format_fields cfg' (map spec_sig specs) e ap) (materialize_specs (c_mode cfg') e specs ap)"
  using assms
proof (induction specs arbitrary: ap)
  case (Cons spec specs)
  have "spec_ok cfg spec" "spec_key spec \<noteq> []" "safe_text (spec_key spec)"
    using Cons.prems by (simp_all add: sig_ok_def spec_sig_def)
  from materialize_alike [OF this] Cons show ?case
    by (simp add: format_fields_def alike_fields_def sig_ok_def spec_sig_def)
qed (simp add: format_fields_def alike_fields_def)

lemma signature_short:
  assumes "kvfmt_signature t = Some sig" "cstr_ok t"
  shows "length sig \<le> kvfmt_max_fields"
proof -
  obtain specs where s: "kvfmt_loop (0, t) [] = Some specs" "sig = map spec_sig specs" using assms(1) by (auto simp: kvfmt_signature_def)
  from kvfmt_loop_sound [OF s(1)] assms(2) s(2) show ?thesis by auto
qed

context emitting_sink
begin

lemma withf_serves:
  assumes serve: "serving snk ok X cfg s" and a: "same_logger X cfg a impl" and c: "cfg_ok cfg"
    and t: "length t \<le> 2 ^ 48" "cstr_ok t" "kvfmt_signature t = Some sig" "sig_ok sig"
    and fit: "fields_fit X cfg (i_fields a @ format_fields cfg sig e ap)"
  obtains child s' where "pslog_vwithf_impl X cfg impl (Some (k, t)) e ap s = (Some child, s')" "serving snk ok X cfg s'"
    "acc (e_world s') = acc (e_world s)" "s_refcount (e_shared s') = s_refcount (e_shared s) + 1"
    "same_logger X cfg (a\<lparr>i_fields := i_fields a @ format_fields cfg sig e ap\<rparr>) child"
proof -
  have sv: "all_alloc (e_world s)" "caches_ok X cfg (e_shared s)" using serve by (simp_all add: serving_def)
  have pal: "palette_sized (c_palette cfg)" using c by (simp add: cfg_ok_def)
  obtain r s1 where r: "pslog_resolve_kvfmt_entry X (Some cfg) (Some (k, t)) (s\<lparr>e_shared := pslog_state_lock (e_shared s)\<rparr>) = (r, s1)"
    "cache_step X cfg s (s1\<lparr>e_shared := pslog_state_unlock (e_shared s1)\<rparr>)"
    "case r of None \<Rightarrow> kvfmt_signature t = None | Some q \<Rightarrow> \<exists>e. resolved_entry q = Some e \<and> entry_ok cfg t e"
    by (rule locked_resolve [OF sv pal t(1)])
  note s2 = serving_step [OF serve r(2)]
  obtain q en where q: "r = Some q" "resolved_entry q = Some en" "entry_ok cfg t en" using r(3) t(3) by (cases r) auto
  have sig: "sig = map spec_sig (ke_fields en)" "list_all (spec_ok cfg) (ke_fields en)" using q(3) t(3) by (simp_all add: entry_ok_def)
  let ?m = "materialize_specs (c_mode cfg) e (ke_fields en) ap"
  have al: "alike_fields (format_fields cfg sig e ap) ?m" using format_alike [OF sig(2)] t(4) by (simp add: sig(1))
  have mat: "pslog_materialize_kvfmt_fields (resolved_entry q) (c_mode cfg) e ap = Some ?m"
    using signature_short [OF t(3,2)] q(2) by (simp add: pslog_materialize_kvfmt_fields_def sig(1))
  have ok_m: "list_all field_ok ?m" using alike_fields_text(3) [OF al] .
  have base: "alike_fields (i_fields a) (i_fields a)"
    using a alike_fields_text(4) by (auto simp: same_logger_def intro: alike_fields_refl)
  then have "alike_fields (i_fields a @ format_fields cfg sig e ap) (i_fields a @ ?m)"
    using al unfolding alike_fields_def by (rule list_all2_appendI)
  note al2 = this
  have fit2: "fields_fit X cfg (i_fields a @ ?m)" using alike_fit [OF al2] fit by simp
  obtain child s' where ch: "pslog_clone_with_fields X cfg impl ?m (s1\<lparr>e_shared := pslog_state_unlock (e_shared s1)\<rparr>) = (Some child, s')"
    "serving snk ok X cfg s'" "acc (e_world s') = acc (e_world (s1\<lparr>e_shared := pslog_state_unlock (e_shared s1)\<rparr>))"
    "s_refcount (e_shared s') = s_refcount (e_shared (s1\<lparr>e_shared := pslog_state_unlock (e_shared s1)\<rparr>)) + 1"
    "same_logger X cfg (a\<lparr>i_fields := i_fields a @ ?m\<rparr>) child"
    by (rule clone_serves [OF s2(1) a ok_m fit2])
  have "alike_fields (i_fields a @ format_fields cfg sig e ap) (i_fields child)"
    using alike_fields_trans [OF al2] ch(5) by (simp add: same_logger_def)
  then have same: "same_logger X cfg (a\<lparr>i_fields := i_fields a @ format_fields cfg sig e ap\<rparr>) child"
    using ch(5) by (simp add: same_logger_def)
  have "pslog_vwithf_impl X cfg impl (Some (k, t)) e ap s = (Some child, s')"
    using r(1) q(1) mat ch(1) by (simp add: pslog_vwithf_impl_def Let_def)
  then show ?thesis using ch(2-4) s2(2) cache_step_sel(4) [OF r(2)] same by (intro that) simp_all
qed

end

section \<open>Operations\<close>

text \<open>
  Operations of a session, each on the logger with the given number; a derived logger takes the next
  number. \<open>Op_logf\<close> and \<open>Op_withf\<close> carry the address and the text of their format, the saved \<open>errno\<close> and
  the arguments.
\<close>

datatype operation =
    Op_log nat pslog_level "cstring option" "pslog_field list" "int \<times> int"
  | Op_logf nat pslog_level "cstring option" cptr "32 word" "kvfmt_arg list" "int \<times> int"
  | Op_with nat "pslog_field list"
  | Op_withf nat cptr "32 word" "kvfmt_arg list"
  | Op_with_level nat pslog_level
  | Op_with_level_field nat

definition add_logger :: "pslog_logger_impl list \<Rightarrow> pslog_logger_impl option \<times> est \<Rightarrow> pslog_logger_impl list \<times> est" where
  "add_logger ls r = (case r of (None, s) \<Rightarrow> (ls, s) | (Some l, s) \<Rightarrow> (ls @ [l], s))"

fun run_op :: "libc \<Rightarrow> shared_cfg \<Rightarrow> operation \<Rightarrow> pslog_logger_impl list \<times> est \<Rightarrow> pslog_logger_impl list \<times> est" where
  "run_op X cfg (Op_log i level msg flds clock) (ls, s) = (ls, pslog_log_impl X cfg (ls ! i) level msg flds clock s)"
| "run_op X cfg (Op_logf i level msg kvfmt e ap clock) (ls, s) =
     (ls, pslog_vlogf_impl X cfg (ls ! i) level msg (Some kvfmt) e ap clock s)"
| "run_op X cfg (Op_with i flds) (ls, s) = add_logger ls (pslog_logger_with X cfg (ls ! i) flds s)"
| "run_op X cfg (Op_withf i kvfmt e ap) (ls, s) = add_logger ls (pslog_vwithf_impl X cfg (ls ! i) (Some kvfmt) e ap s)"
| "run_op X cfg (Op_with_level i level) (ls, s) = add_logger ls (pslog_logger_with_level X cfg (ls ! i) level s)"
| "run_op X cfg (Op_with_level_field i) (ls, s) = add_logger ls (pslog_logger_with_level_field X cfg (ls ! i) s)"

section \<open>The abstract session\<close>

text \<open>
  Its loggers are loggers without a prepared prefix; its output is the text of the calls that pass the
  filter. A format string that does not parse gives a diagnostic line at error level.
\<close>

fun spec_op ::
  "libc \<Rightarrow> shared_cfg \<Rightarrow> operation \<Rightarrow> pslog_logger_impl list \<times> string \<Rightarrow> pslog_logger_impl list \<times> string" where
  "spec_op X cfg (Op_log i level msg flds clock) (ls, out) =
     (ls, out @ (if pslog_should_log False (ls ! i) level then log_text X cfg (ls ! i) level msg flds clock else []))"
| "spec_op X cfg (Op_logf i level msg kvfmt e ap clock) (ls, out) =
     (ls, out @ (if logf_passes (ls ! i) level (snd kvfmt) then logf_text X cfg (ls ! i) level msg (snd kvfmt) e ap clock else []))"
| "spec_op X cfg (Op_with i flds) (ls, out) = (ls @ [(ls ! i)\<lparr>i_fields := i_fields (ls ! i) @ flds\<rparr>], out)"
| "spec_op X cfg (Op_withf i kvfmt e ap) (ls, out) =
     (case kvfmt_signature (snd kvfmt) of None \<Rightarrow> (ls, out)
      | Some sig \<Rightarrow> (ls @ [(ls ! i)\<lparr>i_fields := i_fields (ls ! i) @ format_fields cfg sig e ap\<rparr>], out))"
| "spec_op X cfg (Op_with_level i level) (ls, out) = (ls @ [(ls ! i)\<lparr>i_min_level := level\<rparr>], out)"
| "spec_op X cfg (Op_with_level_field i) (ls, out) = (ls @ [(ls ! i)\<lparr>i_include_level_field := True\<rparr>], out)"

text \<open>What a caller has to respect: existing loggers, well-formed fields, formats and levels of the API.\<close>

fun op_ok :: "libc \<Rightarrow> shared_cfg \<Rightarrow> operation \<Rightarrow> pslog_logger_impl list \<Rightarrow> bool" where
  "op_ok X cfg (Op_log i level msg flds clock) ls = (i < length ls \<and> call_ok X level clock \<and> list_all field_ok flds)"
| "op_ok X cfg (Op_logf i level msg kvfmt e ap clock) ls = (i < length ls \<and> call_ok X level clock \<and> length (snd kvfmt) \<le> 2 ^ 48)"
| "op_ok X cfg (Op_with i flds) ls = (i < length ls \<and> list_all field_ok flds \<and> fields_fit X cfg (i_fields (ls ! i) @ flds))"
| "op_ok X cfg (Op_withf i kvfmt e ap) ls = (i < length ls \<and> length (snd kvfmt) \<le> 2 ^ 48 \<and> cstr_ok (snd kvfmt) \<and>
     (case kvfmt_signature (snd kvfmt) of None \<Rightarrow> True
      | Some sig \<Rightarrow> sig_ok sig \<and> fields_fit X cfg (i_fields (ls ! i) @ format_fields cfg sig e ap)))"
| "op_ok X cfg (Op_with_level i level) ls = (i < length ls \<and> (i_include_level_field (ls ! i) \<longrightarrow> std_level level))"
| "op_ok X cfg (Op_with_level_field i) ls = (i < length ls \<and> std_level (i_min_level (ls ! i)))"

fun ops_ok :: "libc \<Rightarrow> shared_cfg \<Rightarrow> operation list \<Rightarrow> pslog_logger_impl list \<times> string \<Rightarrow> bool" where
  "ops_ok X cfg [] q = True"
| "ops_ok X cfg (op # ops) q = (op_ok X cfg op (fst q) \<and> ops_ok X cfg ops (spec_op X cfg op q))"

section \<open>The library refines it\<close>

definition loggers_refine :: "libc \<Rightarrow> shared_cfg \<Rightarrow> pslog_logger_impl list \<Rightarrow> pslog_logger_impl list \<Rightarrow> bool" where
  "loggers_refine X cfg as ls = list_all2 (same_logger X cfg) as ls"

lemma refine_nth: "loggers_refine X cfg as ls \<Longrightarrow> i < length as \<Longrightarrow> same_logger X cfg (as ! i) (ls ! i)"
  by (simp add: loggers_refine_def list_all2_nthD)

lemma refine_add: "loggers_refine X cfg as ls \<Longrightarrow> same_logger X cfg a l \<Longrightarrow> loggers_refine X cfg (as @ [a]) (ls @ [l])"
  by (simp add: loggers_refine_def list_all2_appendI)

lemma same_logger_ok: "same_logger X cfg a l \<Longrightarrow> logger_ok X cfg l"
  by (simp add: same_logger_def)

lemma same_fit: "same_logger X cfg a l \<Longrightarrow> fields_fit X cfg (i_fields a @ [])"
  using alike_fit by (auto simp: same_logger_def)

lemma same_logf:
  assumes "same_logger X cfg a impl"
  shows "logf_text X cfg impl level msg t e ap clock = logf_text X cfg a level msg t e ap clock"
    "logf_passes impl level t = logf_passes a level t"
proof -
  note s = assms [unfolded same_logger_def]
  have f: "alike_fields (i_fields a) (i_fields impl)" using s by simp
  have m: "i_min_level impl = i_min_level a" "i_include_level_field impl = i_include_level_field a" using s by simp_all
  note t = alike_fields_text [OF f]
  have lf: "level_field X impl = level_field X a" "level_field_text p impl = level_field_text p a" for p
    by (simp_all add: level_field_def level_field_text_def m)
  show "logf_passes impl level t = logf_passes a level t" by (simp add: logf_passes_def same_text(2) [OF assms])
  show "logf_text X cfg impl level msg t e ap clock = logf_text X cfg a level msg t e ap clock"
    by (simp add: logf_text_def same_text(1) [OF assms] json_object_text_def console_object_text_def console_head_text_def t(1,2) lf m(2)
        split: option.split)
qed

definition refines ::
  "(world \<Rightarrow> string) \<Rightarrow> (est \<Rightarrow> bool) \<Rightarrow> libc \<Rightarrow> shared_cfg \<Rightarrow> pslog_logger_impl list \<times> string \<Rightarrow> pslog_logger_impl list \<times> est \<Rightarrow> bool" where
  "refines acc serves X cfg q r = (loggers_refine X cfg (fst q) (fst r) \<and> acc (e_world (snd r)) = snd q \<and> serves (snd r))"

context emitting_sink
begin

lemma op_refines:
  assumes "cfg_ok cfg" "op_ok X cfg op (fst q)" "refines acc (serving snk ok X cfg) X cfg q r"
  shows "refines acc (serving snk ok X cfg) X cfg (spec_op X cfg op q) (run_op X cfg op r)"
proof -
  obtain as out where q: "q = (as, out)" by fastforce
  obtain ls s where r: "r = (ls, s)" by fastforce
  have R: "loggers_refine X cfg as ls" "acc (e_world s) = out" and serve: "serving snk ok X cfg s" 
    using assms(3) by (simp_all add: refines_def q r)
  note nth = refine_nth [OF R(1)]
  have add: "refines acc (serving snk ok X cfg) X cfg (as @ [a], out) (ls @ [l], s')"
    if "same_logger X cfg a l" "serving snk ok X cfg s'" "acc (e_world s') = acc (e_world s)" for a l s'
    using that R refine_add [OF R(1)] by (simp add: refines_def)
  show ?thesis
  proof (cases op)
    case (Op_log i level msg flds clock)
    then have o: "i < length as" "call_ok X level clock" "list_all field_ok flds" using assms(2) by (simp_all add: q)
    note a = nth [OF o(1)]
    show ?thesis
      using log_impl_text [OF serve assms(1) same_logger_ok [OF a] o(2,3), of msg] R
      by (simp add: Op_log q r refines_def same_text [OF a])
  next
    case (Op_logf i level msg kvfmt e ap clock)
    obtain k t where k: "kvfmt = (k, t)" by fastforce
    have o: "i < length as" "call_ok X level clock" "length t \<le> 2 ^ 48" using assms(2) by (simp_all add: q Op_logf k)
    note a = nth [OF o(1)]
    show ?thesis
      using vlogf_text [OF serve assms(1) same_logger_ok [OF a] o(2,3), of msg k e ap] R
      by (simp add: Op_logf q r k refines_def same_text [OF a] same_logf [OF a])
  next
    case (Op_with i flds)
    then have o: "i < length as" "list_all field_ok flds" "fields_fit X cfg (i_fields (as ! i) @ flds)" using assms(2) by (simp_all add: q)
    note a = nth [OF o(1)]
    obtain child s' where c: "pslog_clone_with_fields X cfg (ls ! i) flds s = (Some child, s')" "serving snk ok X cfg s'"
      "acc (e_world s') = acc (e_world s)" "same_logger X cfg ((as ! i)\<lparr>i_fields := i_fields (as ! i) @ flds\<rparr>) child"
      by (rule clone_serves [OF serve a o(2,3)])
    show ?thesis using add [OF c(4,2,3)] c(1) by (simp add: Op_with q r pslog_logger_with_def add_logger_def)
  next
    case (Op_withf i kvfmt e ap)
    obtain k t where k: "kvfmt = (k, t)" by fastforce
    have o: "i < length as" "length t \<le> 2 ^ 48" "cstr_ok t" using assms(2) by (simp_all add: q Op_withf k)
    note a = nth [OF o(1)]
    show ?thesis
    proof (cases "kvfmt_signature t")
      case None
      have sv: "all_alloc (e_world s)" "caches_ok X cfg (e_shared s)" using serve by (simp_all add: serving_def)
      have pal: "palette_sized (c_palette cfg)" using assms(1) by (simp add: cfg_ok_def)
      obtain rr s1 where rr: "pslog_resolve_kvfmt_entry X (Some cfg) (Some (k, t)) (s\<lparr>e_shared := pslog_state_lock (e_shared s)\<rparr>) = (rr, s1)"
        "cache_step X cfg s (s1\<lparr>e_shared := pslog_state_unlock (e_shared s1)\<rparr>)"
        "case rr of None \<Rightarrow> kvfmt_signature t = None | Some q \<Rightarrow> \<exists>e. resolved_entry q = Some e \<and> entry_ok cfg t e"
        by (rule locked_resolve [OF sv pal o(2)])
      have "rr = None" using rr(3) None by (cases rr) (auto simp: entry_ok_def)
      with rr(1) serving_step [OF serve rr(2)] R None show ?thesis
        by (simp add: Op_withf k q r pslog_vwithf_impl_def add_logger_def refines_def)
    next
      case (Some sig)
      then have o2: "sig_ok sig" "fields_fit X cfg (i_fields (as ! i) @ format_fields cfg sig e ap)" using assms(2) by (simp_all add: q Op_withf k)
      obtain child s' where c: "pslog_vwithf_impl X cfg (ls ! i) (Some (k, t)) e ap s = (Some child, s')" "serving snk ok X cfg s'"
        "acc (e_world s') = acc (e_world s)" "same_logger X cfg ((as ! i)\<lparr>i_fields := i_fields (as ! i) @ format_fields cfg sig e ap\<rparr>) child"
        by (rule withf_serves [OF serve a assms(1) o(2,3) Some o2])
      show ?thesis using add [OF c(4,2,3)] c(1) Some by (simp add: Op_withf k q r add_logger_def)
    qed
  next
    case (Op_with_level i level)
    then have o: "i < length as" "i_include_level_field (as ! i) \<longrightarrow> std_level level" using assms(2) by (simp_all add: q)
    note a = nth [OF o(1)]
    obtain child s' where c: "pslog_clone_with_fields X cfg (ls ! i) [] s = (Some child, s')" "serving snk ok X cfg s'"
      "acc (e_world s') = acc (e_world s)" "same_logger X cfg ((as ! i)\<lparr>i_fields := i_fields (as ! i) @ []\<rparr>) child"
      by (rule clone_serves [OF serve a _ same_fit [OF a]]) simp_all
    have "same_logger X cfg ((as ! i)\<lparr>i_min_level := level\<rparr>) (child\<lparr>i_min_level := level\<rparr>)"
      using c(4) o(2) by (auto simp: same_logger_def logger_ok_def)
    from add [OF this c(2,3)] c(1) show ?thesis by (simp add: Op_with_level q r pslog_logger_with_level_def add_logger_def)
  next
    case (Op_with_level_field i)
    then have o: "i < length as" "std_level (i_min_level (as ! i))" using assms(2) by (simp_all add: q)
    note a = nth [OF o(1)]
    obtain child s' where c: "pslog_clone_with_fields X cfg (ls ! i) [] s = (Some child, s')" "serving snk ok X cfg s'"
      "acc (e_world s') = acc (e_world s)" "same_logger X cfg ((as ! i)\<lparr>i_fields := i_fields (as ! i) @ []\<rparr>) child"
      by (rule clone_serves [OF serve a _ same_fit [OF a]]) simp_all
    have "same_logger X cfg ((as ! i)\<lparr>i_include_level_field := True\<rparr>) (child\<lparr>i_include_level_field := True\<rparr>)"
      using c(4) o(2) by (auto simp: same_logger_def logger_ok_def)
    from add [OF this c(2,3)] c(1) show ?thesis by (simp add: Op_with_level_field q r pslog_logger_with_level_field_def add_logger_def)
  qed
qed

lemma session_refines:
  assumes "cfg_ok cfg" "ops_ok X cfg ops q" "refines acc (serving snk ok X cfg) X cfg q r"
  shows "refines acc (serving snk ok X cfg) X cfg (fold (spec_op X cfg) ops q) (fold (run_op X cfg) ops r)"
  using assms(2,3)
proof (induction ops arbitrary: q r)
  case (Cons op ops)
  from Cons.IH [OF _ op_refines [OF assms(1)]] Cons.prems show ?case by simp
qed simp

end

lemma new_serves:
  assumes new: "pslog_new True True config s = (Some (cfg, impl), s1)"
    and w: "all_alloc (e_world s)" "palette_sized (new_palette config)"
    and lvl: "cf_with_level_field (effective_config config) \<longrightarrow> std_level (cf_min_level (effective_config config))"
  shows "cfg_ok cfg" "same_logger X cfg impl impl" "e_shared s1 = fresh_shared config"
    "\<exists>n m. e_world s1 = (e_world s)\<lparr>w_allocs := n, w_frees := m\<rparr> \<and> w_allocs (e_world s) \<le> n"
    "impl = \<lparr>i_fields = [], i_field_prefix = [], i_min_level = cf_min_level (effective_config config),
       i_include_level_field = cf_with_level_field (effective_config config),
       i_can_close_shared = o_owned (cf_output (effective_config config))\<rparr>"
    "\<exists>capacity. cfg_from config capacity (config_color (effective_config config) (e_world s)) cfg"
proof -
  obtain capacity where cap: "pslog_normalize_line_buffer_capacity (cf_line_buffer_capacity (effective_config config)) = Some capacity"
    using new by (cases "pslog_normalize_line_buffer_capacity (cf_line_buffer_capacity (effective_config config))")
      (auto simp: pslog_new_def Let_def)
  obtain cfg' n m where n: "pslog_new True True config s =
      (Some (cfg', \<lparr>i_fields = [], i_field_prefix = [], i_min_level = cf_min_level (effective_config config),
         i_include_level_field = cf_with_level_field (effective_config config),
         i_can_close_shared = o_owned (cf_output (effective_config config))\<rparr>),
       set_allocs n m (s\<lparr>e_shared := fresh_shared config\<rparr>))" "w_allocs (e_world s) \<le> n"
    "cfg_ok cfg'" "cfg_from config capacity (config_color (effective_config config) (e_world s)) cfg'"
    by (rule new_logger_spec [OF w cap])
  have e: "cfg = cfg'" "s1 = set_allocs n m (s\<lparr>e_shared := fresh_shared config\<rparr>)" using n(1) new by simp_all
  show i: "impl = \<lparr>i_fields = [], i_field_prefix = [], i_min_level = cf_min_level (effective_config config),
       i_include_level_field = cf_with_level_field (effective_config config),
       i_can_close_shared = o_owned (cf_output (effective_config config))\<rparr>" using n(1) new by simp
  show "cfg_ok cfg" "e_shared s1 = fresh_shared config" using n(3) e by (simp_all add: set_allocs_def)
  show "\<exists>n m. e_world s1 = (e_world s)\<lparr>w_allocs := n, w_frees := m\<rparr> \<and> w_allocs (e_world s) \<le> n"
    using n(2) by (auto simp: e(2) set_allocs_def)
  show "same_logger X cfg impl impl"
    using lvl by (simp add: same_logger_def i alike_fields_refl logger_ok_def fields_fit_def fields_text_def console_fields_text_def)
  show "\<exists>capacity. cfg_from config capacity (config_color (effective_config config) (e_world s)) cfg" using n(4) e(1) by blast
qed

context emitting_sink
begin

lemma new_session:
  assumes new: "pslog_new True True config s = (Some (cfg, impl), s1)"
    and w: "all_alloc (e_world s)" "palette_sized (new_palette config)" "o_sink (cf_output (effective_config config)) = snk" "ok (e_world s)"
    and lvl: "cf_with_level_field (effective_config config) \<longrightarrow> std_level (cf_min_level (effective_config config))"
  shows "cfg_ok cfg" "refines acc (serving snk ok X cfg) X cfg ([impl], acc (e_world s)) ([impl], s1)"
proof -
  note n = new_serves [OF new w(1,2) lvl]
  show "cfg_ok cfg" by (rule n(1))
  obtain k m where k: "e_world s1 = (e_world s)\<lparr>w_allocs := k, w_frees := m\<rparr>" "w_allocs (e_world s) \<le> k" using n(4) by blast
  have "ok (e_world s1)" "acc (e_world s1) = acc (e_world s)" unfolding k(1) ok_alloc acc_alloc using w(4) by simp_all
  moreover have "all_alloc (e_world s1)" using w(1) k by (auto simp: all_alloc_def)
  moreover have "caches_ok X cfg (e_shared s1)" unfolding n(3) by (rule fresh_caches_ok)
  ultimately have "serving snk ok X cfg s1" "acc (e_world s1) = acc (e_world s)"
    using w(3) by (simp_all add: serving_def n(3)) (simp_all add: fresh_shared_def zero_shared_def)
  then show "refines acc (serving snk ok X cfg) X cfg ([impl], acc (e_world s)) ([impl], s1)"
    using n(2) by (simp add: refines_def loggers_refine_def)
qed

end

text \<open>A configuration for the examples: JSON to descriptor 3, no colours, no timestamps.\<close>

definition demo_config :: pslog_config where
  "demo_config = pslog_default_config\<lparr>cf_mode := MODE_JSON, cf_color := COLOR_NEVER, cf_timestamps := False,
     cf_output := Output (S_fd 1 (Some 3)) True False True\<rparr>"

definition demo_state :: est where
  "demo_state = demo_est (S_fd 1 (Some 3)) 64 (\<lambda>k. Short (k + 1))"

definition demo_flag :: pslog_field where
  "demo_flag = pslog_bool (Some (0x300, ''ok'')) 1"

lemma default_sized: "palette_sized pslog_palette_default"
  by (simp add: palette_sized_def pslog_palette_default_def pslog_builtin_palette_default_def sgr_text_def sized_def palette_strings_def)

lemma demo_flag_text: "has_key demo_flag" "json_member X cfg no_palette demo_flag = quote ''ok'' @ '':true''"
  by (simp_all add: demo_flag_def pslog_bool_def make_field_def has_key_def json_member_def json_key_bytes_def json_value_text_def
      json_value_color_def json_value_bytes_def field_key_def ascii_trusted_measure_spec unsafe_byte_def no_palette_def)

lemma demo_new:
  obtains cfg impl s1 where "pslog_new True True (Some demo_config) demo_state = (Some (cfg, impl), s1)"
    "c_mode cfg = MODE_JSON" "c_color_enabled cfg = False" "i_fields impl = []" "i_min_level impl = LEVEL_DEBUG" "\<not> i_include_level_field impl"
    "c_timestamps cfg = False" "c_verbose_fields cfg = False"
proof -
  have w: "all_alloc (e_world demo_state)" by (simp add: demo_state_def demo_eqs all_alloc_def)
  have p: "palette_sized (new_palette (Some demo_config))"
    by (simp add: new_palette_def effective_config_def demo_config_def pslog_default_config_def default_sized)
  have cap: "pslog_normalize_line_buffer_capacity (cf_line_buffer_capacity (effective_config (Some demo_config))) = Some default_line_buffer_capacity"
    by (simp add: effective_config_def demo_config_def pslog_default_config_def pslog_normalize_line_buffer_capacity_def
        default_line_buffer_capacity_def size_max_eq)
  obtain cfg n m where c: "pslog_new True True (Some demo_config) demo_state =
      (Some (cfg, \<lparr>i_fields = [], i_field_prefix = [], i_min_level = cf_min_level (effective_config (Some demo_config)),
         i_include_level_field = cf_with_level_field (effective_config (Some demo_config)),
         i_can_close_shared = o_owned (cf_output (effective_config (Some demo_config)))\<rparr>),
       set_allocs n m (demo_state\<lparr>e_shared := fresh_shared (Some demo_config)\<rparr>))" 
    "cfg_from (Some demo_config) default_line_buffer_capacity (config_color (effective_config (Some demo_config)) (e_world demo_state)) cfg"
    by (rule new_logger_spec [OF w p cap])
  show ?thesis
    by (rule that [OF c(1)]) (use c(2) in \<open>simp_all add: cfg_from_def effective_config_def demo_config_def pslog_default_config_def
        config_color_def Let_def\<close>)
qed

lemma demo_call_ok: "std_level level \<Longrightarrow> call_ok demo_libc level (0, 0)"
  by (simp add: call_ok_def clock_ok_def demo_zone)

lemma demo_session:
  obtains cfg impl s1 where "pslog_new True True (Some demo_config) demo_state = (Some (cfg, impl), s1)"
    "fd_serving 1 3 demo_libc cfg s1" "cfg_ok cfg" "same_logger demo_libc cfg impl impl"
    "fields_fit demo_libc cfg (i_fields impl @ [demo_flag])" "\<not> i_include_level_field impl"
proof -
  obtain cfg impl s1 where c: "pslog_new True True (Some demo_config) demo_state = (Some (cfg, impl), s1)"
    "c_mode cfg = MODE_JSON" "c_color_enabled cfg = False" "i_fields impl = []" "i_min_level impl = LEVEL_DEBUG" "\<not> i_include_level_field impl"
    by (rule demo_new)
  have w: "all_alloc (e_world demo_state)" "0 \<le> (3::int) \<and> all_progress (e_world demo_state)"
    by (simp_all add: demo_state_def demo_eqs all_alloc_def all_progress_def)
  have p: "palette_sized (new_palette (Some demo_config))" "o_sink (cf_output (effective_config (Some demo_config))) = S_fd 1 (Some 3)"
    "cf_with_level_field (effective_config (Some demo_config)) \<longrightarrow> std_level (cf_min_level (effective_config (Some demo_config)))"
    by (simp_all add: new_palette_def effective_config_def demo_config_def pslog_default_config_def default_sized)
  note n = emit_fd.new_session(1) [OF c(1) w(1) p(1,2) w(2) p(3)] emit_fd.new_session(2) [OF c(1) w(1) p(1,2) w(2) p(3), of demo_libc]
  have fit: "fields_fit demo_libc cfg (i_fields impl @ [demo_flag])"
    using c(2-4) by (simp add: fields_fit_def fields_text_def used_palette_def demo_flag_text comma_def quote_def)
      (simp add: demo_flag_def pslog_bool_def size_max_eq)
  show ?thesis
    using n by (intro that [OF c(1) _ _ _ fit c(6)]) (simp_all add: refines_def loggers_refine_def)
qed

lemma json_members_append: "json_members X cfg p (fs @ gs) False = json_members X cfg p fs False @ json_members X cfg p gs False"
  by (induction fs) simp_all

lemma console_fields_append: "console_fields_text X cfg (fs @ gs) = console_fields_text X cfg fs @ console_fields_text X cfg gs"
  by (simp add: console_fields_text_def)

lemma derived_text:
  assumes "same_logger X cfg (impl\<lparr>i_fields := i_fields impl @ flds\<rparr>) child"
  shows "log_text X cfg child level msg extra clock = log_text X cfg impl level msg (flds @ extra) clock"
    "pslog_should_log b child level = pslog_should_log b impl level"
  unfolding same_text [OF assms]
  by (simp_all add: log_text_def json_line_text_def json_object_text_def console_object_text_def console_head_text_def
      json_members_append console_fields_append level_field_def level_field_text_def pslog_should_log_def)

lemma new_ready:
  assumes "all_alloc (e_world s)" "palette_sized (new_palette config)"
    and "pslog_normalize_line_buffer_capacity (cf_line_buffer_capacity (effective_config config)) = Some capacity"
    and "o_sink (cf_output (effective_config config)) = S_fd a (Some fd)" "0 \<le> fd" "all_progress (e_world s)"
    and "cf_with_level_field (effective_config config) \<longrightarrow> std_level (cf_min_level (effective_config config))"
  obtains cfg impl s1 where "pslog_new True True config s = (Some (cfg, impl), s1)"
    "fd_serving a fd X cfg s1" "cfg_ok cfg" "logger_ok X cfg impl"
    "cfg_from config capacity (config_color (effective_config config) (e_world s)) cfg"
    "i_fields impl = []" "i_min_level impl = cf_min_level (effective_config config)"
    "accepted (T_fd fd) (e_world s1) = accepted (T_fd fd) (e_world s)" "s_refcount (e_shared s1) = 1"
proof -
  obtain cfg n m where c: "pslog_new True True config s =
      (Some (cfg, \<lparr>i_fields = [], i_field_prefix = [], i_min_level = cf_min_level (effective_config config),
         i_include_level_field = cf_with_level_field (effective_config config),
         i_can_close_shared = o_owned (cf_output (effective_config config))\<rparr>),
       set_allocs n m (s\<lparr>e_shared := fresh_shared config\<rparr>))" "w_allocs (e_world s) \<le> n"
    "cfg_ok cfg" "cfg_from config capacity (config_color (effective_config config) (e_world s)) cfg"
    by (rule new_logger_spec [OF assms(1-3)])
  have ok: "0 \<le> fd \<and> all_progress (e_world s)" using assms(5,6) by simp
  note n = emit_fd.new_session(2) [OF c(1) assms(1,2,4) ok assms(7), of X]
  have "same_logger X cfg \<lparr>i_fields = [], i_field_prefix = [], i_min_level = cf_min_level (effective_config config),
         i_include_level_field = cf_with_level_field (effective_config config),
         i_can_close_shared = o_owned (cf_output (effective_config config))\<rparr>
       \<lparr>i_fields = [], i_field_prefix = [], i_min_level = cf_min_level (effective_config config),
         i_include_level_field = cf_with_level_field (effective_config config),
         i_can_close_shared = o_owned (cf_output (effective_config config))\<rparr>"
    using n by (simp add: refines_def loggers_refine_def)
  note l = same_logger_ok [OF this]
  have r: "s_refcount (e_shared (set_allocs n m (s\<lparr>e_shared := fresh_shared config\<rparr>))) = 1"
    by (simp add: set_allocs_def fresh_shared_def)
  show ?thesis by (rule that [OF c(1)]) (use c n l r in \<open>simp_all add: refines_def\<close>)
qed

section \<open>Properties\<close>

text \<open>
  Claim C1. The library refines the abstract session: whatever sequence of log calls, format calls and
  derivations a program makes on the loggers of a fresh \<open>pslog_new\<close>, the descriptor receives exactly
  the lines of the abstract session, in order, each line whole, although the library copies fields,
  prepares prefixes, caches layouts, doubles and timestamps and writes in chunks that the descriptor
  may accept only in part; and every logger still shows the fields and the level it was given.
\<close>

theorem session_refines_spec:
  assumes "pslog_new True True config s = (Some (cfg, impl), s1)"
    and "all_alloc (e_world s)" "palette_sized (new_palette config)"
    and "o_sink (cf_output (effective_config config)) = S_fd a (Some fd)" "0 \<le> fd" "all_progress (e_world s)"
    and "cf_with_level_field (effective_config config) \<longrightarrow> std_level (cf_min_level (effective_config config))"
    and "ops_ok X cfg ops ([impl], accepted (T_fd fd) (e_world s))"
  shows "accepted (T_fd fd) (e_world (snd (fold (run_op X cfg) ops ([impl], s1)))) =
      snd (fold (spec_op X cfg) ops ([impl], accepted (T_fd fd) (e_world s))) \<and>
    loggers_refine X cfg (fst (fold (spec_op X cfg) ops ([impl], accepted (T_fd fd) (e_world s)))) (fst (fold (run_op X cfg) ops ([impl], s1)))"
proof -
  have ok: "0 \<le> fd \<and> all_progress (e_world s)" using assms(5,6) by simp
  note n = emit_fd.new_session [OF assms(1-4) ok assms(7)]
  from emit_fd.session_refines [OF n(1) assms(8) n(2)] show ?thesis by (simp add: refines_def)
qed

lemma session_refines_spec_witness:
  "\<exists>cfg impl s1. pslog_new True True (Some demo_config) demo_state = (Some (cfg, impl), s1) \<and>
     accepted (T_fd 3) (e_world (snd (fold (run_op demo_libc cfg)
       [Op_with 0 [demo_flag], Op_log 1 LEVEL_INFO (Some ''hi'') [] (0, 0), Op_with_level 1 LEVEL_ERROR, Op_log 2 LEVEL_INFO None [] (0, 0)]
       ([impl], s1)))) =
     ''{'' @ quote ''lvl'' @ '':'' @ quote ''info'' @ '','' @ quote ''msg'' @ '':'' @ quote ''hi'' @ '','' @ quote ''ok'' @ '':true}'' @ [CHR 0x0A]"
proof -
  obtain cfg impl s1 where c: "pslog_new True True (Some demo_config) demo_state = (Some (cfg, impl), s1)"
    "c_mode cfg = MODE_JSON" "c_color_enabled cfg = False" "i_fields impl = []" "i_min_level impl = LEVEL_DEBUG" "\<not> i_include_level_field impl"
    "c_timestamps cfg = False" "c_verbose_fields cfg = False"
    by (rule demo_new)
  let ?ops = "[Op_with 0 [demo_flag], Op_log 1 LEVEL_INFO (Some ''hi'') [] (0, 0), Op_with_level 1 LEVEL_ERROR, Op_log 2 LEVEL_INFO None [] (0, 0)]"
  have w: "all_alloc (e_world demo_state)" "all_progress (e_world demo_state)" "accepted (T_fd 3) (e_world demo_state) = []"
    by (simp_all add: demo_state_def demo_eqs all_alloc_def all_progress_def accepted_def)
  have p: "palette_sized (new_palette (Some demo_config))" "o_sink (cf_output (effective_config (Some demo_config))) = S_fd 1 (Some 3)"
    "\<not> cf_with_level_field (effective_config (Some demo_config))"
    by (simp_all add: new_palette_def effective_config_def demo_config_def pslog_default_config_def default_sized)
  have flag: "field_ok demo_flag" by (simp add: demo_flag_def make_field_ok pslog_bool_def)
  have ft: "fields_text demo_libc cfg [demo_flag] = '','' @ quote ''ok'' @ '':true''" 
    using c(2,3) by (simp add: fields_text_def used_palette_def demo_flag_text comma_def)
  have call: "call_ok demo_libc level (0, 0)" if "level \<in> {LEVEL_INFO, LEVEL_ERROR}" for level
    using that demo_zone by (auto simp: call_ok_def clock_ok_def std_level_def slot_level_def std_levels_def)
  have lens: "f_key_len demo_flag < size_max" "f_value_len demo_flag < size_max" by (simp_all add: demo_flag_def pslog_bool_def size_max_eq)
  have ops: "ops_ok demo_libc cfg ?ops ([impl], accepted (T_fd 3) (e_world demo_state))"
    using c flag ft call lens by (simp add: fields_fit_def quote_def)
  have hi: "maybe_trusted_bytes ''hi'' = quote ''hi''"
    using plain_ascii_safe [of "''hi''"] by (simp add: maybe_trusted_bytes_def unsafe_byte_def quote_def)
  have head: "json_head_text demo_libc cfg no_palette (slot_level LEVEL_INFO) (Some ''hi'') (0, 0) =
      quote ''lvl'' @ '':'' @ quote ''info'' @ '','' @ quote ''msg'' @ '':'' @ quote ''hi''"
    using c by (simp add: json_head_text_def level_member_def message_text_def message_head_def level_key_def message_key_def hi
        slot_level_def std_levels_def no_palette_def)
  have "snd (fold (spec_op demo_libc cfg) ?ops ([impl], accepted (T_fd 3) (e_world demo_state))) =
     ''{'' @ quote ''lvl'' @ '':'' @ quote ''info'' @ '','' @ quote ''msg'' @ '':'' @ quote ''hi'' @ '','' @ quote ''ok'' @ '':true}'' @ [CHR 0x0A]"
    using c by (simp add: w(3) pslog_should_log_def log_text_def json_line_text_def json_object_text_def used_palette_def
        demo_flag_text comma_def head level_field_text_def)
  with session_refines_spec [OF c(1) w(1) p(1,2) _ w(2) _ ops] p(3) c(1) show ?thesis by auto
qed

text \<open>
  Claim C4. A derived logger is its parent with the fields added: on an open logger \<open>pslog_logger_with\<close>
  succeeds, writes nothing and takes one reference, and every log call on the new logger writes the
  bytes that the same call on the parent writes with the fields in front of its own, at every level
  and in both modes, although the child prints a prefix that was rendered in advance from copies.
\<close>

theorem derived_logger_adds_fields:
  assumes "fd_serving a fd X cfg s" "cfg_ok cfg" "logger_ok X cfg impl" "fields_fit X cfg (i_fields impl)"
    and "list_all field_ok flds" "fields_fit X cfg (i_fields impl @ flds)"
  shows "\<exists>child s'. pslog_logger_with X cfg impl flds s = (Some child, s') \<and> fd_serving a fd X cfg s' \<and>
    accepted (T_fd fd) (e_world s') = accepted (T_fd fd) (e_world s) \<and>
    s_refcount (e_shared s') = s_refcount (e_shared s) + 1 \<and>
    (\<forall>level msg extra clock. call_ok X level clock \<and> list_all field_ok extra \<longrightarrow>
      accepted (T_fd fd) (e_world (pslog_log_impl X cfg child level msg extra clock s')) =
      accepted (T_fd fd) (e_world (pslog_log_impl X cfg impl level msg (flds @ extra) clock s)))"
proof -
  have own: "list_all field_ok (i_fields impl)" using assms(3) by (simp add: logger_ok_def)
  have a: "same_logger X cfg impl impl" using assms(3,4) own by (simp add: same_logger_def alike_fields_refl)
  obtain child s' where c: "pslog_clone_with_fields X cfg impl flds s = (Some child, s')" "fd_serving a fd X cfg s'"
    "accepted (T_fd fd) (e_world s') = accepted (T_fd fd) (e_world s)" "s_refcount (e_shared s') = s_refcount (e_shared s) + 1"
    "same_logger X cfg (impl\<lparr>i_fields := i_fields impl @ flds\<rparr>) child"
    by (rule emit_fd.clone_serves [OF assms(1) a assms(5,6)])
  have "accepted (T_fd fd) (e_world (pslog_log_impl X cfg child level msg extra clock s')) =
      accepted (T_fd fd) (e_world (pslog_log_impl X cfg impl level msg (flds @ extra) clock s))"
    if "call_ok X level clock" "list_all field_ok extra" for level msg extra clock
    using emit_fd.log_impl_text [OF c(2) assms(2) same_logger_ok [OF c(5)] that, of msg]
      emit_fd.log_impl_text [OF assms(1-3) that(1), of "flds @ extra" msg] that(2) assms(5) c(3)
    by (simp add: derived_text [OF c(5)])
  with c show ?thesis by (auto simp: pslog_logger_with_def)
qed

lemma derived_logger_adds_fields_witness:
  "\<exists>cfg impl child s1 s'. pslog_new True True (Some demo_config) demo_state = (Some (cfg, impl), s1) \<and>
     pslog_logger_with demo_libc cfg impl [demo_flag] s1 = (Some child, s') \<and>
     accepted (T_fd 3) (e_world (pslog_log_impl demo_libc cfg child LEVEL_WARN None [] (0, 0) s')) =
     accepted (T_fd 3) (e_world (pslog_log_impl demo_libc cfg impl LEVEL_WARN None [demo_flag] (0, 0) s1))"
proof -
  obtain cfg impl s1 where c: "pslog_new True True (Some demo_config) demo_state = (Some (cfg, impl), s1)"
    "fd_serving 1 3 demo_libc cfg s1" "cfg_ok cfg" "same_logger demo_libc cfg impl impl"
    "fields_fit demo_libc cfg (i_fields impl @ [demo_flag])"
    by (rule demo_session)
  have l: "logger_ok demo_libc cfg impl" "fields_fit demo_libc cfg (i_fields impl)" using c(4) by (simp_all add: same_logger_def)
  have f: "list_all field_ok [demo_flag]" by (simp add: demo_flag_def make_field_ok pslog_bool_def)
  from derived_logger_adds_fields [OF c(2,3) l f c(5)] demo_call_ok [of LEVEL_WARN] c(1) show ?thesis
    by (fastforce simp: std_level_def slot_level_def std_levels_def)
qed

text \<open>
  Claim C15. A fatal or panic entry is never lost: on an open logger, whatever its level filter (even
  \<open>disabled\<close>), the whole line reaches the descriptor and only then does the process end, with
  \<open>exit(EXIT_FAILURE)\<close> or \<open>abort()\<close>.
\<close>

theorem fatal_delivers_then_ends:
  assumes "fd_serving a fd X cfg s" "cfg_ok cfg" "logger_ok X cfg impl" "zone_ok X" "clock_ok clock" "list_all field_ok flds"
  shows "(\<exists>s'. pslog_logger_fatal X cfg impl msg flds clock s = Ended Exit_failure s' \<and>
      accepted (T_fd fd) (e_world s') = accepted (T_fd fd) (e_world s) @ log_text X cfg impl LEVEL_FATAL msg flds clock) \<and>
    (\<exists>s'. pslog_logger_panic X cfg impl msg flds clock s = Ended Abort s' \<and>
      accepted (T_fd fd) (e_world s') = accepted (T_fd fd) (e_world s) @ log_text X cfg impl LEVEL_PANIC msg flds clock)"
proof -
  have c: "call_ok X LEVEL_FATAL clock" "call_ok X LEVEL_PANIC clock"
    using assms(4,5) by (simp_all add: call_ok_def std_level_def slot_level_def std_levels_def)
  show ?thesis
    using emit_fd.log_impl_text [OF assms(1-3) c(1) assms(6), of msg] emit_fd.log_impl_text [OF assms(1-3) c(2) assms(6), of msg]
    by (simp add: pslog_logger_fatal_def pslog_logger_panic_def pslog_should_log_def)
qed

lemma fatal_delivers_then_ends_witness:
  "\<exists>cfg impl s1 s'. pslog_new True True (Some demo_config) demo_state = (Some (cfg, impl), s1) \<and>
     pslog_logger_fatal demo_libc cfg (impl\<lparr>i_min_level := LEVEL_DISABLED\<rparr>) None [] (0, 0) s1 = Ended Exit_failure s' \<and>
     accepted (T_fd 3) (e_world s') = accepted (T_fd 3) (e_world s1) @
       log_text demo_libc cfg (impl\<lparr>i_min_level := LEVEL_DISABLED\<rparr>) LEVEL_FATAL None [] (0, 0)"
proof -
  obtain cfg impl s1 where c: "pslog_new True True (Some demo_config) demo_state = (Some (cfg, impl), s1)"
    "fd_serving 1 3 demo_libc cfg s1" "cfg_ok cfg" "same_logger demo_libc cfg impl impl"
    "fields_fit demo_libc cfg (i_fields impl @ [demo_flag])" "\<not> i_include_level_field impl"
    by (rule demo_session)
  have l: "logger_ok demo_libc cfg (impl\<lparr>i_min_level := LEVEL_DISABLED\<rparr>)" using c(4,6) by (simp add: same_logger_def logger_ok_def)
  have k: "clock_ok (0, 0)" by (simp add: clock_ok_def)
  from fatal_delivers_then_ends [OF c(2,3) l demo_zone k, of "[]" None] c(1) show ?thesis by auto
qed

text \<open>
  Claim C17. A new logger is ready to serve: with memory available and a valid buffer capacity \<open>pslog_new\<close>
  succeeds; the configuration is the caller's with defaults filled in and colours decided, every
  prepared literal is the text the emitters expect, nothing has been written, one reference is held
  and the first call can follow.
\<close>

theorem new_logger_ready:
  assumes "all_alloc (e_world s)" "palette_sized (new_palette config)"
    and "pslog_normalize_line_buffer_capacity (cf_line_buffer_capacity (effective_config config)) = Some capacity"
    and "o_sink (cf_output (effective_config config)) = S_fd a (Some fd)" "0 \<le> fd" "all_progress (e_world s)"
    and "cf_with_level_field (effective_config config) \<longrightarrow> std_level (cf_min_level (effective_config config))"
  shows "\<exists>cfg impl s1. pslog_new True True config s = (Some (cfg, impl), s1) \<and>
    fd_serving a fd X cfg s1 \<and> cfg_ok cfg \<and> logger_ok X cfg impl \<and>
    cfg_from config capacity (config_color (effective_config config) (e_world s)) cfg \<and>
    i_fields impl = [] \<and> i_min_level impl = cf_min_level (effective_config config) \<and>
    accepted (T_fd fd) (e_world s1) = accepted (T_fd fd) (e_world s) \<and> s_refcount (e_shared s1) = 1"
  by (rule new_ready [OF assms, of X]) blast

lemma new_logger_ready_witness:
  "\<exists>cfg impl s1. pslog_new True True (Some demo_config) demo_state = (Some (cfg, impl), s1) \<and>
     fd_serving 1 3 demo_libc cfg s1 \<and> i_min_level impl = LEVEL_DEBUG \<and> s_refcount (e_shared s1) = 1"
proof -
  have w: "all_alloc (e_world demo_state)" "all_progress (e_world demo_state)"
    by (simp_all add: demo_state_def demo_eqs all_alloc_def all_progress_def)
  have p: "palette_sized (new_palette (Some demo_config))" "o_sink (cf_output (effective_config (Some demo_config))) = S_fd 1 (Some 3)"
    "cf_with_level_field (effective_config (Some demo_config)) \<longrightarrow> std_level (cf_min_level (effective_config (Some demo_config)))"
    "cf_min_level (effective_config (Some demo_config)) = LEVEL_DEBUG"
    by (simp_all add: new_palette_def effective_config_def demo_config_def pslog_default_config_def default_sized)
  have cap: "pslog_normalize_line_buffer_capacity (cf_line_buffer_capacity (effective_config (Some demo_config))) = Some default_line_buffer_capacity"
    by (simp add: effective_config_def demo_config_def pslog_default_config_def pslog_normalize_line_buffer_capacity_def
        default_line_buffer_capacity_def size_max_eq)
  have fd: "0 \<le> (3::int)" by simp
  from new_logger_ready [OF w(1) p(1) cap p(2) fd w(2) p(3), of demo_libc] p(4) show ?thesis by auto
qed



end
