(* ===== verification/Lifecycle.thy ===== *)
theory Lifecycle
  imports Session
begin

text \<open>
  The life of a logger's shared state under any environment: allocations may fail and sinks may answer
  anything. Emission is framed once: no routine that appends or writes text touches what the life of
  the state depends on. Loggers are then derived, used, closed and destroyed in any order.
\<close>

section \<open>What emission leaves alone\<close>

text \<open>
  A view of the shared state and the world that locks, caches, the allocator's counters and writes to
  sinks do not change.
\<close>

locale emission_frame =
  fixes life :: "pslog_shared \<Rightarrow> world \<Rightarrow> 'a"
  assumes life_locks [simp]: "life (s_state_mutex_update f sh) w = life sh w" "life (s_output_mutex_update f sh) w = life sh w"
    and life_stamps [simp]: "life (s_cached_timestamp_second_update g sh) w = life sh w" "life (s_cached_timestamp_update h sh) w = life sh w"
      "life (s_timestamp_cache_hits_update k sh) w = life sh w" "life (s_timestamp_cache_misses_update k sh) w = life sh w"
    and life_caches [simp]: "life (s_kvfmt_cache_update c sh) w = life sh w" "life (s_kvfmt_ptr_cache_update p sh) w = life sh w"
      "life (s_console_prefix_cache_update q sh) w = life sh w" "life (s_double_cache_update d sh) w = life sh w"
    and life_alloc [simp]: "life sh (w_allocs_update k w) = life sh w" "life sh (w_frees_update k w) = life sh w"
    and life_write [simp]: "life sh (snd (snd (sink_write snk data w))) = life sh w"
begin

abbreviation of_state :: "est \<Rightarrow> 'a" where
  "of_state s \<equiv> life (e_shared s) (e_world s)"

lemma life_mutexes [simp]:
  "life (pslog_output_lock sh) w = life sh w" "life (pslog_output_unlock sh) w = life sh w"
  "life (pslog_state_lock sh) w = life sh w" "life (pslog_state_unlock sh) w = life sh w"
  by (simp_all add: pslog_output_lock_def pslog_output_unlock_def pslog_state_lock_def pslog_state_unlock_def)

lemma life_allocator [simp]:
  "life sh (snd (pslog_malloc_internal n w)) = life sh w" "life sh (snd (pslog_realloc_internal n w)) = life sh w"
  "life sh (snd (pslog_calloc_internal n m w)) = life sh w" "life sh (pslog_free_internal b w) = life sh w"
  by (simp_all add: pslog_malloc_internal_def pslog_realloc_internal_def pslog_calloc_internal_def pslog_free_internal_def
      split: option.split)

lemma life_loop [simp]: "life sh (snd (write_loop (sink_write snk) cap data off w)) = life sh w"
  by (rule world_frame.write_loop_frame [where R = "\<lambda>v w. life sh w = life sh v"]) (unfold_locales, simp_all)

lemma life_output [simp]: "life sh (snd (pslog_write_output_locked sh' data cap w)) = life sh w"
  by (simp add: pslog_write_output_locked_def)

lemma life_buffer [simp]:
  "life sh (snd (pslog_buffer_init b cap w)) = life sh w" "life sh (snd (snd (pslog_buffer_reserve n buf w))) = life sh w"
  "life sh (snd (pslog_buffer_destroy buf w)) = life sh w" "life sh (snd (pslog_buffer_destroy_fast buf w)) = life sh w"
  by (simp_all add: pslog_buffer_init_def pslog_buffer_reserve_def pslog_buffer_destroy_def pslog_buffer_destroy_fast_def
      Let_def case_prod_beta split: option.split)

lemma life_write_buffer [simp]: "of_state (pslog_write_buffer b s) = of_state s" "of_state (pslog_buffer_flush s) = of_state s"
  "of_state (pslog_buffer_lock_output s) = of_state s" "of_state (pslog_buffer_unlock_output s) = of_state s"
  by (simp_all add: pslog_write_buffer_def pslog_buffer_flush_def pslog_buffer_lock_output_def pslog_buffer_unlock_output_def
      Let_def case_prod_beta)

lemma life_append_loop [simp]: "of_state (append_n_loop t s) = of_state s"
proof (induction t s rule: append_n_loop.induct)
  case (1 t s)
  define s1 where "s1 = (if blen s = bcap s then pslog_buffer_flush s else s)"
  have s1: "of_state s1 = of_state s" by (simp add: s1_def)
  show ?case unfolding append_n_loop.simps [of t s] using 1 [OF _ refl s1_def] s1
    by (simp add: Let_def s1_def [symmetric])
qed

lemma life_append_char [simp]: "of_state (pslog_buffer_append_char c s) = of_state s" "of_state (append_char_fast c s) = of_state s"
  by (cases "blen s = bcap s"; simp add: pslog_buffer_append_char_def append_char_fast_def Let_def)+

lemma life_append [simp]:
  "of_state (pslog_buffer_append_n t s) = of_state s"
  "of_state (pslog_buffer_append_cstr ot s) = of_state s"
  "of_state (append_n_fast t s) = of_state s" "of_state (apply_color_fast t b s) = of_state s" "of_state (append_literal t s) = of_state s"
  "of_state (append_json_trusted_string_n_fast t s) = of_state s"
  by (simp_all add: pslog_buffer_append_n_def pslog_buffer_append_cstr_def
      append_n_fast_def apply_color_fast_def append_literal_def append_json_trusted_string_n_fast_def split: option.split)

lemma life_json_escapes [simp]:
  "of_state (append_pending t a b s) = of_state s" "of_state (append_u00 c s) = of_state s" "of_state (append_json_escape k c s) = of_state s"
  by (simp_all add: append_pending_def append_u00_def append_json_escape_def Let_def)

lemma life_json_loop [simp]: "of_state (json_string_loop t i j s) = of_state s"
proof (induction t i j s rule: json_string_loop.induct)
  case (1 t i j s)
  then show ?case unfolding json_string_loop.simps [of t i j s] by (simp add: Let_def)
qed

lemma life_json_string [simp]:
  "of_state (pslog_buffer_append_json_string_n ot s) = of_state s" "of_state (pslog_buffer_append_json_string ot s) = of_state s"
  "of_state (pslog_buffer_append_json_trusted_string_n ot s) = of_state s" "of_state (pslog_buffer_append_json_trusted_string ot s) = of_state s"
  "of_state (pslog_buffer_append_json_string_maybe_trusted ot s) = of_state s"
  by (simp_all add: pslog_buffer_append_json_string_n_def pslog_buffer_append_json_string_def pslog_buffer_append_json_trusted_string_n_def
      pslog_buffer_append_json_trusted_string_def pslog_buffer_append_json_string_maybe_trusted_def Let_def split: option.split)

lemma life_append_x [simp]: "of_state (append_x c s) = of_state s"
  by (simp add: append_x_def Let_def)

lemma life_console_loop [simp]: "of_state (console_string_loop t i j s) = of_state s"
proof (induction t i j s rule: console_string_loop.induct)
  case (1 t i j s)
  define s1 where "s1 = append_pending t i j s"
  define c where "c = t ! j"
  define s2 where "s2 = (if uc c = 34 then append_literal [bslash, dquote] s1
                      else if uc c = 92 then append_literal [bslash, bslash] s1
                      else if uc c = 10 then append_literal [bslash, CHR ''n''] s1
                      else if uc c = 13 then append_literal [bslash, CHR ''r''] s1
                      else if uc c = 9 then append_literal [bslash, CHR ''t''] s1
                      else append_x c s1)"
  have s2: "of_state s1 = of_state s" "of_state s2 = of_state s" by (simp_all add: s2_def s1_def)
  show ?case
    unfolding console_string_loop.simps [of t i j s] using 1(1) [OF _ c_def refl _ s1_def s2_def] 1(2) [OF _ c_def refl] s2
    by (simp add: Let_def s1_def [symmetric] s2_def [symmetric] c_def [symmetric])
qed

lemma life_escaped_loop [simp]: "of_state (console_escaped_loop q t i j s) = of_state s"
proof (induction q t i j s rule: console_escaped_loop.induct)
  case (1 q t i j s)
  then show ?case unfolding console_escaped_loop.simps [of q t i j s] Let_def by (simp split del: if_split cong: if_cong) (simp)
qed

lemma life_hex [simp]: "of_state (pslog_buffer_append_bytes_hex t s) = of_state s"
  by (induction t arbitrary: s) (simp_all add: pslog_buffer_append_bytes_hex_def)

lemma life_scalars [simp]:
  "of_state (pslog_buffer_append_console_string ot s) = of_state s" "of_state (pslog_buffer_append_console_escaped ot q s) = of_state s"
  "of_state (pslog_buffer_append_console_message ot s) = of_state s"
  "of_state (pslog_buffer_append_signed v s) = of_state s" "of_state (pslog_buffer_append_unsigned v s) = of_state s"
  "of_state (pslog_append_level_label cfg level s) = of_state s" "of_state (pslog_buffer_append_pointer X v s) = of_state s"
  "of_state (pslog_buffer_finish_line s) = of_state s"
  by (simp_all add: pslog_buffer_append_console_string_def pslog_buffer_append_console_escaped_def pslog_buffer_append_console_message_def
      pslog_buffer_append_signed_def pslog_buffer_append_unsigned_def pslog_append_level_label_def pslog_buffer_append_pointer_def
      pslog_buffer_finish_line_def Let_def split: option.split)

lemma life_local [simp]: "(\<And>u. of_state (f u) = of_state u) \<Longrightarrow> of_state (snd (with_local_buffer cap f s)) = of_state s"
  by (simp add: with_local_buffer_def Let_def case_prod_beta)

lemma life_double_miss [simp]: "of_state (append_double_miss X v slot s) = of_state s"
  by (simp add: append_double_miss_def Let_def)

lemma life_double [simp]: "of_state (pslog_buffer_append_double X v s) = of_state s"
  by (simp add: pslog_buffer_append_double_def Let_def split: option.split prod.split)

lemma life_times [simp]: "of_state (pslog_buffer_append_time X tv q s) = of_state s" "of_state (pslog_buffer_append_duration X dv q s) = of_state s"
  by (simp_all add: pslog_buffer_append_time_def pslog_buffer_append_duration_def Let_def case_prod_beta split: option.split)

end

context emission_frame
begin

lemma life_render [simp]: "of_state (snd (pslog_render_timestamp_value X cfg now ns n s)) = of_state s"
  by (simp add: pslog_render_timestamp_value_def Let_def case_prod_beta split: option.split)

lemma life_cached_stamp [simp]: "of_state (append_cached_timestamp s) = of_state s"
  by (simp add: append_cached_timestamp_def Let_def)

lemma life_timestamp [simp]: "of_state (pslog_append_timestamp X cfg clock s) = of_state s"
  by (simp add: pslog_append_timestamp_def Let_def case_prod_beta)

lemma life_json_values [simp]:
  "of_state (json_string_value f sv s) = of_state s" "of_state (pslog_append_json_value_plain X cfg f s) = of_state s"
  "of_state (pslog_append_json_value_color X cfg f s) = of_state s"
  "of_state (json_comma b s) = of_state s" "of_state (append_prefix_n q s) = of_state s" "of_state (json_key f s) = of_state s"
  by (simp_all add: json_string_value_def pslog_append_json_value_plain_def pslog_append_json_value_color_def json_comma_def
      append_prefix_n_def json_key_def Let_def case_prod_beta split: pslog_value.split option.split)

lemma life_json_fields [simp]:
  "of_state (pslog_append_json_field_plain X cfg f b s) = of_state s" "of_state (pslog_append_json_field_color X cfg f b s) = of_state s"
  by (simp_all add: pslog_append_json_field_plain_def pslog_append_json_field_color_def Let_def)

lemma life_json_sets [simp]:
  "of_state (snd (pslog_append_json_field_set_plain X cfg fs b s)) = of_state s"
  "of_state (snd (pslog_append_json_field_set_color X cfg fs b s)) = of_state s"
  "of_state (pslog_append_json_field_prefix X cfg fs s) = of_state s"
  by (induction fs arbitrary: b s) (simp_all add: Let_def)

lemma life_json_parts [simp]:
  "of_state (pslog_append_json_color_literal a c d s) = of_state s"
  "of_state (pslog_append_json_message_field_plain cfg m b s) = of_state s" "of_state (pslog_append_json_message_field_color cfg m b s) = of_state s"
  "of_state (json_timestamp_plain X cfg clock b s) = of_state s" "of_state (pslog_append_json_timestamp_field_color X cfg clock b s) = of_state s"
  "of_state (pslog_append_json_level_field_color_cached_or_dynamic cfg level b s) = of_state s"
  "of_state (snd (own_fields_plain X cfg impl b s)) = of_state s" "of_state (snd (own_fields_color X cfg impl b s)) = of_state s"
  by (simp_all add: pslog_append_json_color_literal_def pslog_append_json_message_field_plain_def pslog_append_json_message_field_color_def
      json_timestamp_plain_def pslog_append_json_timestamp_field_color_def pslog_append_json_level_field_color_cached_or_dynamic_def
      own_fields_plain_def own_fields_color_def Let_def case_prod_beta)

lemma life_json_heads [simp]:
  "of_state (snd (json_head_plain X cfg impl level msg clock s)) = of_state s"
  "of_state (snd (json_head_color X cfg impl level msg clock s)) = of_state s"
  "of_state (json_tail_plain X cfg impl q) = of_state (snd q)" "of_state (json_tail_color cfg impl q) = of_state (snd q)"
  by (simp_all add: json_head_plain_def json_head_color_def json_tail_plain_def json_tail_color_def Let_def case_prod_beta split: option.split)

lemma life_line [simp]: "of_state (open_line cfg s) = of_state s" "of_state (close_line b s) = of_state s"
  by (simp_all add: open_line_def close_line_def Let_def case_prod_beta)

lemma life_json_line [simp]: "(\<And>u. of_state (f u) = of_state u) \<Longrightarrow> of_state (json_line cfg f s) = of_state s"
  by (simp add: json_line_def Let_def)

lemma life_emit_json [simp]: "of_state (pslog_emit_json X cfg impl level msg flds clock s) = of_state s"
  by (simp add: pslog_emit_json_def pslog_emit_json_plain_def pslog_emit_json_color_def case_prod_beta)

lemma life_json_kvfmt_values [simp]:
  "of_state (json_kvfmt_double_plain X cfg v s) = of_state s" "of_state (json_kvfmt_value_plain X cfg ty e ap s) = of_state s"
  "of_state (json_kvfmt_double_color X cfg v s) = of_state s" "of_state (json_kvfmt_value_color X cfg ty e ap s) = of_state s"
  "of_state (pslog_append_json_kvfmt_color_prefix cfg spec s) = of_state s"
  by (simp_all add: json_kvfmt_double_plain_def json_kvfmt_value_plain_def json_kvfmt_double_color_def json_kvfmt_value_color_def
      pslog_append_json_kvfmt_color_prefix_def Let_def split: kvfmt_arg_type.split)

lemma life_json_kvfmt_sets [simp]:
  "of_state (snd (pslog_append_json_kvfmt_fields_plain X cfg specs b e ap s)) = of_state s"
  "of_state (snd (pslog_append_json_kvfmt_fields_color X cfg specs b e ap s)) = of_state s"
  by (induction specs arbitrary: b ap s) (simp_all add: Let_def)

lemma life_emit_json_kvfmt [simp]: "of_state (pslog_emit_json_kvfmt X cfg impl level msg entry e ap clock s) = of_state s"
  by (simp add: pslog_emit_json_kvfmt_def case_prod_beta)

lemma life_console_values [simp]:
  "of_state (console_string_value f sv s) = of_state s" "of_state (console_errno_value X e s) = of_state s"
  "of_state (console_value_raw X f s) = of_state s" "of_state (console_value_only X cfg f s) = of_state s"
  "of_state (console_field_fallback X cfg f s) = of_state s"
  by (simp_all add: console_string_value_def console_errno_value_def console_value_raw_def console_value_only_def
      console_field_fallback_def Let_def split: pslog_value.split option.split)

lemma life_console_prefix [simp]: "life (snd (pslog_resolve_console_prefix cfg f sh)) w = life sh w"
  by (simp add: pslog_resolve_console_prefix_def Let_def split: option.split prod.split console_probe_result.split)

lemma life_console_fields [simp]:
  "of_state (pslog_append_console_field_cached X cfg f s) = of_state s"
  by (simp add: pslog_append_console_field_cached_def Let_def case_prod_beta split: option.split)

lemma life_console_sets [simp]:
  "of_state (pslog_append_console_field_prefix X cfg fs s) = of_state s" "of_state (pslog_append_console_field_set X cfg fs s) = of_state s"
proof -
  show "of_state (pslog_append_console_field_prefix X cfg fs s) = of_state s" by (induction fs arbitrary: s) simp_all
  then show "of_state (pslog_append_console_field_set X cfg fs s) = of_state s" by (simp add: pslog_append_console_field_set_def)
qed

lemma life_console_parts [simp]:
  "of_state (pslog_append_console_message_prefix cfg s) = of_state s" "of_state (console_head X cfg impl level msg clock s) = of_state s"
  "of_state (console_tail X cfg impl s) = of_state s" "of_state (pslog_append_console_kvfmt_prefix cfg spec s) = of_state s"
  "of_state (console_kvfmt_value X cfg spec e ap s) = of_state s"
  by (simp_all add: pslog_append_console_message_prefix_def console_head_def console_tail_def pslog_append_console_kvfmt_prefix_def
      console_kvfmt_value_def Let_def split: option.split kvfmt_arg_type.split)

lemma life_console_kvfmt [simp]: "of_state (pslog_append_console_kvfmt_fields X cfg specs e ap s) = of_state s"
  by (induction specs arbitrary: ap s) (simp_all add: Let_def)

lemma life_console_line [simp]: "(\<And>u. of_state (f u) = of_state u) \<Longrightarrow> of_state (console_line cfg f s) = of_state s"
  by (simp add: console_line_def Let_def case_prod_beta)

lemma life_emit_console [simp]:
  "of_state (pslog_emit_console X cfg impl level msg flds clock s) = of_state s"
  "of_state (pslog_emit_console_kvfmt X cfg impl level msg entry e ap clock s) = of_state s"
  by (simp_all add: pslog_emit_console_def pslog_emit_console_kvfmt_def Let_def)

lemma life_log [simp]: "of_state (pslog_log_impl X cfg impl level msg flds clock s) = of_state s"
  by (simp add: pslog_log_impl_def)

lemma life_dup [simp]: "life sh (snd (pslog_strdup_local ot w)) = life sh w" "life sh (snd (pslog_memdup_local t w)) = life sh w"
  by (simp_all add: pslog_strdup_local_def pslog_memdup_local_def Let_def case_prod_beta split: option.split)

lemma life_layout [simp]: "life sh (snd (pslog_parse_kvfmt_layout X kvfmt own w)) = life sh w"
  by (simp add: pslog_parse_kvfmt_layout_def pslog_memdup_local_def Let_def case_prod_beta split: option.split prod.split)

lemma life_prefixes [simp]: "of_state (append_kvfmt_console_prefix cfg spec s) = of_state s" "of_state (append_kvfmt_json_prefix cfg spec s) = of_state s"
  by (simp_all add: append_kvfmt_console_prefix_def append_kvfmt_json_prefix_def Let_def)

lemma life_prepare_spec [simp]: "of_state (snd (prepare_spec cfg spec s)) = of_state s"
  by (simp add: prepare_spec_def Let_def case_prod_beta)

lemma life_prepare_specs [simp]: "of_state (snd (prepare_specs cfg specs s)) = of_state s"
  by (induction specs arbitrary: s) (simp_all add: Let_def case_prod_beta)

lemma life_prepare [simp]: "of_state (snd (pslog_prepare_kvfmt_cache_entry shared e s)) = of_state s"
  by (simp add: pslog_prepare_kvfmt_cache_entry_def Let_def case_prod_beta split: option.split)

lemma life_resolve [simp]: "of_state (snd (pslog_resolve_kvfmt_entry X shared kvfmt s)) = of_state s"
proof -
  have r: "of_state (remember_pointer a i u) = of_state u" for a i u
    by (simp add: remember_pointer_def Let_def split: option.split)
  have y: "life sh (snd (pslog_parse_kvfmt_layout X k own w)) = life sh w" for sh k own w by simp
  have p: "of_state (snd (parse_local_entry X sh k u)) = of_state u" for sh k u
  proof -
    obtain q w where q: "pslog_parse_kvfmt_layout X (Some k) False (e_world u) = (q, w)" by fastforce
    show ?thesis using y [of "e_shared u" "Some k" False "e_world u", unfolded q]
      by (simp add: parse_local_entry_def q Let_def case_prod_beta split: option.split)
  qed
  obtain q w where q: "pslog_parse_kvfmt_layout X kvfmt True (e_world s) = (q, w)" by fastforce
  show ?thesis
    using r p y [of "e_shared s" kvfmt True "e_world s", unfolded q] q
    by (simp add: pslog_resolve_kvfmt_entry_def Let_def case_prod_beta split: option.split prod.split)
qed

lemma life_logf [simp]: "of_state (pslog_vlogf_impl X cfg impl level msg kvfmt e ap clock s) = of_state s"
proof -
  obtain r s1 where r: "pslog_resolve_kvfmt_entry X (Some cfg) kvfmt (s\<lparr>e_shared := pslog_state_lock (e_shared s)\<rparr>) = (r, s1)" by fastforce
  have "of_state s1 = of_state s"
    using life_resolve [of X "Some cfg" kvfmt "s\<lparr>e_shared := pslog_state_lock (e_shared s)\<rparr>", unfolded r] by simp
  then show ?thesis by (simp add: pslog_vlogf_impl_def r Let_def split: option.split)
qed

lemma life_copy_field [simp]: "life sh (snd (pslog_copy_field X f w)) = life sh w"
  by (simp add: pslog_copy_field_def pslog_memdup_local_def Let_def case_prod_beta split: option.split pslog_value.split prod.split)

lemma life_free_fields [simp]: "life sh (pslog_free_fields fs w) = life sh w"
proof -
  have "life sh (fold free_field gs v) = life sh v" for gs v
    by (induction gs arbitrary: v) (simp_all add: free_field_def Let_def split: pslog_value.split)
  then show ?thesis by (simp add: pslog_free_fields_def split: option.split)
qed

lemma life_copy_fields [simp]: "life sh (snd (pslog_copy_fields X base flds w)) = life sh w"
proof -
  have "life sh (snd (copy_fields_loop X gs cs v)) = life sh v" for gs cs v
  proof (induction gs arbitrary: cs v)
    case (Cons g gs)
    obtain r v1 where r: "pslog_copy_field X g v = (r, v1)" by fastforce
    have "life sh v1 = life sh v" using life_copy_field [of sh X g v, unfolded r] by simp
    with Cons show ?case by (simp add: r split: option.split)
  qed simp
  then show ?thesis by (simp add: pslog_copy_fields_def Let_def case_prod_beta split: option.split)
qed

lemma life_build_prefix [simp]: "of_state (snd (snd (pslog_build_field_prefix X cfg impl s))) = of_state s"
  by (simp add: pslog_build_field_prefix_def pslog_memdup_local_def Let_def case_prod_beta split: option.split prod.split)

lemma life_allocate [simp]: "of_state (snd (pslog_allocate_logger cfg s)) = of_state s"
  by (simp add: pslog_allocate_logger_def Let_def case_prod_beta)

end

context emission_frame
begin

lemma life_level_bytes [simp]:
  "of_state (pslog_append_json_color_string a b c s) = of_state s" "of_state (json_level_bytes cfg key level s) = of_state s"
  by (simp_all add: pslog_append_json_color_string_def json_level_bytes_def Let_def)

lemma life_stored [simp]: "(\<And>u. of_state (f u) = of_state u) \<Longrightarrow> of_state (snd (stored_literal f s)) = of_state s"
  by (simp add: stored_literal_def Let_def case_prod_beta)

lemma life_level_literals [simp]: "of_state (snd (build_level_literals cfg ls s)) = of_state s"
proof (induction ls arbitrary: cfg s)
  case (Cons q ls)
  obtain i level where q: "q = (i, level)" by fastforce
  obtain a s1 where a: "stored_literal (json_level_bytes cfg (if c_verbose_fields cfg then ''level'' else ''lvl'') level) s = (a, s1)" by fastforce
  define cfg1 where "cfg1 = cfg\<lparr>c_json_color_level_fields := (c_json_color_level_fields cfg)(i := a)\<rparr>"
  obtain b s2 where b: "stored_literal (json_level_bytes cfg1 ''loglevel'' level) s1 = (b, s2)" by fastforce
  have "of_state s1 = of_state s"
    using life_stored [of "json_level_bytes cfg (if c_verbose_fields cfg then ''level'' else ''lvl'') level" s, unfolded a] by simp
  moreover have "of_state s2 = of_state s1" using life_stored [of "json_level_bytes cfg1 ''loglevel'' level" s1, unfolded b] by simp
  ultimately show ?case using Cons by (simp add: q a b cfg1_def [symmetric])
qed simp

lemma life_literals [simp]:
  "of_state (snd (pslog_build_json_color_literals cfg s)) = of_state s" "of_state (snd (pslog_build_console_literals cfg s)) = of_state s"
  by (simp_all add: pslog_build_json_color_literals_def pslog_build_console_literals_def Let_def case_prod_beta)

text \<open>A new logger's state: one reference, open, with the output of the configuration.\<close>

lemma life_new:
  assumes "pslog_new a b config s = (Some (cfg, impl), s1)"
  shows "of_state s1 = life ((zero_shared (cf_output (effective_config config)))\<lparr>s_refcount := 1\<rparr>) (e_world s)"
proof -
  define c where "c = effective_config config"
  obtain capacity where cap: "pslog_normalize_line_buffer_capacity (cf_line_buffer_capacity c) = Some capacity"
    using assms unfolding pslog_new_def c_def [symmetric] Let_def by (auto split: option.splits)
  obtain k w1 where k: "pslog_calloc_internal 1 (2 ^ 20) (e_world s) = (k, w1)" by fastforce
  obtain tf w2 where tf: "(case cf_time_format c of None \<Rightarrow> (None, w1) | Some t \<Rightarrow> pslog_memdup_local (t @ [CHR 0x00]) w1) = (tf, w2)" by fastforce
  obtain p w3 where p: "pslog_calloc_internal 256 16 w2 = (p, w3)" by fastforce
  define s2 where "s2 = s\<lparr>e_shared := (zero_shared (cf_output c))\<lparr>s_kvfmt_ptr_cache := (if p then Some (\<lambda>_. None) else None), s_refcount := 1\<rparr>, e_world := w3\<rparr>"
  define c1 where "c1 = build_fragments (config_cfg c capacity (config_color c w3))"
  obtain c2 s3 where 3: "pslog_build_console_literals c1 s2 = (c2, s3)" by fastforce
  obtain c3 s4 where 4: "(if c_color_enabled c2 \<and> c_mode c2 = MODE_JSON then pslog_build_json_color_literals c2 s3 else (c2, s3)) = (c3, s4)" by fastforce
  obtain i s5 where 5: "pslog_allocate_logger c3 s4 = (i, s5)" by fastforce
  have w: "life sh w3 = life sh (e_world s)" for sh
  proof -
    have "life sh w1 = life sh (e_world s)" using life_allocator(3) [of sh 1 "2 ^ 20" "e_world s", unfolded k] by simp
    moreover have "life sh w2 = life sh w1"
    proof (cases "cf_time_format c")
      case (Some t)
      then show ?thesis using tf life_dup(2) [of sh "t @ [CHR 0x00]" w1] by simp
    qed (use tf in simp)
    moreover have "life sh w3 = life sh w2" using life_allocator(3) [of sh 256 16 w2, unfolded p] by simp
    ultimately show ?thesis by simp
  qed
  have eq: "s1 = s5"
    using assms cap k tf p 3 4 5 unfolding pslog_new_def c_def [symmetric] Let_def
    by (auto simp: s2_def c1_def split: if_splits option.splits)
  have "of_state s5 = of_state s4" using life_allocate [of c3 s4, unfolded 5] by simp
  also have "of_state s4 = of_state s3" 
  proof (cases "c_color_enabled c2 \<and> c_mode c2 = MODE_JSON")
    case True
    then have j: "pslog_build_json_color_literals c2 s3 = (c3, s4)" using 4 by simp
    show ?thesis using life_literals(1) [of c2 s3, unfolded j] by simp
  qed (use 4 in auto)
  also have "of_state s3 = of_state s2" using life_literals(2) [of c1 s2, unfolded 3] by simp
  also have "of_state s2 = life ((zero_shared (cf_output c))\<lparr>s_refcount := 1\<rparr>) (e_world s)"
  proof -
    let ?z = "(zero_shared (cf_output c))\<lparr>s_refcount := 1\<rparr>"
    have "e_shared s2 = s_kvfmt_ptr_cache_update (\<lambda>_. if p then Some (\<lambda>_. None) else None) ?z" by (simp add: s2_def)
    moreover have "e_world s2 = w3" by (simp add: s2_def)
    ultimately show ?thesis by (simp only: life_caches w)
  qed
  finally show ?thesis by (simp only: eq c_def)
qed

end

section \<open>Closing\<close>

text \<open>The handles a close reaches, and those the world has seen closed.\<close>

fun sink_targets :: "sink \<Rightarrow> target list" where
  "sink_targets S_null = []"
| "sink_targets (S_file fp) = (case fp of None \<Rightarrow> [] | Some f \<Rightarrow> [T_file f])"
| "sink_targets (S_fd a fdo) = (case fdo of None \<Rightarrow> [] | Some fd \<Rightarrow> if 0 \<le> fd then [T_fd fd] else [])"
| "sink_targets (S_tee a None) = []"
| "sink_targets (S_tee a (Some (Output s1 c1 t1 n1, Output s2 c2 t2 n2))) =
     (if c1 \<and> n1 then sink_targets s1 else []) @ (if c2 \<and> n2 then sink_targets s2 else [])"
| "sink_targets (S_observed i cb None) = []"
| "sink_targets (S_observed i cb (Some (Output s c t n))) = (if c \<and> n then sink_targets s else [])"
| "sink_targets (S_user u) = [T_user u]"

fun close_target :: "call \<Rightarrow> target list" where
  "close_target (C_close t e) = [t]"
| "close_target (C_write t d n e) = []"
| "close_target (C_failure i f) = []"

definition closed_targets :: "world \<Rightarrow> target list" where
  "closed_targets w = concat (map close_target (w_log w))"

lemma closed_targets_simps [simp]:
  "closed_targets (log_call c w) = closed_targets w @ close_target c"
  "closed_targets (w_allocs_update f w) = closed_targets w" "closed_targets (w_frees_update f w) = closed_targets w"
  "closed_targets (w_tick_update f w) = closed_targets w" "closed_targets (w_observed_update g w) = closed_targets w"
  "closed_targets (pslog_free_internal b w) = closed_targets w" "closed_targets (snd (ask w)) = closed_targets w"
  by (simp_all add: closed_targets_def log_call_def pslog_free_internal_def ask_def)

lemma ask_cases: obtains a w1 where "ask w = (a, w1)" "closed_targets w1 = closed_targets w"
  using closed_targets_simps(7) [of w] by (metis prod.collapse)

interpretation closing: world_frame "\<lambda>v w. closed_targets w = closed_targets v"
  by unfold_locales simp_all

declare closing.R_refl [simp del]

lemma write_closes_nothing: "closed_targets (snd (snd (sink_write snk data w))) = closed_targets w"
proof (induction snk data w rule: sink_write.induct)
  case (2 fp data w)
  then show ?case by (simp add: pslog_file_write_def Let_def case_prod_beta split: option.split)
next
  case (3 a fd data w)
  show ?case by (rule ask_cases [of w]) (simp add: pslog_fd_write_def Let_def split: option.split answer.split)
next
  case (5 a s1 c1 t1 n1 s2 c2 t2 n2 data w)
  have "closed_targets (snd (snd (snd (snd (tee_loop (sink_write s1) (sink_write s2) data f s w))))) = closed_targets w" for f s
    by (rule closing.tee_loop_frame) (use 5 in blast)+
  then show ?case by (simp add: pslog_tee_write_def Let_def case_prod_beta)
next
  case (7 i cb s c t n data w)
  then have "closed_targets (snd (snd (sink_write s data w))) = closed_targets w" by blast
  then show ?case by (auto simp: pslog_observed_write_def Let_def case_prod_beta)
next
  case (8 u data w)
  show ?case by (rule ask_cases [of w]) (simp add: user_write_def split: answer.split)
qed simp_all

lemma close_closes: "closed_targets (snd (sink_close snk w)) = closed_targets w @ sink_targets snk"
proof (induction snk w rule: sink_close.induct)
  case (2 fp w)
  show ?case by (rule ask_cases [of w]) (auto simp: pslog_file_close_def Let_def split: option.split answer.split)
next
  case (3 a fd w)
  show ?case by (rule ask_cases [of w]) (auto simp: pslog_fd_close_def Let_def split: option.split answer.split)
next
  case (5 a s1 c1 t1 n1 s2 c2 t2 n2 w)
  obtain e1 w1 where 1: "(if c1 \<and> n1 then sink_close s1 w else (0, w)) = (e1, w1)" by fastforce
  have "closed_targets w1 = closed_targets w @ (if c1 \<and> n1 then sink_targets s1 else [])"
    using 5(1) 1 by (auto split: if_splits)
  moreover have "c2 \<and> n2 \<Longrightarrow> closed_targets (snd (sink_close s2 w1)) = closed_targets w1 @ sink_targets s2"
    using 5(2) [OF 1 [symmetric] refl] by blast
  ultimately show ?case by (simp add: 1 Let_def case_prod_beta)
next
  case (8 u w)
  show ?case by (rule ask_cases [of w]) (auto simp: user_close_def split: answer.split)
qed simp_all

definition life_core :: "pslog_shared \<Rightarrow> world \<Rightarrow> nat \<times> bool \<times> int \<times> pslog_output \<times> target list" where
  "life_core sh w = (s_refcount sh, s_closed sh, s_close_err sh, s_output sh, closed_targets w)"

interpretation core: emission_frame life_core
  by unfold_locales (simp_all add: life_core_def write_closes_nothing)

abbreviation core_of :: "est \<Rightarrow> nat \<times> bool \<times> int \<times> pslog_output \<times> target list" where
  "core_of s \<equiv> life_core (e_shared s) (e_world s)"

section \<open>The operations on the life of the state\<close>

text \<open>Closing, as far as the life of the state is concerned.\<close>

fun closed_core :: "bool \<Rightarrow> int \<Rightarrow> nat \<times> bool \<times> int \<times> pslog_output \<times> target list \<Rightarrow> nat \<times> bool \<times> int \<times> pslog_output \<times> target list" where
  "closed_core allow err (n, closed, e, out, ts) =
     (if closed \<or> \<not> allow \<or> \<not> o_owned out then (n, closed, e, out, ts)
      else (n, True, err, Output (o_sink out) False (o_isatty out) (o_owned out),
            ts @ (if o_close out then sink_targets (o_sink out) else [])))"

lemma locked_sel [simp]: "s_closed (pslog_output_lock sh) = s_closed sh" "s_close_err (pslog_output_lock sh) = s_close_err sh"
  "s_output (pslog_output_lock sh) = s_output sh" "s_refcount (pslog_output_lock sh) = s_refcount sh"
  "s_refcount (pslog_state_lock sh) = s_refcount sh"
  by (simp_all add: pslog_output_lock_def pslog_state_lock_def)

lemma close_core: "\<exists>err. core_of (snd (pslog_close_shared allow s)) = closed_core allow err (core_of s)"
proof -
  let ?sh = "pslog_output_lock (e_shared s)"
  let ?out = "s_output (e_shared s)"
  obtain err w where c: "(if o_close ?out then sink_close (o_sink ?out) (e_world s) else (0, e_world s)) = (err, w)" by fastforce
  have w: "closed_targets w = closed_targets (e_world s) @ (if o_close ?out then sink_targets (o_sink ?out) else [])"
    using close_closes [of "o_sink ?out" "e_world s"] c by (auto split: if_splits)
  have u: "life_core (pslog_output_unlock sh) v = life_core sh v" "life_core (pslog_output_lock sh) v = life_core sh v" for sh v by simp_all
  show ?thesis
  proof (cases "s_closed (e_shared s) \<or> \<not> allow \<or> \<not> o_owned ?out")
    case True
    then have "core_of (snd (pslog_close_shared allow s)) = core_of s"
      by (auto simp: pslog_close_shared_def pslog_close_shared_locked_def)
    with True show ?thesis by (simp add: life_core_def)
  next
    case False
    let ?out' = "Output (o_sink ?out) False (o_isatty ?out) (o_owned ?out)"
    have "pslog_close_shared allow s =
        (err, s\<lparr>e_shared := pslog_output_unlock (?sh\<lparr>s_closed := True, s_close_err := err, s_output := ?out'\<rparr>), e_world := w\<rparr>)"
      unfolding pslog_close_shared_def pslog_close_shared_locked_def using False c
      by (cases "o_close ?out") (auto simp: Let_def)
    then have "core_of (snd (pslog_close_shared allow s)) = life_core (?sh\<lparr>s_closed := True, s_close_err := err, s_output := ?out'\<rparr>) w"
      by simp
    then have "core_of (snd (pslog_close_shared allow s)) = closed_core allow err (core_of s)"
      using False w by (simp add: life_core_def)
    then show ?thesis by blast
  qed
qed

lemma retain_core: "core_of (pslog_retain_shared s) = (case core_of s of (n, r) \<Rightarrow> (Suc n, r))"
proof -
  have "core_of (pslog_retain_shared s) = life_core ((pslog_state_lock (e_shared s))\<lparr>s_refcount := s_refcount (e_shared s) + 1\<rparr>) (e_world s)"
    by (simp add: pslog_retain_shared_def Let_def)
  then show ?thesis by (simp add: life_core_def pslog_state_lock_def)
qed

lemma release_core:
  assumes "pslog_release_shared tf s = (freed, s')" "core_of s = (n, r)"
  shows "freed = (n \<le> 1)" "1 < n \<Longrightarrow> core_of s' = (n - 1, r)" "n \<le> 1 \<Longrightarrow> \<exists>err. core_of s' = closed_core True err (core_of s)"
proof -
  have n: "s_refcount (e_shared s) = n" using assms(2) by (simp add: life_core_def)
  show "freed = (n \<le> 1)" using assms(1) n by (auto simp: pslog_release_shared_def Let_def split: if_splits prod.splits)
  show "core_of s' = (n - 1, r)" if "1 < n"
  proof -
    have "core_of s' = life_core ((pslog_state_lock (e_shared s))\<lparr>s_refcount := n - 1\<rparr>) (e_world s)"
      using assms(1) n that by (auto simp: pslog_release_shared_def Let_def)
    then show ?thesis using assms(2) by (simp add: life_core_def pslog_state_lock_def)
  qed
  show "\<exists>err. core_of s' = closed_core True err (core_of s)" if "n \<le> 1"
  proof -
    let ?u = "s\<lparr>e_shared := pslog_state_unlock (pslog_state_lock (e_shared s))\<rparr>"
    obtain e s1 where c: "pslog_close_shared True ?u = (e, s1)" by fastforce
    have k: "life_core sh (free_kvfmt_cache sh' w) = life_core sh w" for sh sh' w
    proof -
      have "life_core sh (fold (\<lambda>i. pslog_free_internal (f i)) xs w) = life_core sh w" for f xs
        by (induction xs arbitrary: w) simp_all
      then show ?thesis by (simp add: free_kvfmt_cache_def)
    qed
    have "core_of s' = core_of s1" using assms(1) n that c k by (auto simp: pslog_release_shared_def Let_def)
    moreover obtain err where "core_of s1 = closed_core True err (core_of ?u)" using close_core [of True ?u] c by auto
    ultimately show ?thesis by (intro exI [where x = err]) simp
  qed
qed

lemma destroy_core:
  assumes "pslog_logger_destroy cfg impl s = (freed, s')" "core_of s = (n, r)"
  shows "freed = (n \<le> 1)" "1 < n \<Longrightarrow> core_of s' = (n - 1, r)" "n \<le> 1 \<Longrightarrow> \<exists>err. core_of s' = closed_core True err (core_of s)"
proof -
  define u where "u = s\<lparr>e_world := pslog_free_internal (i_field_prefix impl \<noteq> [])
    (pslog_free_fields (if i_fields impl = [] then None else Some (i_fields impl)) (e_world s))\<rparr>"
  have u: "core_of u = core_of s" by (simp add: u_def)
  obtain f s1 where f: "pslog_release_shared (c_time_format cfg \<noteq> None) u = (f, s1)" by fastforce
  have s': "freed = f" "core_of s' = core_of s1"
    using assms(1) f by (auto simp: pslog_logger_destroy_def u_def Let_def)
  note r = release_core [OF f, of n r, unfolded u, OF assms(2)]
  show "freed = (n \<le> 1)" "1 < n \<Longrightarrow> core_of s' = (n - 1, r)" "n \<le> 1 \<Longrightarrow> \<exists>err. core_of s' = closed_core True err (core_of s)"
    using r unfolding s' by blast+
qed

text \<open>A derivation that fails for want of memory gives its reference back.\<close>

lemma clone_core:
  assumes "pslog_clone_with_fields X cfg impl flds s = (q, s')" "core_of s = (n, r)" "0 < n"
  shows "core_of s' = (if q = None then n else Suc n, r)"
proof -
  define s0 where "s0 = pslog_retain_shared s"
  have s0: "core_of s0 = (Suc n, r)" using assms(2) by (simp add: s0_def retain_core)
  obtain i s1 where i: "pslog_allocate_logger cfg s0 = (i, s1)" by fastforce
  have s1: "core_of s1 = (Suc n, r)" using core.life_allocate [of cfg s0, unfolded i] s0 by simp
  show ?thesis
  proof (cases i)
    case None
    obtain f s2 where f: "pslog_release_shared (c_time_format cfg \<noteq> None) s1 = (f, s2)" by fastforce
    with release_core(2) [OF f s1] assms i None show ?thesis by (simp add: pslog_clone_with_fields_def s0_def [symmetric])
  next
    case (Some d)
    obtain cs w where cs: "pslog_copy_fields X (i_fields impl) flds (e_world s1) = (cs, w)" by fastforce
    let ?s2 = "s1\<lparr>e_world := w\<rparr>"
    have s2: "core_of ?s2 = (Suc n, r)"
      using core.life_copy_fields [of "e_shared s1" X "i_fields impl" flds "e_world s1", unfolded cs] s1 by simp
    have lost: "core_of (snd (pslog_logger_destroy cfg l t)) = (n, r)" if "core_of t = (Suc n, r)" for l t
      using destroy_core(2) [OF prod.collapse [symmetric] that, of cfg l] assms(3) by simp
    show ?thesis
    proof (cases cs)
      case None
      with lost [OF s2] assms(1) i Some cs show ?thesis by (auto simp: pslog_clone_with_fields_def s0_def [symmetric])
    next
      case (Some copied)
      obtain b l s3 where b: "pslog_build_field_prefix X cfg (d\<lparr>i_fields := copied\<rparr>) ?s2 = (b, l, s3)" by (metis prod_cases3)
      have s3: "core_of s3 = (Suc n, r)"
        using core.life_build_prefix [of X cfg "d\<lparr>i_fields := copied\<rparr>" ?s2, unfolded b] s2 by simp
      show ?thesis using lost [OF s3] s3 assms(1) i \<open>i = Some d\<close> cs Some b
        by (cases b) (auto simp: pslog_clone_with_fields_def s0_def [symmetric])
    qed
  qed
qed

section \<open>The life of a shared state\<close>

record lifecycle =
  l_loggers :: "pslog_logger_impl list"
  l_est :: est
  l_freed :: bool

text \<open>
  The steps of a program on its loggers. Allocations and sinks answer as the world pleases, so a
  derivation may fail and a write may be short.
\<close>

inductive life_step :: "libc \<Rightarrow> shared_cfg \<Rightarrow> lifecycle \<Rightarrow> lifecycle \<Rightarrow> bool" for X cfg where
  derive: "i < length (l_loggers t) \<Longrightarrow> pslog_clone_with_fields X cfg (l_loggers t ! i) flds (l_est t) = (q, s) \<Longrightarrow>
     life_step X cfg t (t\<lparr>l_loggers := l_loggers t @ (case q of None \<Rightarrow> [] | Some l \<Rightarrow> [l]), l_est := s\<rparr>)"
| log: "i < length (l_loggers t) \<Longrightarrow>
     life_step X cfg t (t\<lparr>l_est := pslog_log_impl X cfg (l_loggers t ! i) level msg flds clock (l_est t)\<rparr>)"
| logf: "i < length (l_loggers t) \<Longrightarrow>
     life_step X cfg t (t\<lparr>l_est := pslog_vlogf_impl X cfg (l_loggers t ! i) level msg kvfmt e ap clock (l_est t)\<rparr>)"
| close: "i < length (l_loggers t) \<Longrightarrow> pslog_close (Some (l_loggers t ! i)) (l_est t) = (err, s) \<Longrightarrow>
     life_step X cfg t (t\<lparr>l_est := s\<rparr>)"
| destroy: "i < length (l_loggers t) \<Longrightarrow> pslog_logger_destroy cfg (l_loggers t ! i) (l_est t) = (freed, s) \<Longrightarrow>
     life_step X cfg t (t\<lparr>l_loggers := take i (l_loggers t) @ drop (Suc i) (l_loggers t), l_est := s, l_freed := freed\<rparr>)"

inductive_cases life_stepE [elim]: "life_step X cfg t t'"

text \<open>\<open>out\<close> is the output of the configuration and \<open>base\<close> what was closed before.\<close>

fun core_inv :: "pslog_output \<Rightarrow> target list \<Rightarrow> nat \<times> bool \<times> int \<times> pslog_output \<times> target list \<Rightarrow> bool" where
  "core_inv out base (n, closed, e, o', ts) =
     (o_sink o' = o_sink out \<and> o_owned o' = o_owned out \<and> (\<not> closed \<longrightarrow> o' = out) \<and> (closed \<longrightarrow> o_owned out) \<and>
      ts = base @ (if closed \<and> o_close out then sink_targets (o_sink out) else []))"

definition life_inv :: "pslog_output \<Rightarrow> target list \<Rightarrow> lifecycle \<Rightarrow> bool" where
  "life_inv out base t =
     (l_freed t = (l_loggers t = []) \<and> core_inv out base (core_of (l_est t)) \<and>
      (if l_freed t then o_owned out \<longrightarrow> s_closed (e_shared (l_est t))
       else s_refcount (e_shared (l_est t)) = length (l_loggers t)))"

lemma closed_core_inv: "core_inv out base c \<Longrightarrow> core_inv out base (closed_core allow err c)"
  by (cases c) (auto simp: Let_def)

lemma inv_core:
  assumes "core_of s = core_of (l_est t)" "life_inv out base t"
  shows "life_inv out base (t\<lparr>l_est := s\<rparr>)"
proof -
  have "s_refcount (e_shared s) = s_refcount (e_shared (l_est t))" "s_closed (e_shared s) = s_closed (e_shared (l_est t))"
    using assms(1) by (simp_all add: life_core_def)
  with assms show ?thesis by (simp add: life_inv_def)
qed

lemma life_step_inv:
  assumes "life_step X cfg t t'" "life_inv out base t"
  shows "life_inv out base t'"
  using assms
proof (induction rule: life_step.induct)
  case (derive i t flds q s)
  obtain n r where c: "core_of (l_est t) = (n, r)" by (metis prod.collapse)
  have n: "n = length (l_loggers t)" "0 < n" using derive c by (auto simp: life_inv_def life_core_def)
  note s = clone_core [OF derive(2) c n(2)]
  have "s_refcount (e_shared s) = (if q = None then n else Suc n)" using s by (simp add: life_core_def)
  moreover have "core_inv out base (core_of s)" using derive(3) c s by (cases r) (auto simp: life_inv_def)
  ultimately show ?case using derive n by (auto simp: life_inv_def split: option.split)
next
  case (log i t level msg flds clock)
  show ?case by (rule inv_core [OF core.life_log log(2)])
next
  case (logf i t level msg kvfmt e ap clock)
  show ?case by (rule inv_core [OF core.life_logf logf(2)])
next
  case (close i t err s)
  obtain e where e: "core_of s = closed_core (i_can_close_shared (l_loggers t ! i)) e (core_of (l_est t))"
    using close_core [of "i_can_close_shared (l_loggers t ! i)" "l_est t"] close(2) by (auto simp: pslog_close_def)
  have "s_refcount (e_shared s) = s_refcount (e_shared (l_est t))"
    using arg_cong [OF e, of fst] by (simp add: life_core_def split: if_splits)
  then show ?case using close closed_core_inv e by (auto simp: life_inv_def)
next
  case (destroy i t freed s)
  obtain n r where c: "core_of (l_est t) = (n, r)" by (metis prod.collapse)
  have n: "n = length (l_loggers t)" using destroy c by (auto simp: life_inv_def life_core_def)
  note d = destroy_core [OF destroy(2) c]
  show ?case
  proof (cases "n \<le> 1")
    case True
    then obtain err where e: "core_of s = closed_core True err (core_of (l_est t))" using d(3) by blast
    have "core_inv out base (core_of (l_est t))" using destroy(3) by (simp add: life_inv_def)
    moreover from this have "o_owned out \<longrightarrow> s_closed (e_shared s)"
      using arg_cong [OF e, of "fst \<circ> snd"] by (auto simp: life_core_def split: if_splits)
    moreover have "l_loggers t = [l_loggers t ! 0]" "i = 0" using True n destroy(1) by (cases "l_loggers t"; auto)+
    ultimately show ?thesis using closed_core_inv e d(1) True n by (simp add: life_inv_def)
  next
    case False
    then have s: "core_of s = (n - 1, r)" using d(2) by simp
    have "core_inv out base (core_of s)" using destroy(3) c s by (cases r) (auto simp: life_inv_def)
    moreover have "s_refcount (e_shared s) = n - 1" using s by (simp add: life_core_def)
    ultimately show ?thesis using False d(1) n destroy(1) by (auto simp: life_inv_def)
  qed
qed

section \<open>Reachable states\<close>

inductive life_reach :: "libc \<Rightarrow> shared_cfg \<Rightarrow> lifecycle \<Rightarrow> lifecycle \<Rightarrow> bool" for X cfg where
  reached: "life_reach X cfg t t"
| stepped: "life_reach X cfg t u \<Longrightarrow> life_step X cfg u v \<Longrightarrow> life_reach X cfg t v"

lemma life_reach_trans:
  assumes "life_reach X cfg u v" "life_reach X cfg t u"
  shows "life_reach X cfg t v"
  using assms by (induction rule: life_reach.induct) (auto intro: life_reach.stepped)

lemma life_reach_inv: "life_reach X cfg t u \<Longrightarrow> life_inv out base t \<Longrightarrow> life_inv out base u"
  by (induction rule: life_reach.induct) (auto intro: life_step_inv)

definition life_start :: "pslog_logger_impl \<Rightarrow> est \<Rightarrow> lifecycle" where
  "life_start impl s = \<lparr>l_loggers = [impl], l_est = s, l_freed = False\<rparr>"

lemma new_inv:
  assumes "pslog_new a b config s = (Some (cfg, impl), s1)"
  shows "life_inv (cf_output (effective_config config)) (closed_targets (e_world s)) (life_start impl s1)"
proof -
  have c: "core_of s1 = (1, False, 0, cf_output (effective_config config), closed_targets (e_world s))"
    using core.life_new [OF assms] by (simp add: life_core_def zero_shared_def)
  then have "s_refcount (e_shared s1) = 1" by (simp add: life_core_def)
  with c show ?thesis by (simp add: life_inv_def life_start_def)
qed

text \<open>Destroying the first logger again and again.\<close>

lemma destroy_all:
  assumes "life_inv out base t"
  shows "\<exists>u. life_reach X cfg t u \<and> l_loggers u = []"
  using assms
proof (induction "length (l_loggers t)" arbitrary: t)
  case 0
  then show ?case using life_reach.reached by fastforce
next
  case (Suc k)
  obtain freed s where d: "pslog_logger_destroy cfg (l_loggers t ! 0) (l_est t) = (freed, s)" by fastforce
  define u where "u = t\<lparr>l_loggers := take 0 (l_loggers t) @ drop (Suc 0) (l_loggers t), l_est := s, l_freed := freed\<rparr>"
  have st: "life_step X cfg t u" unfolding u_def by (rule life_step.destroy [OF _ d]) (use Suc.hyps(2) in linarith)
  have "k = length (l_loggers u)" using Suc.hyps(2) by (simp add: u_def)
  from Suc.hyps(1) [OF this life_step_inv [OF st Suc.prems]] obtain v where "life_reach X cfg u v" "l_loggers v = []" by blast
  with life_reach_trans [OF _ life_reach.stepped [OF life_reach.reached st]] show ?case by blast
qed

definition demo_owner :: pslog_logger_impl where
  "demo_owner = \<lparr>i_fields = [], i_field_prefix = [], i_min_level = LEVEL_INFO, i_include_level_field = False, i_can_close_shared = True\<rparr>"

section \<open>Properties\<close>

text \<open>
  Claim C3. The shared state lives exactly as long as its loggers, under any environment: in every state
  that a program reaches from \<open>pslog_new\<close> by deriving, logging, closing and destroying loggers in any
  order, with allocations failing and sinks erring at any point, the reference count is the number of
  live loggers and the state is freed exactly when none is left. The handles of the output are closed
  at most once, only if the logger owns the output, and always by the time the state is freed.
\<close>

theorem lifecycle_invariant:
  assumes "pslog_new a b config s = (Some (cfg, impl), s1)" "life_reach X cfg (life_start impl s1) t"
    and "out = cf_output (effective_config config)"
  shows "(l_freed t \<longleftrightarrow> l_loggers t = []) \<and>
    (l_freed t \<or> s_refcount (e_shared (l_est t)) = length (l_loggers t)) \<and>
    closed_targets (e_world (l_est t)) =
      closed_targets (e_world s) @ (if s_closed (e_shared (l_est t)) \<and> o_close out then sink_targets (o_sink out) else []) \<and>
    (if o_owned out then l_freed t \<longrightarrow> s_closed (e_shared (l_est t)) else \<not> s_closed (e_shared (l_est t)))"
proof -
  have i: "life_inv out (closed_targets (e_world s)) t"
    using life_reach_inv [OF assms(2) new_inv [OF assms(1)]] by (simp add: assms(3))
  then show ?thesis by (auto simp: life_inv_def life_core_def)
qed

lemma lifecycle_invariant_witness:
  "\<exists>cfg impl s1 freed s2. pslog_new True True (Some demo_config) demo_state = (Some (cfg, impl), s1) \<and>
     pslog_logger_destroy cfg impl s1 = (freed, s2) \<and> freed \<and> closed_targets (e_world s2) = [T_fd 3]"
proof -
  obtain cfg impl s1 where c: "pslog_new True True (Some demo_config) demo_state = (Some (cfg, impl), s1)" by (rule demo_new)
  obtain freed s2 where d: "pslog_logger_destroy cfg impl s1 = (freed, s2)" by fastforce
  let ?t = "(life_start impl s1)\<lparr>l_loggers := take 0 [impl] @ drop (Suc 0) [impl], l_est := s2, l_freed := freed\<rparr>"
  have "life_step demo_libc cfg (life_start impl s1) ?t"
    using life_step.destroy [of 0 "life_start impl s1" cfg freed s2 demo_libc] d by (simp add: life_start_def)
  then have r: "life_reach demo_libc cfg (life_start impl s1) ?t" by (rule life_reach.stepped [OF life_reach.reached])
  have out: "cf_output (effective_config (Some demo_config)) = Output (S_fd 1 (Some 3)) True False True"
    by (simp add: effective_config_def demo_config_def)
  have base: "closed_targets (e_world demo_state) = []" by (simp add: demo_state_def demo_eqs closed_targets_def)
  from lifecycle_invariant [OF c r refl] have "freed" "closed_targets (e_world s2) = [T_fd 3]"
    by (auto simp: out base life_start_def)
  with c d show ?thesis by blast
qed



text \<open>
  Claim C16. Closing is idempotent and final: after \<open>pslog_close\<close> on a logger that owns its output, a
  second close calls no sink and reports the error of the first, and no log call of any logger, with
  fields or with a format string, changes anything any more.
\<close>

theorem close_is_final:
  assumes "o_owned (s_output (e_shared s))" "i_can_close_shared impl" "mutex_ok (s_output_mutex (e_shared s))"
    and "pslog_close (Some impl) s = (err, s1)" "\<not> s_closed (e_shared s)"
  shows "pslog_close (Some other) s1 = (err, s1) \<and>
    pslog_log_impl X cfg other level msg flds clock s1 = s1 \<and>
    pslog_vlogf_impl X cfg other level msg kvfmt e ap clock s1 = s1"
proof -
  let ?out = "s_output (e_shared s)"
  obtain k w where c: "(if o_close ?out then sink_close (o_sink ?out) (e_world s) else (0, e_world s)) = (k, w)" by fastforce
  have s1: "err = k" "s1 = s\<lparr>e_shared := pslog_output_unlock ((pslog_output_lock (e_shared s))\<lparr>s_closed := True, s_close_err := k,
      s_output := Output (o_sink ?out) False (o_isatty ?out) True\<rparr>), e_world := w\<rparr>"
    using assms c by (cases "o_close ?out"; auto simp: pslog_close_def pslog_close_shared_def pslog_close_shared_locked_def Let_def)+
  have cl: "s_closed (e_shared s1)" "s_close_err (e_shared s1) = err" "mutex_ok (s_output_mutex (e_shared s1))"
    using assms(3) by (simp_all add: s1 pslog_output_unlock_def pslog_output_lock_def)
  have m: "pslog_output_unlock (pslog_output_lock (e_shared s1)) = e_shared s1"
    using cl(3) by (cases "e_shared s1") (simp add: pslog_output_unlock_def pslog_output_lock_def)
  have "pslog_close (Some other) s1 = (err, s1)"
    using cl m by (simp add: pslog_close_def pslog_close_shared_def pslog_close_shared_locked_def)
  then show ?thesis using cl(1) by (simp add: pslog_log_impl_def pslog_vlogf_impl_def pslog_should_log_def)
qed

lemma close_is_final_witness:
  "\<exists>err s1. pslog_close (Some demo_owner) (demo_state\<lparr>e_shared := zero_shared (Output (S_fd 1 (Some 3)) True False True)\<rparr>) = (err, s1) \<and>
     pslog_close (Some demo_owner) s1 = (err, s1)"
proof -
  let ?s = "demo_state\<lparr>e_shared := zero_shared (Output (S_fd 1 (Some 3)) True False True)\<rparr>"
  obtain err s1 where c: "pslog_close (Some demo_owner) ?s = (err, s1)" by fastforce
  from close_is_final [OF _ _ _ c, of demo_owner] show ?thesis using c by (simp add: zero_shared_def demo_owner_def)
qed

end
