(* ===== verification/Api.thy ===== *)
theory Api
  imports Lifecycle
begin

text \<open>
  The functions a program calls (\<open>src/pslog.c\<close>): the methods in the table of a logger and the public
  functions, which check the logger for NULL and pass the call on. A NULL logger is \<open>None\<close>. The variable
  arguments of a format call are the list of their values; \<open>errno\<close> is the number at the call.
\<close>

section \<open>The methods of a logger\<close>

type_synonym log_method = "libc \<Rightarrow> shared_cfg \<Rightarrow> pslog_logger_impl \<Rightarrow> cstring option \<Rightarrow> pslog_field list \<Rightarrow> int \<times> int \<Rightarrow> est \<Rightarrow> est"
type_synonym logf_method =
  "libc \<Rightarrow> shared_cfg \<Rightarrow> pslog_logger_impl \<Rightarrow> cstring option \<Rightarrow> cptr option \<Rightarrow> 32 word \<Rightarrow> kvfmt_arg list \<Rightarrow> int \<times> int \<Rightarrow> est \<Rightarrow> est"

definition pslog_logger_close :: "pslog_logger_impl option \<Rightarrow> est \<Rightarrow> int \<times> est" where
  "pslog_logger_close log s = pslog_close log s"

definition pslog_logger_withf ::
  "libc \<Rightarrow> shared_cfg \<Rightarrow> pslog_logger_impl \<Rightarrow> cptr option \<Rightarrow> 32 word \<Rightarrow> kvfmt_arg list \<Rightarrow> est \<Rightarrow> pslog_logger_impl option \<times> est" where
  "pslog_logger_withf X cfg impl kvfmt errno ap s = pslog_vwithf_impl X cfg impl kvfmt errno ap s"

definition pslog_logger_log ::
  "libc \<Rightarrow> shared_cfg \<Rightarrow> pslog_logger_impl \<Rightarrow> pslog_level \<Rightarrow> cstring option \<Rightarrow> pslog_field list \<Rightarrow> int \<times> int \<Rightarrow> est \<Rightarrow> est" where
  "pslog_logger_log X cfg impl level msg flds clock s = pslog_log_impl X cfg impl level msg flds clock s"

definition pslog_logger_trace :: log_method where
  "pslog_logger_trace X cfg impl msg flds clock s = pslog_log_impl X cfg impl LEVEL_TRACE msg flds clock s"

definition pslog_logger_debug :: log_method where
  "pslog_logger_debug X cfg impl msg flds clock s = pslog_log_impl X cfg impl LEVEL_DEBUG msg flds clock s"

definition pslog_logger_info :: log_method where
  "pslog_logger_info X cfg impl msg flds clock s = pslog_log_impl X cfg impl LEVEL_INFO msg flds clock s"

definition pslog_logger_warn :: log_method where
  "pslog_logger_warn X cfg impl msg flds clock s = pslog_log_impl X cfg impl LEVEL_WARN msg flds clock s"

definition pslog_logger_error :: log_method where
  "pslog_logger_error X cfg impl msg flds clock s = pslog_log_impl X cfg impl LEVEL_ERROR msg flds clock s"

definition pslog_logger_logf ::
  "libc \<Rightarrow> shared_cfg \<Rightarrow> pslog_logger_impl \<Rightarrow> pslog_level \<Rightarrow> cstring option \<Rightarrow> cptr option \<Rightarrow> 32 word \<Rightarrow> kvfmt_arg list \<Rightarrow>
     int \<times> int \<Rightarrow> est \<Rightarrow> est" where
  "pslog_logger_logf X cfg impl level msg kvfmt errno ap clock s = pslog_vlogf_impl X cfg impl level msg kvfmt errno ap clock s"

definition pslog_logger_tracef :: logf_method where
  "pslog_logger_tracef X cfg impl msg kvfmt errno ap clock s = pslog_vlogf_impl X cfg impl LEVEL_TRACE msg kvfmt errno ap clock s"

definition pslog_logger_debugf :: logf_method where
  "pslog_logger_debugf X cfg impl msg kvfmt errno ap clock s = pslog_vlogf_impl X cfg impl LEVEL_DEBUG msg kvfmt errno ap clock s"

definition pslog_logger_infof :: logf_method where
  "pslog_logger_infof X cfg impl msg kvfmt errno ap clock s = pslog_vlogf_impl X cfg impl LEVEL_INFO msg kvfmt errno ap clock s"

definition pslog_logger_warnf :: logf_method where
  "pslog_logger_warnf X cfg impl msg kvfmt errno ap clock s = pslog_vlogf_impl X cfg impl LEVEL_WARN msg kvfmt errno ap clock s"

definition pslog_logger_errorf :: logf_method where
  "pslog_logger_errorf X cfg impl msg kvfmt errno ap clock s = pslog_vlogf_impl X cfg impl LEVEL_ERROR msg kvfmt errno ap clock s"

definition pslog_logger_fatalf ::
  "libc \<Rightarrow> shared_cfg \<Rightarrow> pslog_logger_impl \<Rightarrow> cstring option \<Rightarrow> cptr option \<Rightarrow> 32 word \<Rightarrow> kvfmt_arg list \<Rightarrow> int \<times> int \<Rightarrow> est \<Rightarrow> outcome" where
  "pslog_logger_fatalf X cfg impl msg kvfmt errno ap clock s =
     Ended Exit_failure (pslog_vlogf_impl X cfg impl LEVEL_FATAL msg kvfmt errno ap clock s)"

definition pslog_logger_panicf ::
  "libc \<Rightarrow> shared_cfg \<Rightarrow> pslog_logger_impl \<Rightarrow> cstring option \<Rightarrow> cptr option \<Rightarrow> 32 word \<Rightarrow> kvfmt_arg list \<Rightarrow> int \<times> int \<Rightarrow> est \<Rightarrow> outcome" where
  "pslog_logger_panicf X cfg impl msg kvfmt errno ap clock s =
     Ended Abort (pslog_vlogf_impl X cfg impl LEVEL_PANIC msg kvfmt errno ap clock s)"

section \<open>The public functions\<close>

type_synonym log_fun = "libc \<Rightarrow> shared_cfg \<Rightarrow> pslog_logger_impl option \<Rightarrow> cstring option \<Rightarrow> pslog_field list \<Rightarrow> int \<times> int \<Rightarrow> est \<Rightarrow> est"
type_synonym logf_fun =
  "libc \<Rightarrow> shared_cfg \<Rightarrow> pslog_logger_impl option \<Rightarrow> cstring option \<Rightarrow> cptr option \<Rightarrow> 32 word \<Rightarrow> kvfmt_arg list \<Rightarrow> int \<times> int \<Rightarrow> est \<Rightarrow> est"

definition pslog_fields ::
  "libc \<Rightarrow> shared_cfg \<Rightarrow> pslog_logger_impl option \<Rightarrow> pslog_level \<Rightarrow> cstring option \<Rightarrow> pslog_field list \<Rightarrow> int \<times> int \<Rightarrow> est \<Rightarrow> est" where
  "pslog_fields X cfg log level msg flds clock s =
     (case log of None \<Rightarrow> s | Some impl \<Rightarrow> pslog_logger_log X cfg impl level msg flds clock s)"

definition pslog_trace :: log_fun where
  "pslog_trace X cfg log msg flds clock s = (case log of None \<Rightarrow> s | Some impl \<Rightarrow> pslog_logger_trace X cfg impl msg flds clock s)"

definition pslog_debug :: log_fun where
  "pslog_debug X cfg log msg flds clock s = (case log of None \<Rightarrow> s | Some impl \<Rightarrow> pslog_logger_debug X cfg impl msg flds clock s)"

definition pslog_info :: log_fun where
  "pslog_info X cfg log msg flds clock s = (case log of None \<Rightarrow> s | Some impl \<Rightarrow> pslog_logger_info X cfg impl msg flds clock s)"

definition pslog_warn :: log_fun where
  "pslog_warn X cfg log msg flds clock s = (case log of None \<Rightarrow> s | Some impl \<Rightarrow> pslog_logger_warn X cfg impl msg flds clock s)"

definition pslog_error :: log_fun where
  "pslog_error X cfg log msg flds clock s = (case log of None \<Rightarrow> s | Some impl \<Rightarrow> pslog_logger_error X cfg impl msg flds clock s)"

definition pslog_fatal ::
  "libc \<Rightarrow> shared_cfg \<Rightarrow> pslog_logger_impl option \<Rightarrow> cstring option \<Rightarrow> pslog_field list \<Rightarrow> int \<times> int \<Rightarrow> est \<Rightarrow> outcome" where
  "pslog_fatal X cfg log msg flds clock s =
     (case log of None \<Rightarrow> Returned s | Some impl \<Rightarrow> pslog_logger_fatal X cfg impl msg flds clock s)"

definition pslog_panic ::
  "libc \<Rightarrow> shared_cfg \<Rightarrow> pslog_logger_impl option \<Rightarrow> cstring option \<Rightarrow> pslog_field list \<Rightarrow> int \<times> int \<Rightarrow> est \<Rightarrow> outcome" where
  "pslog_panic X cfg log msg flds clock s =
     (case log of None \<Rightarrow> Returned s | Some impl \<Rightarrow> pslog_logger_panic X cfg impl msg flds clock s)"

definition pslog ::
  "libc \<Rightarrow> shared_cfg \<Rightarrow> pslog_logger_impl option \<Rightarrow> pslog_level \<Rightarrow> cstring option \<Rightarrow> cptr option \<Rightarrow> 32 word \<Rightarrow> kvfmt_arg list \<Rightarrow>
     int \<times> int \<Rightarrow> est \<Rightarrow> est" where
  "pslog X cfg log level msg kvfmt errno ap clock s =
     (case log of None \<Rightarrow> s | Some impl \<Rightarrow> pslog_vlogf_impl X cfg impl level msg kvfmt errno ap clock s)"

definition pslog_tracef :: logf_fun where
  "pslog_tracef X cfg log msg kvfmt errno ap clock s =
     (case log of None \<Rightarrow> s | Some impl \<Rightarrow> pslog_vlogf_impl X cfg impl LEVEL_TRACE msg kvfmt errno ap clock s)"

definition pslog_debugf :: logf_fun where
  "pslog_debugf X cfg log msg kvfmt errno ap clock s =
     (case log of None \<Rightarrow> s | Some impl \<Rightarrow> pslog_vlogf_impl X cfg impl LEVEL_DEBUG msg kvfmt errno ap clock s)"

definition pslog_infof :: logf_fun where
  "pslog_infof X cfg log msg kvfmt errno ap clock s =
     (case log of None \<Rightarrow> s | Some impl \<Rightarrow> pslog_vlogf_impl X cfg impl LEVEL_INFO msg kvfmt errno ap clock s)"

definition pslog_warnf :: logf_fun where
  "pslog_warnf X cfg log msg kvfmt errno ap clock s =
     (case log of None \<Rightarrow> s | Some impl \<Rightarrow> pslog_vlogf_impl X cfg impl LEVEL_WARN msg kvfmt errno ap clock s)"

definition pslog_errorf :: logf_fun where
  "pslog_errorf X cfg log msg kvfmt errno ap clock s =
     (case log of None \<Rightarrow> s | Some impl \<Rightarrow> pslog_vlogf_impl X cfg impl LEVEL_ERROR msg kvfmt errno ap clock s)"

definition pslog_fatalf ::
  "libc \<Rightarrow> shared_cfg \<Rightarrow> pslog_logger_impl option \<Rightarrow> cstring option \<Rightarrow> cptr option \<Rightarrow> 32 word \<Rightarrow> kvfmt_arg list \<Rightarrow> int \<times> int \<Rightarrow> est \<Rightarrow> outcome" where
  "pslog_fatalf X cfg log msg kvfmt errno ap clock s =
     (case log of None \<Rightarrow> Returned s
      | Some impl \<Rightarrow> Ended Exit_failure (pslog_vlogf_impl X cfg impl LEVEL_FATAL msg kvfmt errno ap clock s))"

definition pslog_panicf ::
  "libc \<Rightarrow> shared_cfg \<Rightarrow> pslog_logger_impl option \<Rightarrow> cstring option \<Rightarrow> cptr option \<Rightarrow> 32 word \<Rightarrow> kvfmt_arg list \<Rightarrow> int \<times> int \<Rightarrow> est \<Rightarrow> outcome" where
  "pslog_panicf X cfg log msg kvfmt errno ap clock s =
     (case log of None \<Rightarrow> Returned s
      | Some impl \<Rightarrow> Ended Abort (pslog_vlogf_impl X cfg impl LEVEL_PANIC msg kvfmt errno ap clock s))"

definition pslog_with ::
  "libc \<Rightarrow> shared_cfg \<Rightarrow> pslog_logger_impl option \<Rightarrow> pslog_field list \<Rightarrow> est \<Rightarrow> pslog_logger_impl option \<times> est" where
  "pslog_with X cfg log flds s = (case log of None \<Rightarrow> (None, s) | Some impl \<Rightarrow> pslog_logger_with X cfg impl flds s)"

definition pslog_withf ::
  "libc \<Rightarrow> shared_cfg \<Rightarrow> pslog_logger_impl option \<Rightarrow> cptr option \<Rightarrow> 32 word \<Rightarrow> kvfmt_arg list \<Rightarrow> est \<Rightarrow> pslog_logger_impl option \<times> est" where
  "pslog_withf X cfg log kvfmt errno ap s =
     (case log of None \<Rightarrow> (None, s) | Some impl \<Rightarrow> pslog_vwithf_impl X cfg impl kvfmt errno ap s)"

definition pslog_with_level ::
  "libc \<Rightarrow> shared_cfg \<Rightarrow> pslog_logger_impl option \<Rightarrow> pslog_level \<Rightarrow> est \<Rightarrow> pslog_logger_impl option \<times> est" where
  "pslog_with_level X cfg log level s = (case log of None \<Rightarrow> (None, s) | Some impl \<Rightarrow> pslog_logger_with_level X cfg impl level s)"

definition pslog_with_level_field :: "libc \<Rightarrow> shared_cfg \<Rightarrow> pslog_logger_impl option \<Rightarrow> est \<Rightarrow> pslog_logger_impl option \<times> est" where
  "pslog_with_level_field X cfg log s = (case log of None \<Rightarrow> (None, s) | Some impl \<Rightarrow> pslog_logger_with_level_field X cfg impl s)"


section \<open>Programs of public calls\<close>

text \<open>
  A call of a public function on the logger with the given number; a number past the last logger stands
  for NULL, which is what a failed derivation gives. A fatal or panic call on a logger ends the program,
  and the calls after it are not made.
\<close>

datatype public_call =
    Call_fields nat pslog_level "cstring option" "pslog_field list" "int \<times> int"
  | Call_trace nat "cstring option" "pslog_field list" "int \<times> int"
  | Call_debug nat "cstring option" "pslog_field list" "int \<times> int"
  | Call_info nat "cstring option" "pslog_field list" "int \<times> int"
  | Call_warn nat "cstring option" "pslog_field list" "int \<times> int"
  | Call_error nat "cstring option" "pslog_field list" "int \<times> int"
  | Call_fatal nat "cstring option" "pslog_field list" "int \<times> int"
  | Call_panic nat "cstring option" "pslog_field list" "int \<times> int"
  | Call_format nat pslog_level "cstring option" cptr "32 word" "kvfmt_arg list" "int \<times> int"
  | Call_tracef nat "cstring option" cptr "32 word" "kvfmt_arg list" "int \<times> int"
  | Call_debugf nat "cstring option" cptr "32 word" "kvfmt_arg list" "int \<times> int"
  | Call_infof nat "cstring option" cptr "32 word" "kvfmt_arg list" "int \<times> int"
  | Call_warnf nat "cstring option" cptr "32 word" "kvfmt_arg list" "int \<times> int"
  | Call_errorf nat "cstring option" cptr "32 word" "kvfmt_arg list" "int \<times> int"
  | Call_fatalf nat "cstring option" cptr "32 word" "kvfmt_arg list" "int \<times> int"
  | Call_panicf nat "cstring option" cptr "32 word" "kvfmt_arg list" "int \<times> int"
  | Call_with nat "pslog_field list"
  | Call_withf nat cptr "32 word" "kvfmt_arg list"
  | Call_with_level nat pslog_level
  | Call_with_level_field nat

definition nth_logger :: "pslog_logger_impl list \<Rightarrow> nat \<Rightarrow> pslog_logger_impl option" where
  "nth_logger ls i = (if i < length ls then Some (ls ! i) else None)"

fun after_outcome :: "pslog_logger_impl list \<Rightarrow> outcome \<Rightarrow> (pslog_logger_impl list \<times> est) \<times> ending option" where
  "after_outcome ls (Returned s) = ((ls, s), None)"
| "after_outcome ls (Ended e s) = ((ls, s), Some e)"

fun run_call ::
  "libc \<Rightarrow> shared_cfg \<Rightarrow> public_call \<Rightarrow> pslog_logger_impl list \<times> est \<Rightarrow> (pslog_logger_impl list \<times> est) \<times> ending option" where
  "run_call X cfg (Call_fields i level msg flds clock) (ls, s) = ((ls, pslog_fields X cfg (nth_logger ls i) level msg flds clock s), None)"
| "run_call X cfg (Call_trace i msg flds clock) (ls, s) = ((ls, pslog_trace X cfg (nth_logger ls i) msg flds clock s), None)"
| "run_call X cfg (Call_debug i msg flds clock) (ls, s) = ((ls, pslog_debug X cfg (nth_logger ls i) msg flds clock s), None)"
| "run_call X cfg (Call_info i msg flds clock) (ls, s) = ((ls, pslog_info X cfg (nth_logger ls i) msg flds clock s), None)"
| "run_call X cfg (Call_warn i msg flds clock) (ls, s) = ((ls, pslog_warn X cfg (nth_logger ls i) msg flds clock s), None)"
| "run_call X cfg (Call_error i msg flds clock) (ls, s) = ((ls, pslog_error X cfg (nth_logger ls i) msg flds clock s), None)"
| "run_call X cfg (Call_fatal i msg flds clock) (ls, s) = after_outcome ls (pslog_fatal X cfg (nth_logger ls i) msg flds clock s)"
| "run_call X cfg (Call_panic i msg flds clock) (ls, s) = after_outcome ls (pslog_panic X cfg (nth_logger ls i) msg flds clock s)"
| "run_call X cfg (Call_format i level msg kvfmt e ap clock) (ls, s) = ((ls, pslog X cfg (nth_logger ls i) level msg (Some kvfmt) e ap clock s), None)"
| "run_call X cfg (Call_tracef i msg kvfmt e ap clock) (ls, s) = ((ls, pslog_tracef X cfg (nth_logger ls i) msg (Some kvfmt) e ap clock s), None)"
| "run_call X cfg (Call_debugf i msg kvfmt e ap clock) (ls, s) = ((ls, pslog_debugf X cfg (nth_logger ls i) msg (Some kvfmt) e ap clock s), None)"
| "run_call X cfg (Call_infof i msg kvfmt e ap clock) (ls, s) = ((ls, pslog_infof X cfg (nth_logger ls i) msg (Some kvfmt) e ap clock s), None)"
| "run_call X cfg (Call_warnf i msg kvfmt e ap clock) (ls, s) = ((ls, pslog_warnf X cfg (nth_logger ls i) msg (Some kvfmt) e ap clock s), None)"
| "run_call X cfg (Call_errorf i msg kvfmt e ap clock) (ls, s) = ((ls, pslog_errorf X cfg (nth_logger ls i) msg (Some kvfmt) e ap clock s), None)"
| "run_call X cfg (Call_fatalf i msg kvfmt e ap clock) (ls, s) = after_outcome ls (pslog_fatalf X cfg (nth_logger ls i) msg (Some kvfmt) e ap clock s)"
| "run_call X cfg (Call_panicf i msg kvfmt e ap clock) (ls, s) = after_outcome ls (pslog_panicf X cfg (nth_logger ls i) msg (Some kvfmt) e ap clock s)"
| "run_call X cfg (Call_with i flds) (ls, s) = (add_logger ls (pslog_with X cfg (nth_logger ls i) flds s), None)"
| "run_call X cfg (Call_withf i kvfmt e ap) (ls, s) = (add_logger ls (pslog_withf X cfg (nth_logger ls i) (Some kvfmt) e ap s), None)"
| "run_call X cfg (Call_with_level i level) (ls, s) = (add_logger ls (pslog_with_level X cfg (nth_logger ls i) level s), None)"
| "run_call X cfg (Call_with_level_field i) (ls, s) = (add_logger ls (pslog_with_level_field X cfg (nth_logger ls i) s), None)"

fun run_program ::
  "libc \<Rightarrow> shared_cfg \<Rightarrow> public_call list \<Rightarrow> pslog_logger_impl list \<times> est \<Rightarrow> (pslog_logger_impl list \<times> est) \<times> ending option" where
  "run_program X cfg [] q = (q, None)"
| "run_program X cfg (c # cs) q =
     (case run_call X cfg c q of (q', None) \<Rightarrow> run_program X cfg cs q' | (q', Some e) \<Rightarrow> (q', Some e))"

section \<open>The operations of a program\<close>

text \<open>Every call is an operation of a session, and ends the program or not.\<close>

fun call_op :: "public_call \<Rightarrow> operation \<times> ending option" where
  "call_op (Call_fields i level msg flds clock) = (Op_log i level msg flds clock, None)"
| "call_op (Call_trace i msg flds clock) = (Op_log i LEVEL_TRACE msg flds clock, None)"
| "call_op (Call_debug i msg flds clock) = (Op_log i LEVEL_DEBUG msg flds clock, None)"
| "call_op (Call_info i msg flds clock) = (Op_log i LEVEL_INFO msg flds clock, None)"
| "call_op (Call_warn i msg flds clock) = (Op_log i LEVEL_WARN msg flds clock, None)"
| "call_op (Call_error i msg flds clock) = (Op_log i LEVEL_ERROR msg flds clock, None)"
| "call_op (Call_fatal i msg flds clock) = (Op_log i LEVEL_FATAL msg flds clock, Some Exit_failure)"
| "call_op (Call_panic i msg flds clock) = (Op_log i LEVEL_PANIC msg flds clock, Some Abort)"
| "call_op (Call_format i level msg kvfmt e ap clock) = (Op_logf i level msg kvfmt e ap clock, None)"
| "call_op (Call_tracef i msg kvfmt e ap clock) = (Op_logf i LEVEL_TRACE msg kvfmt e ap clock, None)"
| "call_op (Call_debugf i msg kvfmt e ap clock) = (Op_logf i LEVEL_DEBUG msg kvfmt e ap clock, None)"
| "call_op (Call_infof i msg kvfmt e ap clock) = (Op_logf i LEVEL_INFO msg kvfmt e ap clock, None)"
| "call_op (Call_warnf i msg kvfmt e ap clock) = (Op_logf i LEVEL_WARN msg kvfmt e ap clock, None)"
| "call_op (Call_errorf i msg kvfmt e ap clock) = (Op_logf i LEVEL_ERROR msg kvfmt e ap clock, None)"
| "call_op (Call_fatalf i msg kvfmt e ap clock) = (Op_logf i LEVEL_FATAL msg kvfmt e ap clock, Some Exit_failure)"
| "call_op (Call_panicf i msg kvfmt e ap clock) = (Op_logf i LEVEL_PANIC msg kvfmt e ap clock, Some Abort)"
| "call_op (Call_with i flds) = (Op_with i flds, None)"
| "call_op (Call_withf i kvfmt e ap) = (Op_withf i kvfmt e ap, None)"
| "call_op (Call_with_level i level) = (Op_with_level i level, None)"
| "call_op (Call_with_level_field i) = (Op_with_level_field i, None)"

fun program_ops :: "public_call list \<Rightarrow> operation list \<times> ending option" where
  "program_ops [] = ([], None)"
| "program_ops (c # cs) =
     (case call_op c of (op, None) \<Rightarrow> apfst (Cons op) (program_ops cs) | (op, Some e) \<Rightarrow> ([op], Some e))"

lemma call_is_op:
  assumes "op_ok X cfg (fst (call_op c)) as" "length as = length ls"
  shows "run_call X cfg c (ls, s) = (run_op X cfg (fst (call_op c)) (ls, s), snd (call_op c))"
  using assms
  by (cases c)
    (simp_all add: nth_logger_def pslog_fields_def pslog_trace_def pslog_debug_def pslog_info_def pslog_warn_def pslog_error_def
      pslog_fatal_def pslog_panic_def pslog_def pslog_tracef_def pslog_debugf_def pslog_infof_def pslog_warnf_def pslog_errorf_def
      pslog_fatalf_def pslog_panicf_def pslog_with_def pslog_withf_def pslog_with_level_def pslog_with_level_field_def
      pslog_logger_log_def pslog_logger_trace_def pslog_logger_debug_def pslog_logger_info_def pslog_logger_warn_def
      pslog_logger_error_def pslog_logger_fatal_def pslog_logger_panic_def)

context emitting_sink
begin

lemma program_is_session:
  assumes "cfg_ok cfg" "ops_ok X cfg (fst (program_ops cs)) q" "refines acc (serving snk ok X cfg) X cfg q r"
  shows "run_program X cfg cs r = (fold (run_op X cfg) (fst (program_ops cs)) r, snd (program_ops cs))"
  using assms(2,3)
proof (induction cs arbitrary: q r)
  case (Cons c cs)
  obtain op e where c: "call_op c = (op, e)" by fastforce
  obtain ls s where r: "r = (ls, s)" by fastforce
  have ok: "op_ok X cfg (fst (call_op c)) (fst q)" using Cons.prems(1) c by (cases e) simp_all
  have len: "length (fst q) = length ls" using Cons.prems(2) by (auto simp: r refines_def loggers_refine_def dest: list_all2_lengthD)
  note run = call_is_op [OF ok len, of s]
  show ?case
  proof (cases e)
    case None
    have "refines acc (serving snk ok X cfg) X cfg (spec_op X cfg op q) (run_op X cfg op r)"
      using op_refines [OF assms(1) ok Cons.prems(2)] c by simp
    from Cons.IH [OF _ this] Cons.prems(1) show ?thesis using run by (simp add: c None r)
  next
    case (Some x)
    then show ?thesis using run by (simp add: c r)
  qed
qed simp

end

section \<open>Properties\<close>

text \<open>
  Claim C19. Programs of public calls behave as the abstract session: whatever a program calls on the
  loggers it gets from \<open>pslog_new\<close> and from the calls that derive loggers, through any of the public
  functions, the descriptor receives exactly the lines of the abstract session for the calls up to the
  first fatal or panic call; that call is delivered too and ends the program, with the failure status
  or by abort, and no later call is made.
\<close>

theorem program_refines_session:
  assumes "pslog_new True True config s = (Some (cfg, impl), s1)"
    and "all_alloc (e_world s)" "palette_sized (new_palette config)"
    and "o_sink (cf_output (effective_config config)) = S_fd a (Some fd)" "0 \<le> fd" "all_progress (e_world s)"
    and "cf_with_level_field (effective_config config) \<longrightarrow> std_level (cf_min_level (effective_config config))"
    and "program_ops calls = (ops, ending)" "ops_ok X cfg ops ([impl], accepted (T_fd fd) (e_world s))"
  shows "\<exists>ls s'. run_program X cfg calls ([impl], s1) = ((ls, s'), ending) \<and>
    accepted (T_fd fd) (e_world s') = snd (fold (spec_op X cfg) ops ([impl], accepted (T_fd fd) (e_world s)))"
proof -
  have ok: "0 \<le> fd \<and> all_progress (e_world s)" using assms(5,6) by simp
  note n = emit_fd.new_session [OF assms(1-4) ok assms(7)]
  note o = assms(9) [folded arg_cong [OF assms(8), of fst, unfolded fst_conv]]
  have "run_program X cfg calls ([impl], s1) = (fold (run_op X cfg) ops ([impl], s1), ending)"
    using emit_fd.program_is_session [OF n(1) o n(2)] assms(8) by simp
  with emit_fd.session_refines [OF n(1) assms(9) n(2)] show ?thesis
    by (cases "fold (run_op X cfg) ops ([impl], s1)") (simp add: refines_def)
qed


lemma program_refines_session_witness:
  "\<exists>cfg impl s1 ls s'. pslog_new True True (Some demo_config) demo_state = (Some (cfg, impl), s1) \<and>
     run_program demo_libc cfg [Call_info 0 (Some ''up'') [] (0, 0), Call_with_level 0 LEVEL_DISABLED, Call_info 1 None [] (0, 0),
       Call_fatal 0 (Some ''down'') [] (0, 0), Call_info 0 (Some ''never'') [] (0, 0)] ([impl], s1) = ((ls, s'), Some Exit_failure) \<and>
     accepted (T_fd 3) (e_world s') =
       log_text demo_libc cfg impl LEVEL_INFO (Some ''up'') [] (0, 0) @ log_text demo_libc cfg impl LEVEL_FATAL (Some ''down'') [] (0, 0)"
proof -
  obtain cfg impl s1 where c: "pslog_new True True (Some demo_config) demo_state = (Some (cfg, impl), s1)"
    "c_mode cfg = MODE_JSON" "c_color_enabled cfg = False" "i_fields impl = []" "i_min_level impl = LEVEL_DEBUG" "\<not> i_include_level_field impl"
    by (rule demo_new)
  let ?calls = "[Call_info 0 (Some ''up'') [] (0, 0), Call_with_level 0 LEVEL_DISABLED, Call_info 1 None [] (0, 0),
       Call_fatal 0 (Some ''down'') [] (0, 0), Call_info 0 (Some ''never'') [] (0, 0)]"
  let ?ops = "[Op_log 0 LEVEL_INFO (Some ''up'') [] (0, 0), Op_with_level 0 LEVEL_DISABLED, Op_log 1 LEVEL_INFO None [] (0, 0),
       Op_log 0 LEVEL_FATAL (Some ''down'') [] (0, 0)]"
  have w: "all_alloc (e_world demo_state)" "all_progress (e_world demo_state)" "accepted (T_fd 3) (e_world demo_state) = []"
    by (simp_all add: demo_state_def demo_eqs all_alloc_def all_progress_def accepted_def)
  have p: "palette_sized (new_palette (Some demo_config))" "o_sink (cf_output (effective_config (Some demo_config))) = S_fd 1 (Some 3)"
    "\<not> cf_with_level_field (effective_config (Some demo_config))"
    by (simp_all add: new_palette_def effective_config_def demo_config_def pslog_default_config_def default_sized)
  have call: "call_ok demo_libc LEVEL_INFO (0, 0)" "call_ok demo_libc LEVEL_FATAL (0, 0)"
    by (rule demo_call_ok; simp add: std_level_def slot_level_def std_levels_def)+
  have ops: "program_ops ?calls = (?ops, Some Exit_failure)" by simp
  have ok: "ops_ok demo_libc cfg ?ops ([impl], accepted (T_fd 3) (e_world demo_state))" using c(6) call by simp
  have lvl: "cf_with_level_field (effective_config (Some demo_config)) \<longrightarrow> std_level (cf_min_level (effective_config (Some demo_config)))"
    using p(3) by simp
  from program_refines_session [OF c(1) w(1) p(1,2) _ w(2) lvl ops ok] c(1) show ?thesis
    by (auto simp: w(3) c(5) pslog_should_log_def)
qed

end
