(* ===== verification/Environment.thy ===== *)
theory Environment
  imports Session
begin

text \<open>
  Loggers from environment variables: \<open>pslog_new_from_env\<close> with the file outputs it opens
  (\<open>src/pslog.c\<close>). \<open>getenv\<close> is an argument, and so is what \<open>open(2)\<close> answers: the error number or the
  descriptor, for a path, whether the file is truncated and the permissions.
\<close>

section \<open>Outputs that are opened\<close>

type_synonym environment = "cstring \<Rightarrow> cstring option"
type_synonym open_fn = "cstring \<Rightarrow> bool \<Rightarrow> nat \<Rightarrow> int + int"

definition stderr_fp :: "nat option" where
  "stderr_fp = Some 2"

definition fd_output_size :: nat where
  "fd_output_size = 4"

definition close_descriptor :: "int \<Rightarrow> world \<Rightarrow> world" where
  "close_descriptor fd w =
     (case ask w of (Fail n e, w1) \<Rightarrow> log_call (C_close (T_fd fd) e) w1 | (_, w1) \<Rightarrow> log_call (C_close (T_fd fd) 0) w1)"

text \<open>The result, the output if it is set, and the world.\<close>

definition pslog_output_init_file_perms ::
  "libc \<Rightarrow> open_fn \<Rightarrow> cstring option \<Rightarrow> cstring option \<Rightarrow> nat \<Rightarrow> world \<Rightarrow> int \<times> pslog_output option \<times> world" where
  "pslog_output_init_file_perms X opens path mode file_mode w =
     (case path of
        None \<Rightarrow> (-1, None, w)
      | Some p \<Rightarrow>
          (case opens p (case mode of None \<Rightarrow> False | Some m \<Rightarrow> CHR ''w'' \<in> set m) file_mode of
             Inl errno \<Rightarrow> (if errno \<noteq> 0 then errno else -1, None, w)
           | Inr fd \<Rightarrow>
               (let (ok, w1) = pslog_calloc_internal 1 fd_output_size w
                in if \<not> ok then (-1, None, close_descriptor fd w1)
                   else (0, Some (Output (S_fd (lc_block X (w_allocs w)) (Some fd)) True True True), w1))))"

definition pslog_output_init_file ::
  "libc \<Rightarrow> open_fn \<Rightarrow> cstring option \<Rightarrow> cstring option \<Rightarrow> world \<Rightarrow> int \<times> pslog_output option \<times> world" where
  "pslog_output_init_file X opens path mode w = pslog_output_init_file_perms X opens path mode 438 w"

text \<open>A stream or the configured output, with a file beside it when a path follows the plus sign.\<close>

definition tee_with_file ::
  "libc \<Rightarrow> open_fn \<Rightarrow> pslog_output \<Rightarrow> cstring \<Rightarrow> nat \<Rightarrow> world \<Rightarrow> int \<times> pslog_output option \<times> world" where
  "tee_with_file X opens first path file_mode w =
     (let path_value = pslog_trim_copy 512 (Some path) in
      if path_value = [] then (0, Some first, w)
      else
        (case pslog_output_init_file_perms X opens (Some path_value) (Some ''ab'') file_mode w of
           (err, None, w1) \<Rightarrow> (err, None, w1)
         | (_, Some second, w1) \<Rightarrow>
             (case pslog_output_init_tee (lc_block X (w_allocs w1)) first second w1 of
                (None, w2) \<Rightarrow> (-1, None, snd (pslog_output_destroy second w2))
              | (Some out, w2) \<Rightarrow> (0, Some out, w2))))"

definition pslog_output_init_env_value ::
  "libc \<Rightarrow> open_fn \<Rightarrow> pslog_output \<Rightarrow> cstring option \<Rightarrow> nat \<Rightarrow> world \<Rightarrow> int \<times> pslog_output option \<times> world" where
  "pslog_output_init_env_value X opens base_output value file_mode w =
     (if value = None then (-1, None, w)
      else
        (let trimmed = pslog_trim_copy 512 value in
         if trimmed = [] then (0, Some base_output, w)
         else if pslog_string_iequal (Some trimmed) (Some ''default'') then (0, Some base_output, w)
         else if pslog_string_iequal (Some trimmed) (Some ''stdout'') then (0, Some (pslog_output_from_fp stdout_fp False), w)
         else if pslog_string_iequal (Some trimmed) (Some ''stderr'') then (0, Some (pslog_output_from_fp stderr_fp False), w)
         else if pslog_string_has_prefix_ci (Some trimmed) (Some ''stdout+'')
           then tee_with_file X opens (pslog_output_from_fp stdout_fp False) (drop 7 trimmed) file_mode w
         else if pslog_string_has_prefix_ci (Some trimmed) (Some ''stderr+'')
           then tee_with_file X opens (pslog_output_from_fp stderr_fp False) (drop 7 trimmed) file_mode w
         else if pslog_string_has_prefix_ci (Some trimmed) (Some ''default+'')
           then tee_with_file X opens base_output (drop 8 trimmed) file_mode w
         else pslog_output_init_file_perms X opens (Some trimmed) (Some ''ab'') file_mode w))"

section \<open>Settings\<close>

definition env_get :: "environment \<Rightarrow> cstring option \<Rightarrow> cstring \<Rightarrow> cstring option" where
  "env_get env p sfx = (case pslog_env_copy 128 (pslog_env_prefix p) sfx of None \<Rightarrow> None | Some key \<Rightarrow> env key)"

definition env_bool :: "environment \<Rightarrow> cstring option \<Rightarrow> cstring \<Rightarrow> bool option" where
  "env_bool env p sfx = (case env_get env p sfx of None \<Rightarrow> None | Some v \<Rightarrow> pslog_parse_bool_value (Some v))"

text \<open>A setting that is not given, or not understood, leaves the configuration as it is.\<close>

definition with_setting :: "'a option \<Rightarrow> ('a \<Rightarrow> pslog_config \<Rightarrow> pslog_config) \<Rightarrow> pslog_config \<Rightarrow> pslog_config" where
  "with_setting x g c = (case x of None \<Rightarrow> c | Some v \<Rightarrow> g v c)"

definition env_settings :: "environment \<Rightarrow> cstring option \<Rightarrow> pslog_config \<Rightarrow> pslog_config" where
  "env_settings env p c0 =
     (let c1 = with_setting (Option.bind (env_get env p ''LEVEL'') (\<lambda>v. pslog_parse_level (Some v))) (\<lambda>level c. c\<lparr>cf_min_level := level\<rparr>) c0;
          c2 = with_setting (Option.bind (env_get env p ''MODE'') (\<lambda>v. pslog_parse_mode_value (Some v))) (\<lambda>mode c. c\<lparr>cf_mode := mode\<rparr>) c1;
          c3 = with_setting (env_get env p ''TIME_FORMAT'') (\<lambda>v c. if v \<noteq> [] then c\<lparr>cf_time_format := Some v\<rparr> else c) c2;
          c4 = with_setting (env_bool env p ''DISABLE_TIMESTAMP'') (\<lambda>b c. c\<lparr>cf_timestamps := \<not> b\<rparr>) c3;
          c5 = with_setting (env_bool env p ''VERBOSE_FIELDS'') (\<lambda>b c. c\<lparr>cf_verbose_fields := b\<rparr>) c4;
          c6 = with_setting (env_bool env p ''UTC'') (\<lambda>b c. c\<lparr>cf_utc := b\<rparr>) c5;
          c7 = with_setting (env_bool env p ''NO_COLOR'') (\<lambda>b c. if b then c\<lparr>cf_color := COLOR_NEVER\<rparr> else c) c6;
          c8 = with_setting (env_bool env p ''FORCE_COLOR'')
                 (\<lambda>b c. if b \<and> cf_color c \<noteq> COLOR_NEVER then c\<lparr>cf_color := COLOR_ALWAYS\<rparr> else c) c7
      in with_setting (env_get env p ''PALETTE'')
           (\<lambda>v c. if v \<noteq> [] then c\<lparr>cf_palette := Some (pslog_palette_by_name (Some (pslog_trim_copy 64 (Some v))))\<rparr> else c) c8)"

definition default_output_file_mode :: nat where
  "default_output_file_mode = 384"

text \<open>The trimmed value, the permissions and whether the value was refused.\<close>

definition env_file_mode :: "environment \<Rightarrow> cstring option \<Rightarrow> cstring \<times> nat \<times> bool" where
  "env_file_mode env p =
     (case env_get env p ''OUTPUT_FILE_MODE'' of
        None \<Rightarrow> ([], default_output_file_mode, False)
      | Some v \<Rightarrow>
          (let mode_value = pslog_trim_copy 32 (Some v) in
           if mode_value = [] then (mode_value, default_output_file_mode, False)
           else (case pslog_parse_file_mode (Some mode_value) of
                   None \<Rightarrow> (mode_value, default_output_file_mode, True)
                 | Some m \<Rightarrow> (mode_value, m, False))))"

text \<open>The output the logger gets, and the error if the requested one cannot be set up.\<close>

definition env_output ::
  "libc \<Rightarrow> open_fn \<Rightarrow> cstring \<Rightarrow> nat \<Rightarrow> pslog_output \<Rightarrow> world \<Rightarrow> pslog_output \<times> int option \<times> world" where
  "env_output X opens output_value file_mode base_output w =
     (if output_value = [] then (base_output, None, w)
      else
        (case pslog_output_init_env_value X opens base_output (Some output_value) file_mode w of
           (err, None, w1) \<Rightarrow> (base_output, Some err, w1)
         | (_, Some out, w1) \<Rightarrow>
             (out, None, if pslog_output_contains out base_output then w1 else snd (pslog_output_destroy base_output w1))))"

definition literal_key :: "libc \<Rightarrow> cstring \<Rightarrow> cptr option" where
  "literal_key X t = Some (lc_literal X t, t)"

definition mode_error_fields :: "libc \<Rightarrow> cstring \<Rightarrow> pslog_field list" where
  "mode_error_fields X mode_value =
     [pslog_str (literal_key X ''error'') (Some (''invalid OUTPUT_FILE_MODE '' @ [dquote] @ mode_value @ [dquote] @
        '' (expected octal permissions in range 0000-0777)'')),
      pslog_str (literal_key X ''output_file_mode'') (Some mode_value)]"

definition output_error_fields :: "libc \<Rightarrow> cstring \<Rightarrow> int \<Rightarrow> pslog_field list" where
  "output_error_fields X output_value err =
     [pslog_str (literal_key X ''error'') (Some (if err > 0 then or_empty (lc_strerror X err) else ''failed to initialize output'')),
      pslog_str (literal_key X ''output'') (Some output_value)]"

text \<open>
  \<open>clock1\<close> and \<open>clock2\<close> are what the time source answers the two diagnostics. The texts fit the scratch
  arrays: a mode value has at most 31 bytes, and \<open>strerror\<close> is assumed below 256.
\<close>

definition pslog_new_from_env ::
  "libc \<Rightarrow> open_fn \<Rightarrow> environment \<Rightarrow> bool \<Rightarrow> bool \<Rightarrow> cstring option \<Rightarrow> pslog_config option \<Rightarrow> int \<times> int \<Rightarrow> int \<times> int \<Rightarrow> est \<Rightarrow>
     (shared_cfg \<times> pslog_logger_impl) option \<times> est" where
  "pslog_new_from_env X opens env state_mutex_ok output_mutex_ok p config clock1 clock2 s =
     (let effective = env_settings env p (effective_config config);
          (mode_value, file_mode, has_output_mode_err) = env_file_mode env p;
          output_value = (case env_get env p ''OUTPUT'' of None \<Rightarrow> [] | Some v \<Rightarrow> pslog_trim_copy 512 (Some v));
          (out, output_err, w) = env_output X opens output_value file_mode (cf_output effective) (e_world s)
      in case pslog_new state_mutex_ok output_mutex_ok (Some (effective\<lparr>cf_output := out\<rparr>)) (s\<lparr>e_world := w\<rparr>) of
           (None, s1) \<Rightarrow> (None, s1)
         | (Some (cfg, impl), s1) \<Rightarrow>
             (let s2 = (if has_output_mode_err
                        then pslog_log_impl X cfg impl LEVEL_ERROR (Some ''logger.output.file_mode.invalid'') (mode_error_fields X mode_value) clock1 s1
                        else s1);
                  s3 = (case output_err of
                          None \<Rightarrow> s2
                        | Some err \<Rightarrow> pslog_log_impl X cfg impl LEVEL_ERROR (Some ''logger.output.open.failed'')
                            (output_error_fields X output_value err) clock2 s2)
              in (Some (cfg, impl), s3)))"

section \<open>Lemmas\<close>

lemma effective_idem: "effective_config (Some (effective_config config)) = effective_config config"
  by (cases config) (auto simp: effective_config_def pslog_default_config_def pslog_output_from_fp_def split: option.splits)

lemma new_effective: "effective_config c = effective_config d \<Longrightarrow> pslog_new a b c s = pslog_new a b d s"
  by (simp add: pslog_new_def)

text \<open>A value of the OUTPUT variable that asks for a file, alone or beside a stream.\<close>

definition names_file :: "cstring \<Rightarrow> bool" where
  "names_file value =
     (let t = pslog_trim_copy 512 (Some value) in
      t \<noteq> [] \<and> \<not> pslog_string_iequal (Some t) (Some ''default'') \<and> \<not> pslog_string_iequal (Some t) (Some ''stdout'') \<and>
      \<not> pslog_string_iequal (Some t) (Some ''stderr'') \<and>
      (pslog_string_has_prefix_ci (Some t) (Some ''stdout+'') \<or> pslog_string_has_prefix_ci (Some t) (Some ''stderr+'') \<longrightarrow>
         pslog_trim_copy 512 (Some (drop 7 t)) \<noteq> []) \<and>
      (pslog_string_has_prefix_ci (Some t) (Some ''default+'') \<longrightarrow> pslog_trim_copy 512 (Some (drop 8 t)) \<noteq> []))"

definition refused :: "int \<Rightarrow> int" where
  "refused errno = (if errno \<noteq> 0 then errno else -1)"

lemma refused_file: "(\<And>path b m. opens path b m = Inl errno) \<Longrightarrow> pslog_output_init_file_perms X opens (Some path) mode m w = (refused errno, None, w)"
  by (simp add: pslog_output_init_file_perms_def refused_def)

lemma refused_value:
  assumes "\<And>path b m. opens path b m = Inl errno" "names_file value"
  shows "pslog_output_init_env_value X opens base_output (Some value) file_mode w = (refused errno, None, w)"
  using assms(2) refused_file [OF assms(1)]
  by (auto simp: names_file_def pslog_output_init_env_value_def tee_with_file_def Let_def)

lemma setting_keeps: "(\<And>v d. h (g v d) = h d) \<Longrightarrow> h (with_setting x g c) = h c"
  by (simp add: with_setting_def split: option.split)

lemma setting_palette: "(\<And>v d. cf_palette d \<noteq> None \<Longrightarrow> cf_palette (g v d) \<noteq> None) \<Longrightarrow> cf_palette c \<noteq> None \<Longrightarrow> cf_palette (with_setting x g c) \<noteq> None"
  by (simp add: with_setting_def split: option.split)

lemma env_settings_keeps:
  "cf_output (env_settings env p c) = cf_output c"
  "cf_with_level_field (env_settings env p c) = cf_with_level_field c"
  "cf_line_buffer_capacity (env_settings env p c) = cf_line_buffer_capacity c"
  "cf_palette c \<noteq> None \<Longrightarrow> cf_palette (env_settings env p c) \<noteq> None"
  by (simp_all only: env_settings_def Let_def)
    (simp_all add: setting_keeps [where h = cf_output] setting_keeps [where h = cf_with_level_field]
      setting_keeps [where h = cf_line_buffer_capacity] setting_palette del: not_None_eq)

lemma effective_fixed: "cf_palette c \<noteq> None \<Longrightarrow> o_sink (cf_output c) \<noteq> S_null \<Longrightarrow> effective_config (Some c) = c"
  by (cases c) (auto simp: effective_config_def)

lemma effective_complete: "cf_palette (effective_config config) \<noteq> None" "o_sink (cf_output (effective_config config)) \<noteq> S_null"
  by (cases config; auto simp: effective_config_def pslog_default_config_def pslog_output_from_fp_def split: option.splits)+

lemma env_settings_fixed:
  "effective_config (Some (env_settings env p (effective_config config))) = env_settings env p (effective_config config)"
  by (rule effective_fixed) (use effective_complete [of config] in \<open>simp_all only: env_settings_keeps not_False_eq_True\<close>)

lemma env_fields_ok: "list_all field_ok (mode_error_fields X v)" "list_all field_ok (output_error_fields X v err)"
  by (simp_all add: mode_error_fields_def output_error_fields_def pslog_str_ok)

lemma env_unset:
  assumes "\<And>key. env key = None"
  shows "env_get env p sfx = None" "env_settings env p c = c" "env_file_mode env p = ([], default_output_file_mode, False)"
proof -
  have g: "env_get env p sfx = None" for sfx by (simp add: env_get_def assms split: option.split)
  show "env_get env p sfx = None" by (rule g)
  show "env_settings env p c = c" "env_file_mode env p = ([], default_output_file_mode, False)"
    by (simp_all add: env_settings_def env_bool_def env_file_mode_def with_setting_def g)
qed

lemma new_from_empty_env:
  assumes "\<And>key. env key = None"
  shows "pslog_new_from_env X opens env a b p config clock1 clock2 s = pslog_new a b config s"
proof -
  have k: "effective_config config\<lparr>cf_output := cf_output (effective_config config)\<rparr> = effective_config config" by simp
  have "pslog_new a b (Some (effective_config config)) s = pslog_new a b config s" by (rule new_effective [OF effective_idem])
  then show ?thesis
    by (simp add: pslog_new_from_env_def env_unset [OF assms] env_output_def Let_def k split: prod.split option.split)
qed

section \<open>Properties\<close>

text \<open>
  Claim C20. A file that cannot be opened does not cost the program its log: if every \<open>open\<close> is refused
  and the OUTPUT variable asks for a file, alone or beside a stream, \<open>pslog_new_from_env\<close> still returns
  a logger, on the configured output and with the other settings of the environment, and writes there
  the diagnostics and nothing else: first the one for a refused file mode, then the one that names the
  output and the error, both only if the level lets errors pass.
\<close>

theorem env_output_falls_back:
  assumes "all_alloc (e_world s)" "all_progress (e_world s)"
    and "c = env_settings env p (effective_config config)" "palette_sized (new_palette (Some c))"
    and "pslog_normalize_line_buffer_capacity (cf_line_buffer_capacity c) = Some capacity"
    and "o_sink (cf_output c) = S_fd a (Some fd)" "0 \<le> fd" "cf_with_level_field c \<longrightarrow> std_level (cf_min_level c)"
    and "env_get env p ''OUTPUT'' = Some requested" "v = pslog_trim_copy 512 (Some requested)" "names_file v"
    and "\<And>path b m. opens path b m = Inl errno"
    and "call_ok X LEVEL_ERROR clock1" "call_ok X LEVEL_ERROR clock2"
  shows "\<exists>cfg impl s'. pslog_new_from_env X opens env True True p config clock1 clock2 s = (Some (cfg, impl), s') \<and>
    fd_serving a fd X cfg s' \<and> cfg_from (Some c) capacity (config_color c (e_world s)) cfg \<and> i_min_level impl = cf_min_level c \<and>
    accepted (T_fd fd) (e_world s') = accepted (T_fd fd) (e_world s) @
      (if pslog_should_log False impl LEVEL_ERROR
       then (case env_file_mode env p of (mode_value, m, invalid) \<Rightarrow>
               if invalid then log_text X cfg impl LEVEL_ERROR (Some ''logger.output.file_mode.invalid'') (mode_error_fields X mode_value) clock1 else [])
            @ log_text X cfg impl LEVEL_ERROR (Some ''logger.output.open.failed'') (output_error_fields X v (refused errno)) clock2
       else [])"
proof -
  have e: "effective_config (Some c) = c" by (simp add: assms(3) env_settings_fixed)
  note nr = new_ready [OF assms(1,4), unfolded e, OF assms(5,6,7,2,8)]
  obtain cfg impl s1 where n: "pslog_new True True (Some c) s = (Some (cfg, impl), s1)" "fd_serving a fd X cfg s1" "cfg_ok cfg" "logger_ok X cfg impl"
    "cfg_from (Some c) capacity (config_color c (e_world s)) cfg" "i_fields impl = []" "i_min_level impl = cf_min_level c"
    "accepted (T_fd fd) (e_world s1) = accepted (T_fd fd) (e_world s)"
    by (rule nr [of X])
  obtain mode_value m invalid where f: "env_file_mode env p = (mode_value, m, invalid)" by (rule prod_cases3)
  define s2 where "s2 = (if invalid then pslog_log_impl X cfg impl LEVEL_ERROR (Some ''logger.output.file_mode.invalid'')
      (mode_error_fields X mode_value) clock1 s1 else s1)"
  define s3 where "s3 = pslog_log_impl X cfg impl LEVEL_ERROR (Some ''logger.output.open.failed'') (output_error_fields X v (refused errno)) clock2 s2"
  have v: "v \<noteq> []" using assms(11) by (auto simp: names_file_def pslog_trim_copy_def trim_def)
  have run: "pslog_new_from_env X opens env True True p config clock1 clock2 s = (Some (cfg, impl), s3)"
    using n(1) v refused_value [OF assms(12,11)]
    by (simp add: pslog_new_from_env_def assms(9) f env_output_def Let_def s3_def s2_def flip: assms(3,10))
  note l2 = emit_fd.log_impl_text [OF n(2-4) assms(13) env_fields_ok(1)]
  have s2: "fd_serving a fd X cfg s2" using l2 n(2) by (auto simp: s2_def)
  note l3 = emit_fd.log_impl_text [OF s2 n(3,4) assms(14) env_fields_ok(2)]
  show ?thesis
    using run n l2 l3 by (auto simp: s3_def s2_def f)
qed

lemma env_output_falls_back_witness:
  "\<exists>cfg impl s'. pslog_new_from_env demo_libc (\<lambda>_ _ _. Inl 13) (\<lambda>k. if k = ''LOG_OUTPUT'' then Some '' /log/app '' else None) True True None
      (Some demo_config) (0, 0) (0, 0) demo_state = (Some (cfg, impl), s') \<and>
     accepted (T_fd 3) (e_world s') =
       log_text demo_libc cfg impl LEVEL_ERROR (Some ''logger.output.open.failed'') (output_error_fields demo_libc ''/log/app'' 13) (0, 0)"
proof -
  let ?env = "\<lambda>k. if k = ''LOG_OUTPUT'' then Some '' /log/app '' else None"
  have g: "env_get ?env None ''LEVEL'' = None" "env_get ?env None ''MODE'' = None" "env_get ?env None ''TIME_FORMAT'' = None"
    "env_get ?env None ''DISABLE_TIMESTAMP'' = None" "env_get ?env None ''VERBOSE_FIELDS'' = None" "env_get ?env None ''UTC'' = None"
    "env_get ?env None ''NO_COLOR'' = None" "env_get ?env None ''FORCE_COLOR'' = None" "env_get ?env None ''PALETTE'' = None"
    "env_get ?env None ''OUTPUT_FILE_MODE'' = None" "env_get ?env None ''OUTPUT'' = Some '' /log/app ''"
    by (simp_all add: env_get_def pslog_env_copy_def pslog_env_prefix_def)
  have c: "demo_config = env_settings ?env None (effective_config (Some demo_config))"
    by (simp add: env_settings_def env_bool_def g with_setting_def) (simp add: effective_config_def demo_config_def pslog_default_config_def)
  have t: "pslog_trim_copy 512 (Some '' /log/app '') = ''/log/app''" "pslog_trim_copy 512 (Some ''/log/app'') = ''/log/app''"
    by (simp_all add: pslog_trim_copy_def trim_def isspace_def)
  have n: "names_file ''/log/app''"
    by (simp only: names_file_def t Let_def) (simp add: iequal_iff has_prefix_ci_iff tolower_def)
  note v = t(1) [symmetric] n
  have m: "env_file_mode ?env None = ([], default_output_file_mode, False)" by (simp add: env_file_mode_def g)
  have w: "all_alloc (e_world demo_state)" "all_progress (e_world demo_state)" "accepted (T_fd 3) (e_world demo_state) = []"
    by (simp_all add: demo_state_def demo_eqs all_alloc_def all_progress_def accepted_def)
  have p: "palette_sized (new_palette (Some demo_config))" "o_sink (cf_output demo_config) = S_fd 1 (Some 3)" "\<not> cf_with_level_field demo_config"
    "cf_min_level demo_config = LEVEL_DEBUG"
    by (simp_all add: new_palette_def effective_config_def demo_config_def pslog_default_config_def default_sized)
  have cap: "pslog_normalize_line_buffer_capacity (cf_line_buffer_capacity demo_config) = Some default_line_buffer_capacity"
    by (simp add: demo_config_def pslog_default_config_def pslog_normalize_line_buffer_capacity_def default_line_buffer_capacity_def size_max_eq)
  have call: "call_ok demo_libc LEVEL_ERROR (0, 0)" by (rule demo_call_ok) (simp add: std_level_def slot_level_def std_levels_def)
  have lvl: "cf_with_level_field demo_config \<longrightarrow> std_level (cf_min_level demo_config)" using p(3) by simp
  from env_output_falls_back [OF w(1,2) c p(1) cap p(2) _ lvl g(11) v _ call call, of "\<lambda>_ _ _. Inl 13" 13] show ?thesis
    by (auto simp: m w(3) p(4) pslog_should_log_def refused_def)
qed

end
