(* ===== verification/Spec2Isabelle.thy ===== *)
theory Spec2Isabelle
  imports Api Environment
begin

text \<open>
  libpslog: a structured logger in C. A program makes a logger from a configuration or from environment
  variables, derives loggers with more fields or another level, and logs a message with typed fields or
  with a \<open>key=%verb\<close> format string. Every call becomes one line, JSON or console text, that is built in a
  buffer and written to an output: a stream, a file descriptor, a callback, two outputs at once (a tee) or
  an output whose failures are counted (observed).

  \<^bold>\<open>How the parts interact.\<close> All loggers derived from one \<open>pslog_new\<close> share one
  state (\<open>pslog_shared_state\<close>): the output with its lock, the reference count, and caches of rendered
  timestamps, doubles, coloured key prefixes and parsed format strings under a second lock. The
  fields of the shared state that never change after construction are the record \<open>shared_cfg\<close>, those that
  change are \<open>pslog_shared\<close>. A line in the making is a \<open>pslog_buffer\<close>. What lies outside the process is the
  \<open>world\<close>: the answers of the sinks and of the allocator, still to come, and the trace of the calls made.
  The three are the record \<open>est\<close>, and every emission routine is a function on it. A logger is a
  \<open>pslog_logger_impl\<close>; its public struct of function pointers is not a value of the model, since every
  logger has the same table.

  \<^bold>\<open>Theories, bottom up\<close> (files of the repository in parentheses):
  \<^item> \<open>Prelude\<close>: bytes, C strings, \<open>ctype.h\<close> classes, \<open>size_t\<close>, and the simp collections of the development.
  \<^item> \<open>Types\<close>: the data model (\<open>include/pslog.h\<close>, \<open>src/pslog_internal.h\<close>); levels are preordered by
    number. The fields of a record are those of the C struct; a string is its bytes without the NUL.
  \<^item> \<open>Outputs\<close> (\<open>src/pslog.c\<close>): checked size arithmetic, the allocator wrappers, the write and close
    callbacks of every kind of output, and the retry loop \<open>write_loop\<close>. Lemmas: each callback reports the
    bytes it delivered (locale \<open>counted_sink\<close>), and with progress the loop delivers all of them (\<open>lossless_sink\<close>);
    tees and observed outputs inherit both from their parts.
  \<^item> \<open>Buffer\<close> (\<open>src/pslog.c\<close>, macros of \<open>src/pslog_internal.h\<close>): the line buffer with its inline array, growth
    and chunked flushing, and the locks. \<open>b_oob\<close> records a store past the end. Lemmas: no routine sets it, appends are
    the appended text, and a line reaches every kind of output whole (locale \<open>line_sink\<close>).
  \<^item> \<open>Trust\<close>, \<open>Encode\<close>, \<open>Levels\<close>, \<open>Times\<close> (\<open>src/pslog.c\<close>): the UTF-8 recogniser and the trusted-string
    scans; JSON and console strings, hexadecimal and decimal digits; level names, the level filter and the
    parsers of configuration values; doubles, durations, RFC 3339 times and cached timestamps. Lemmas:
    agreement with Unicode and with JSON readers, round trips, calendar inverses.
  \<^item> \<open>LocalBuffer\<close>: buffers without shared state, used for literals and prefixes.
  \<^item> \<open>FieldData\<close> (\<open>src/pslog.c\<close>): constructors and deep copies of fields.
  \<^item> \<open>Kvfmt\<close>, \<open>KvfmtCache\<close> (\<open>src/pslog.c\<close>): parser, cache and arguments of format strings. Lemmas: the parser
    accepts one grammar exactly, and a cached layout is the layout of its text.
  \<^item> \<open>Emission\<close>: emission routines as the bytes they append, caches aside (locale \<open>emitting_sink\<close>).
  \<^item> \<open>EmitJson\<close>, \<open>JsonLine\<close> (\<open>src/pslog_emit_json.c\<close>): the JSON lines, and what an RFC 8259 reader
    makes of them.
  \<^item> \<open>Palettes\<close> (\<open>src/pslog_palette.c\<close>): the colour palettes and a terminal's reading of SGR sequences.
  \<^item> \<open>EmitConsole\<close>, \<open>ConsoleLine\<close> (\<open>src/pslog_emit_console.c\<close>): console lines, and what is left of them without
    colours.
  \<^item> \<open>Setup\<close>, \<open>Logger\<close>, \<open>Session\<close> (\<open>src/pslog.c\<close>): \<open>pslog_new\<close>; derived loggers, logging, closing and
    destroying; sequences of operations, and the abstract session they refine, which has neither
    buffers nor caches, copies or prefixes.
  \<^item> \<open>Lifecycle\<close>: the reference count and the closing of outputs when allocations and sinks fail at any
    point, as a step relation with reachable states (locale \<open>emission_frame\<close>).
  \<^item> \<open>Api\<close>, \<open>Environment\<close> (\<open>src/pslog.c\<close>): the public functions with their NULL checks, and programs of them;
    \<open>pslog_new_from_env\<close> and the file outputs it opens.

  \<^bold>\<open>Interfaces.\<close> A sink promises to count what it accepts (\<open>counted_sink\<close>, extended by
  \<open>lossless_sink\<close>, \<open>line_sink\<close> and \<open>emitting_sink\<close>); the laws are discharged for descriptors, stdio streams,
  callbacks, observed outputs and tees. \<open>append_frame\<close>, \<open>cache_change\<close>, \<open>world_frame\<close> and \<open>emission_frame\<close> state
  which parts of a state the routines leave alone; they are interpreted on the caches, the allocator's
  counters and the life of the shared state.

  \<^bold>\<open>Bounds and loops.\<close> Loops are structural recursion or functions with a termination proof, and none has
  fuel. The retry loop of a sink ends because every call that is followed by another consumes at least
  one byte, so there are at most as many calls as bytes, whatever the sink answers; that is a
  property of its own. Texts are assumed to be at most \<open>2 ^ 48\<close> bytes where sizes are added (\<open>sized\<close>), above
  anything a process can hold. Integers that can wrap are words; \<open>size_t\<close> is a natural number with its
  limit checked where the code checks it.

  \<^bold>\<open>What the model takes as given.\<close> \<open>libc\<close> is a record of functions for what C leaves to the system:
  local time zones, \<open>strftime\<close>, \<open>strerror\<close>, the \<open>printf\<close> formats of doubles, times and pointers, and the addresses of blocks and string
  literals. \<open>getenv\<close>, \<open>open\<close> and the success of mutex initialisation are arguments. \<open>strerror\<close>
  texts fit their 256 bytes. The clock of a call is an argument of the call.

  \<^bold>\<open>Not modelled.\<close> Preemption: calls are atomic, with lock and unlock as explicit steps whose balance is
  checked; two threads in the middle of a line are not. The branches for systems without POSIX and the
  hooks of the test build (\<open>PSLOG_TEST_HOOKS\<close>). The Lua binding (glue over the API of an interpreter
  that is not in the repository), the benchmarks with their generated data, and the programs that only call
  the library: fuzzing, examples and tests.
\<close>

end
